(* ===== verification/Prelude.thy ===== *)
theory Prelude
  imports Main "HOL-Library.Word" "HOL-Library.Sublist" "HOL-Library.Char_ord"
    "HOL-Library.List_Lexorder"
begin

text \<open>
  The vocabulary the components share: the Rust integer types as words, \<open>Result\<close> as a sum
  whose left side is the error, lists as \<open>Vec\<close> and slices, and strings as lists of UTF-8
  bytes. The development's fact collections are declared here.
\<close>

unbundle bit_operations_syntax

named_theorems frame_rules \<open>operations that keep an assertion on the state\<close>
named_theorems text_simps \<open>which bytes a printed value contains\<close>

section \<open>Types\<close>

type_synonym u8 = "8 word"
type_synonym u16 = "16 word"
type_synonym u32 = "32 word"

text \<open>A \<open>String\<close> or \<open>&str\<close> is its UTF-8 encoding: every \<open>char\<close> of HOL is one byte.\<close>

type_synonym rstr = string

abbreviation LF :: char where "LF \<equiv> CHR 0x0A"
abbreviation CR :: char where "CR \<equiv> CHR 0x0D"
abbreviation QUOTE :: char where "QUOTE \<equiv> CHR 0x22"
abbreviation BACKSLASH :: char where "BACKSLASH \<equiv> CHR 0x5C"

section \<open>Result\<close>

text \<open>\<open>Result::and_then\<close> on pure results, and \<open>map_err\<close>.\<close>

definition res_bind :: "'e + 'a \<Rightarrow> ('a \<Rightarrow> 'e + 'b) \<Rightarrow> 'e + 'b" where
  "res_bind r f = (case r of Inl e \<Rightarrow> Inl e | Inr x \<Rightarrow> f x)"

definition map_err :: "('e \<Rightarrow> 'f) \<Rightarrow> 'e + 'a \<Rightarrow> 'f + 'a" where
  "map_err f r = (case r of Inl e \<Rightarrow> Inl (f e) | Inr x \<Rightarrow> Inr x)"

definition ok_or :: "'e \<Rightarrow> 'a option \<Rightarrow> 'e + 'a" where
  "ok_or e x = (case x of None \<Rightarrow> Inl e | Some y \<Rightarrow> Inr y)"

definition is_ok :: "'e + 'a \<Rightarrow> bool" where
  "is_ok r = (case r of Inl _ \<Rightarrow> False | Inr _ \<Rightarrow> True)"

lemma res_bind_simps [simp]:
  "res_bind (Inl e) f = Inl e"
  "res_bind (Inr x) f = f x"
  by (simp_all add: res_bind_def)

lemma map_err_simps [simp]:
  "map_err g (Inl e) = Inl (g e)"
  "map_err g (Inr x) = Inr x"
  by (simp_all add: map_err_def)

lemma ok_or_simps [simp]:
  "ok_or e None = Inl e"
  "ok_or e (Some y) = Inr y"
  by (simp_all add: ok_or_def)

lemma is_ok_simps [simp]: "\<not> is_ok (Inl e)" "is_ok (Inr x)"
  by (simp_all add: is_ok_def)

lemma res_bind_Inr: "res_bind r f = Inr y \<longleftrightarrow> (\<exists>x. r = Inr x \<and> f x = Inr y)"
  by (cases r) simp_all

lemma map_err_Inr [simp]: "map_err g r = Inr y \<longleftrightarrow> r = Inr y"
  by (cases r) simp_all

lemma ok_or_Inr [simp]: "ok_or e x = Inr y \<longleftrightarrow> x = Some y"
  by (cases x) simp_all

text \<open>\<open>Iterator::collect\<close> into a \<open>Result<Vec<_>, _>\<close>: the first error wins.\<close>

fun collect_results :: "('a \<Rightarrow> 'e + 'b) \<Rightarrow> 'a list \<Rightarrow> 'e + 'b list" where
  "collect_results f [] = Inr []"
| "collect_results f (x # xs) =
     (case f x of Inl e \<Rightarrow> Inl e
      | Inr y \<Rightarrow> (case collect_results f xs of Inl e \<Rightarrow> Inl e | Inr ys \<Rightarrow> Inr (y # ys)))"

lemma collect_results_Inr:
  "collect_results f xs = Inr ys \<longleftrightarrow> list_all2 (\<lambda>x y. f x = Inr y) xs ys"
proof (induction xs arbitrary: ys)
  case Nil
  show ?case by (cases ys) auto
next
  case (Cons x xs)
  show ?case
    by (cases ys) (auto simp: Cons.IH[symmetric] split: sum.splits)
qed

lemma collect_results_map:
  assumes "\<And>x. x \<in> set xs \<Longrightarrow> f (g x) = Inr x"
  shows "collect_results f (map g xs) = Inr xs"
  using assms by (induction xs) simp_all

section \<open>Lists\<close>

text \<open>\<open>[String]::join\<close>.\<close>

fun join :: "rstr \<Rightarrow> rstr list \<Rightarrow> rstr" where
  "join sep [] = []"
| "join sep [x] = x"
| "join sep (x # y # zs) = x @ sep @ join sep (y # zs)"

lemma join_Cons: "xs \<noteq> [] \<Longrightarrow> join sep (x # xs) = x @ sep @ join sep xs"
  by (cases xs) simp_all

lemma set_join: "set (join sep xs) \<subseteq> \<Union> (set ` set xs) \<union> set sep"
  by (induction sep xs rule: join.induct) auto

text \<open>A separator that does not occur in what precedes it splits a string in one way.\<close>

lemma append_sep_inject:
  "c \<notin> set a \<Longrightarrow> c \<notin> set a' \<Longrightarrow> a @ c # b = a' @ c # b' \<longleftrightarrow> a = a' \<and> b = b'"
proof (induction a arbitrary: a')
  case Nil
  then show ?case by (cases a') auto
next
  case (Cons x a)
  then show ?case by (cases a') auto
qed

lemma append_sep_inject_right:
  "c \<notin> set b \<Longrightarrow> c \<notin> set b' \<Longrightarrow> a @ c # b = a' @ c # b' \<longleftrightarrow> a = a' \<and> b = b'"
proof -
  assume "c \<notin> set b" "c \<notin> set b'"
  then have "rev b @ c # rev a = rev b' @ c # rev a' \<longleftrightarrow> rev b = rev b' \<and> rev a = rev a'"
    by (intro append_sep_inject) simp_all
  moreover have "rev b @ c # rev a = rev b' @ c # rev a' \<longleftrightarrow> a @ c # b = a' @ c # b'"
    by (metis append.assoc append_Cons append_Nil rev.simps(2) rev_append rev_rev_ident)
  ultimately show ?thesis by auto
qed

lemma join_inject:
  assumes "length xs = length ys" "xs \<noteq> []"
    and "\<And>x. x \<in> set xs \<union> set ys \<Longrightarrow> c \<notin> set x"
  shows "join [c] xs = join [c] ys \<longleftrightarrow> xs = ys"
  using assms
proof (induction xs ys rule: list_induct2)
  case Nil
  then show ?case by simp
next
  case (Cons x xs y ys)
  show ?case
  proof (cases "xs = []")
    case True
    with Cons show ?thesis by simp
  next
    case False
    with Cons.hyps have ne: "ys \<noteq> []" by auto
    have "c \<notin> set x" "c \<notin> set y" using Cons.prems(2) by auto
    then have "join [c] (x # xs) = join [c] (y # ys) \<longleftrightarrow> x = y \<and> join [c] xs = join [c] ys"
      using False ne by (simp add: join_Cons append_sep_inject)
    also have "join [c] xs = join [c] ys \<longleftrightarrow> xs = ys"
      using Cons.IH False Cons.prems(2) by auto
    finally show ?thesis by simp
  qed
qed

text \<open>\<open>Vec::dedup\<close> drops consecutive equal elements, which is \<open>remdups_adj\<close>.\<close>

lemma distinct_remdups_adj_sorted: "sorted xs \<Longrightarrow> distinct (remdups_adj xs)"
  by (induction xs rule: remdups_adj.induct) (auto simp: less_le)

section \<open>Strings\<close>

text \<open>
  \<open>str::starts_with\<close>, \<open>ends_with\<close> and \<open>contains\<close>, \<open>strip_prefix\<close> and \<open>find\<close>
  (the byte offset of the first occurrence).
\<close>

definition starts_with :: "rstr \<Rightarrow> rstr \<Rightarrow> bool" where
  "starts_with s p = prefix p s"

definition ends_with :: "rstr \<Rightarrow> rstr \<Rightarrow> bool" where
  "ends_with s p = suffix p s"

fun find_sub :: "rstr \<Rightarrow> rstr \<Rightarrow> nat option" where
  "find_sub s p =
     (if prefix p s then Some 0
      else case s of [] \<Rightarrow> None | _ # t \<Rightarrow> map_option Suc (find_sub t p))"

declare find_sub.simps [simp del]

definition contains :: "rstr \<Rightarrow> rstr \<Rightarrow> bool" where
  "contains s p = (find_sub s p \<noteq> None)"

lemma find_sub_Some:
  "find_sub s p = Some i \<Longrightarrow> \<exists>a b. s = a @ p @ b \<and> length a = i"
proof (induction s arbitrary: i)
  case Nil
  then show ?case by (auto simp: find_sub.simps[of "[]"] prefix_def split: if_splits)
next
  case (Cons c s)
  show ?case
  proof (cases "prefix p (c # s)")
    case True
    with Cons.prems have "i = 0" by (simp add: find_sub.simps[of "c # s"])
    moreover from True obtain b where "c # s = p @ b" by (auto simp: prefix_def)
    ultimately show ?thesis by (intro exI[of _ "[]"] exI[of _ b]) simp
  next
    case False
    with Cons.prems obtain j where j: "find_sub s p = Some j" "i = Suc j"
      by (auto simp: find_sub.simps[of "c # s"])
    from Cons.IH[OF j(1)] obtain a b where "s = a @ p @ b" "length a = j" by blast
    with j(2) show ?thesis by (intro exI[of _ "c # a"] exI[of _ b]) simp
  qed
qed

lemma find_sub_None: "find_sub s p = None \<Longrightarrow> s \<noteq> a @ p @ b"
proof (induction s arbitrary: a)
  case Nil
  then show ?case by (auto simp: find_sub.simps[of "[]"] prefix_def split: if_splits)
next
  case (Cons c s)
  show ?case
  proof
    assume eq: "c # s = a @ p @ b"
    from Cons.prems have np: "\<not> prefix p (c # s)" and rest: "find_sub s p = None"
      by (auto simp: find_sub.simps[of "c # s"] split: if_splits)
    from eq np obtain a' where "a = c # a'" "s = a' @ p @ b"
      by (cases a) (auto simp: prefix_def)
    with Cons.IH[OF rest] show False by blast
  qed
qed

lemma contains_iff: "contains s p \<longleftrightarrow> (\<exists>a b. s = a @ p @ b)"
proof
  assume "contains s p"
  then obtain i where "find_sub s p = Some i" by (auto simp: contains_def)
  then show "\<exists>a b. s = a @ p @ b" using find_sub_Some by blast
next
  assume "\<exists>a b. s = a @ p @ b"
  then show "contains s p" using find_sub_None by (fastforce simp: contains_def)
qed

end
