(* ===== verification/Text.thy ===== *)
theory Text
  imports Prelude
begin

text \<open>
  The text functions of Rust's standard library that the program relies on, over UTF-8 bytes:
  ASCII classes, \<open>str::trim\<close>, \<open>to_ascii_lowercase\<close>, the decimal and hexadecimal
  \<open>Display\<close> of integers and \<open>str::parse\<close> of unsigned integers. A printer together with
  the parser that inverts it is an instance of the interface \<open>text_codec\<close>.
\<close>

section \<open>ASCII classes\<close>

definition byte :: "char \<Rightarrow> nat" where "byte c = of_char c"

definition is_ascii_digit :: "char \<Rightarrow> bool" where
  "is_ascii_digit c = (48 \<le> byte c \<and> byte c \<le> 57)"

definition is_ascii_lowercase :: "char \<Rightarrow> bool" where
  "is_ascii_lowercase c = (97 \<le> byte c \<and> byte c \<le> 122)"

definition is_ascii_uppercase :: "char \<Rightarrow> bool" where
  "is_ascii_uppercase c = (65 \<le> byte c \<and> byte c \<le> 90)"

definition is_ascii_alphanumeric :: "char \<Rightarrow> bool" where
  "is_ascii_alphanumeric c = (is_ascii_digit c \<or> is_ascii_lowercase c \<or> is_ascii_uppercase c)"

definition is_ascii_control :: "char \<Rightarrow> bool" where
  "is_ascii_control c = (byte c < 32 \<or> byte c = 127)"

definition to_ascii_lowercase :: "rstr \<Rightarrow> rstr" where
  "to_ascii_lowercase s = map (\<lambda>c. if is_ascii_uppercase c then char_of (byte c + 32) else c) s"

lemma byte_less [simp]: "byte c < 256"
  by (simp add: byte_def)

lemma byte_char_of [simp]: "n < 256 \<Longrightarrow> byte (char_of n) = n"
  by (simp add: byte_def)

lemma byte_inject [simp]: "byte c = byte d \<longleftrightarrow> c = d"
  by (simp add: byte_def)

lemma lowercase_not_LF: "c \<noteq> LF \<Longrightarrow> (if is_ascii_uppercase c then char_of (byte c + 32) else c) \<noteq> LF"
proof (cases "is_ascii_uppercase c")
  case True
  then have "byte (char_of (byte c + 32)) \<noteq> byte LF"
    by (simp add: is_ascii_uppercase_def byte_def)
  with True show ?thesis by auto
qed simp

lemma LF_not_lower: "LF \<notin> set s \<Longrightarrow> LF \<notin> set (to_ascii_lowercase s)"
proof (induction s)
  case (Cons c s)
  then show ?case using lowercase_not_LF[of c]
    by (simp add: to_ascii_lowercase_def del: char_of_eq_iff) metis
qed (simp add: to_ascii_lowercase_def)

section \<open>Trimming\<close>

text \<open>
  \<open>str::trim\<close> removes the characters with the Unicode property \<open>White_Space\<close>. Each is
  listed by its UTF-8 encoding; the encoding is self-synchronising, so a prefix (suffix) of the
  bytes that is one of them is a leading (trailing) white space character.
\<close>

definition utf8_white_space :: "rstr list" where
  "utf8_white_space =
     map (map char_of)
       ([[9], [10], [11], [12], [13], [32], [0xC2, 0x85], [0xC2, 0xA0], [0xE1, 0x9A, 0x80]]
        @ map (\<lambda>n. [0xE2, 0x80, n]) [0x80 ..< 0x8B]
        @ [[0xE2, 0x80, 0xA8], [0xE2, 0x80, 0xA9], [0xE2, 0x80, 0xAF], [0xE2, 0x81, 0x9F],
           [0xE3, 0x80, 0x80 :: nat]])"

function trim_prefixes :: "rstr list \<Rightarrow> rstr \<Rightarrow> rstr" where
  "trim_prefixes ps s =
     (case find (\<lambda>p. p \<noteq> [] \<and> prefix p s) ps of
        None \<Rightarrow> s
      | Some p \<Rightarrow> trim_prefixes ps (drop (length p) s))"
  by pat_completeness auto
termination
  by (relation "measure (\<lambda>(ps, s). length s)") (auto simp: find_Some_iff prefix_def)

declare trim_prefixes.simps [simp del]

definition trim_start :: "rstr \<Rightarrow> rstr" where
  "trim_start s = trim_prefixes utf8_white_space s"

definition trim_end :: "rstr \<Rightarrow> rstr" where
  "trim_end s = rev (trim_prefixes (map rev utf8_white_space) (rev s))"

definition trim :: "rstr \<Rightarrow> rstr" where
  "trim s = trim_end (trim_start s)"

lemma suffix_trim_prefixes: "suffix (trim_prefixes ps s) s"
proof (induction ps s rule: trim_prefixes.induct)
  case (1 ps s)
  show ?case
  proof (cases "find (\<lambda>p. p \<noteq> [] \<and> prefix p s) ps")
    case None
    then show ?thesis by (simp add: trim_prefixes.simps[of ps s])
  next
    case (Some p)
    with "1.IH" have "suffix (trim_prefixes ps (drop (length p) s)) (drop (length p) s)" by blast
    then have "suffix (trim_prefixes ps (drop (length p) s)) s"
      using suffix_drop suffix_order.trans by blast
    with Some show ?thesis by (simp add: trim_prefixes.simps[of ps s])
  qed
qed

lemma set_trim_subset: "set (trim s) \<subseteq> set s"
proof -
  have "set (trim_start s) \<subseteq> set s"
    unfolding trim_start_def by (rule set_mono_suffix[OF suffix_trim_prefixes])
  moreover have "set (trim_end t) \<subseteq> set t" for t
    using set_mono_suffix[OF suffix_trim_prefixes[of "map rev utf8_white_space" "rev t"]]
    by (simp add: trim_end_def)
  ultimately show ?thesis unfolding trim_def by blast
qed

text \<open>Graphic ASCII bytes neither begin nor end a white space character.\<close>

definition graphic :: "char \<Rightarrow> bool" where
  "graphic c = (33 \<le> byte c \<and> byte c \<le> 126)"

lemma graphic_not_white:
  assumes "p \<in> set utf8_white_space"
  shows "p \<noteq> []" "\<not> graphic (hd p)" "\<not> graphic (last p)"
  using assms by (auto simp: utf8_white_space_def graphic_def byte_def upt_rec)

lemma trim_prefixes_id:
  assumes "\<And>p. p \<in> set ps \<Longrightarrow> \<not> graphic (hd p)" "s = [] \<or> graphic (hd s)"
  shows "trim_prefixes ps s = s"
proof -
  have "find (\<lambda>p. p \<noteq> [] \<and> prefix p s) ps = None"
    using assms by (auto simp: find_None_iff prefix_def)
  then show ?thesis by (simp add: trim_prefixes.simps[of ps s])
qed

lemma trim_id:
  assumes "s = [] \<or> graphic (hd s)" "s = [] \<or> graphic (last s)"
  shows "trim s = s"
proof -
  have start: "trim_start s = s"
    unfolding trim_start_def using assms(1) by (intro trim_prefixes_id graphic_not_white)
  have "trim_prefixes (map rev utf8_white_space) (rev s) = rev s"
  proof (rule trim_prefixes_id)
    show "\<not> graphic (hd p)" if "p \<in> set (map rev utf8_white_space)" for p
      using that graphic_not_white by (auto simp: hd_rev)
    show "rev s = [] \<or> graphic (hd (rev s))" using assms(2) by (auto simp: hd_rev)
  qed
  with start show ?thesis by (simp add: trim_def trim_end_def)
qed

text \<open>Characters are counted by their leading bytes.\<close>

definition char_count :: "rstr \<Rightarrow> nat" where
  "char_count s = length (filter (\<lambda>c. \<not> (128 \<le> byte c \<and> byte c < 192)) s)"

lemma char_count_ascii: "\<forall>c\<in>set s. byte c < 128 \<Longrightarrow> char_count s = length s"
  by (induction s) (auto simp: char_count_def)

section \<open>Printing and reading integers\<close>

definition digit_char :: "nat \<Rightarrow> char" where
  "digit_char d = (if d < 10 then char_of (48 + d) else char_of (87 + d))"

text \<open>\<open>char::to_digit\<close>.\<close>

definition to_digit :: "nat \<Rightarrow> char \<Rightarrow> nat option" where
  "to_digit radix c =
     (let n = byte c;
          d = (if 48 \<le> n \<and> n \<le> 57 then n - 48
               else if 97 \<le> n \<and> n \<le> 122 then n - 87
               else if 65 \<le> n \<and> n \<le> 90 then n - 55
               else radix)
      in if d < radix then Some d else None)"

definition is_radix_digit :: "nat \<Rightarrow> char \<Rightarrow> bool" where
  "is_radix_digit radix c = (to_digit radix c \<noteq> None)"

fun to_digits :: "nat \<Rightarrow> nat \<Rightarrow> nat list" where
  "to_digits b n = (if b < 2 \<or> n < b then [n] else to_digits b (n div b) @ [n mod b])"

declare to_digits.simps [simp del]

definition of_digits :: "nat \<Rightarrow> nat list \<Rightarrow> nat" where
  "of_digits b ds = foldl (\<lambda>a d. a * b + d) 0 ds"

definition show_base :: "nat \<Rightarrow> nat \<Rightarrow> rstr" where
  "show_base b n = map digit_char (to_digits b n)"

abbreviation show_nat :: "nat \<Rightarrow> rstr" where "show_nat \<equiv> show_base 10"
abbreviation show_hex :: "nat \<Rightarrow> rstr" where "show_hex \<equiv> show_base 16"

definition show_int :: "int \<Rightarrow> rstr" where
  "show_int i = (if i < 0 then ''-'' @ show_nat (nat (- i)) else show_nat (nat i))"

lemma of_digits_snoc [simp]: "of_digits b (ds @ [d]) = of_digits b ds * b + d"
  by (simp add: of_digits_def)

lemma of_digits_to_digits [simp]: "of_digits b (to_digits b n) = n"
proof (induction b n rule: to_digits.induct)
  case (1 b n)
  show ?case
  proof (cases "b < 2 \<or> n < b")
    case True
    then show ?thesis by (simp add: to_digits.simps[of b n] of_digits_def)
  next
    case False
    with "1.IH" show ?thesis by (simp add: to_digits.simps[of b n])
  qed
qed

lemma to_digits_nonempty [simp]: "to_digits b n \<noteq> []"
  by (simp add: to_digits.simps[of b n])

lemma to_digits_less: "2 \<le> b \<Longrightarrow> d \<in> set (to_digits b n) \<Longrightarrow> d < b"
proof (induction b n rule: to_digits.induct)
  case (1 b n)
  then show ?case by (cases "n < b") (auto simp: to_digits.simps[of b n])
qed

lemma length_to_digits: "2 \<le> b \<Longrightarrow> 0 < k \<Longrightarrow> n < b ^ k \<Longrightarrow> length (to_digits b n) \<le> k"
proof (induction b n arbitrary: k rule: to_digits.induct)
  case (1 b n)
  show ?case
  proof (cases "n < b")
    case True
    with "1.prems" show ?thesis by (simp add: to_digits.simps[of b n])
  next
    case False
    with "1.prems" obtain j where k: "k = Suc j" "0 < j"
      by (metis gr0_conv_Suc not_gr_zero power_0 power_Suc mult.right_neutral)
    from "1.prems" k have "n div b < b ^ j" by (simp add: less_mult_imp_div_less mult.commute)
    with False "1.prems" k "1.IH"[of j] show ?thesis by (simp add: to_digits.simps[of b n])
  qed
qed

lemma hd_to_digits: "2 \<le> b \<Longrightarrow> hd (to_digits b n) = 0 \<Longrightarrow> n = 0"
proof (induction b n rule: to_digits.induct)
  case (1 b n)
  show ?case
  proof (cases "n < b")
    case True
    with "1.prems" show ?thesis by (simp add: to_digits.simps[of b n])
  next
    case False
    with "1.prems" have "hd (to_digits b (n div b)) = 0"
      by (simp add: to_digits.simps[of b n])
    with False "1" have "n div b = 0" by auto
    with False "1.prems" show ?thesis by (simp add: div_eq_0_iff)
  qed
qed

text \<open>The digits, for evaluating printed numbers.\<close>

lemma digit_char_table [simp]:
  "digit_char 0 = CHR ''0''"
  "digit_char (Suc 0) = CHR ''1''"
  "digit_char 2 = CHR ''2''"
  "digit_char 3 = CHR ''3''"
  "digit_char 4 = CHR ''4''"
  "digit_char 5 = CHR ''5''"
  "digit_char 6 = CHR ''6''"
  "digit_char 7 = CHR ''7''"
  "digit_char 8 = CHR ''8''"
  "digit_char 9 = CHR ''9''"
  "digit_char 10 = CHR ''a''"
  "digit_char 11 = CHR ''b''"
  "digit_char 12 = CHR ''c''"
  "digit_char 13 = CHR ''d''"
  "digit_char 14 = CHR ''e''"
  "digit_char 15 = CHR ''f''"
  by (simp_all add: digit_char_def char_of_eq_iff)

lemma byte_digit_char:
  "d < 36 \<Longrightarrow> byte (digit_char d) = (if d < 10 then 48 + d else 87 + d)"
  by (simp add: digit_char_def)

lemma to_digit_digit_char [simp]: "d < b \<Longrightarrow> b \<le> 36 \<Longrightarrow> to_digit b (digit_char d) = Some d"
  by (auto simp: to_digit_def byte_digit_char Let_def)

lemma show_base_nonempty [simp]: "show_base b n \<noteq> []"
  by (simp add: show_base_def)

lemma set_show_base:
  assumes "2 \<le> b" "b \<le> 36" "c \<in> set (show_base b n)"
  shows "\<exists>d < b. c = digit_char d"
  using assms to_digits_less[of b] by (auto simp: show_base_def)

lemma set_show_nat: "c \<in> set (show_nat n) \<Longrightarrow> is_ascii_digit c"
  using set_show_base[of 10 c n] by (auto simp: is_ascii_digit_def byte_digit_char)

lemma length_show_base: "2 \<le> b \<Longrightarrow> 0 < k \<Longrightarrow> n < b ^ k \<Longrightarrow> length (show_base b n) \<le> k"
  by (simp add: show_base_def length_to_digits)

lemma byte_show_base:
  assumes "2 \<le> b" "b \<le> 36" "c \<in> set (show_base b n)"
  shows "(48 \<le> byte c \<and> byte c \<le> 57) \<or> (97 \<le> byte c \<and> byte c \<le> 122)"
proof -
  from set_show_base[OF assms] obtain d where "d < b" "c = digit_char d" by blast
  with assms(2) show ?thesis by (simp add: byte_digit_char)
qed

lemma not_in_show_base [text_simps]:
  assumes "\<not> (48 \<le> byte c \<and> byte c \<le> 57)" "\<not> (97 \<le> byte c \<and> byte c \<le> 122)"
  shows "c \<notin> set (show_nat n)" "c \<notin> set (show_hex n)"
  using assms byte_show_base[of 10 c n] byte_show_base[of 16 c n] by auto

text \<open>
  Reading digits: \<open>value_of_digits\<close> of a string all of whose bytes are digits, and
  \<open>str::parse\<close> for an unsigned type with the given largest value. Rust accepts one leading
  \<open>+\<close>, refuses an empty number, and refuses overflow.
\<close>

definition read_digits :: "nat \<Rightarrow> rstr \<Rightarrow> nat option" where
  "read_digits b s =
     (if s \<noteq> [] \<and> list_all (is_radix_digit b) s
      then Some (of_digits b (map (the \<circ> to_digit b) s)) else None)"

definition parse_unsigned :: "nat \<Rightarrow> rstr \<Rightarrow> nat option" where
  "parse_unsigned max_value s =
     (case read_digits 10 (case s of c # t \<Rightarrow> if c = CHR ''+'' then t else s | [] \<Rightarrow> []) of
        None \<Rightarrow> None
      | Some n \<Rightarrow> if n \<le> max_value then Some n else None)"

lemma read_digits_show_base: "2 \<le> b \<Longrightarrow> b \<le> 36 \<Longrightarrow> read_digits b (show_base b n) = Some n"
proof -
  assume b: "2 \<le> b" "b \<le> 36"
  then have ds: "\<And>d. d \<in> set (to_digits b n) \<Longrightarrow> to_digit b (digit_char d) = Some d"
    using to_digits_less by simp
  then have "map (the \<circ> to_digit b) (show_base b n) = to_digits b n"
    by (simp add: show_base_def map_idI)
  moreover have "list_all (is_radix_digit b) (show_base b n)"
    using ds by (auto simp: show_base_def list_all_iff is_radix_digit_def)
  ultimately show ?thesis by (simp add: read_digits_def)
qed

lemma parse_unsigned_show: "n \<le> m \<Longrightarrow> parse_unsigned m (show_nat n) = Some n"
proof -
  assume n: "n \<le> m"
  have "CHR ''+'' \<notin> set (show_nat n)" by (simp add: text_simps byte_def)
  then have "(case show_nat n of c # t \<Rightarrow> if c = CHR ''+'' then t else show_nat n | [] \<Rightarrow> [])
      = show_nat n"
    by (cases "show_nat n") auto
  with n show ?thesis by (simp add: parse_unsigned_def read_digits_show_base)
qed

section \<open>The interface of a printed value\<close>

text \<open>
  \<open>shw\<close> is a \<open>Display\<close> instance, \<open>prs\<close> the \<open>FromStr\<close> that reads it back. Its clients
  (the signing messages, the database rows) only use these facts.
\<close>

locale text_codec =
  fixes shw :: "'a \<Rightarrow> rstr" and prs :: "rstr \<Rightarrow> 'a option"
  assumes prs_shw: "prs (shw x) = Some x"
begin

lemma shw_inject [simp]: "shw x = shw y \<longleftrightarrow> x = y"
  by (metis prs_shw option.inject)

lemma shw_prefixed_inject: "p @ shw x = p @ shw y \<longleftrightarrow> x = y"
  by simp

end

definition show_u32 :: "u32 \<Rightarrow> rstr" where "show_u32 x = show_nat (unat x)"
definition show_u16 :: "u16 \<Rightarrow> rstr" where "show_u16 x = show_nat (unat x)"

definition parse_u32 :: "rstr \<Rightarrow> u32 option" where
  "parse_u32 s = map_option of_nat (parse_unsigned (2 ^ 32 - 1) s)"

definition parse_u16 :: "rstr \<Rightarrow> u16 option" where
  "parse_u16 s = map_option of_nat (parse_unsigned (2 ^ 16 - 1) s)"

text \<open>\<open>str::parse::<i64>\<close>, with the leading minus.\<close>

definition parse_i64 :: "rstr \<Rightarrow> int option" where
  "parse_i64 s =
     (case s of
        c # t \<Rightarrow>
          if c = CHR ''-'' then
            (case read_digits 10 t of
               None \<Rightarrow> None | Some n \<Rightarrow> if n \<le> 2 ^ 63 then Some (- int n) else None)
          else map_option int (parse_unsigned (2 ^ 63 - 1) s)
      | [] \<Rightarrow> None)"

definition fits_i64 :: "int \<Rightarrow> bool" where
  "fits_i64 i = (- (2 ^ 63) \<le> i \<and> i < 2 ^ 63)"

lemma unat_le_mask: "unat (x :: 'a::len word) \<le> 2 ^ LENGTH('a) - 1"
proof -
  have "unat x < 2 ^ LENGTH('a)" by (rule unsigned_less)
  then show ?thesis by linarith
qed

interpretation u32_text: text_codec show_u32 parse_u32
proof unfold_locales
  fix x :: u32
  have "unat x \<le> 2 ^ 32 - 1" using unat_le_mask[of x] by simp
  then show "parse_u32 (show_u32 x) = Some x"
    by (simp add: parse_u32_def show_u32_def parse_unsigned_show)
qed

interpretation u16_text: text_codec show_u16 parse_u16
proof unfold_locales
  fix x :: u16
  have "unat x \<le> 2 ^ 16 - 1" using unat_le_mask[of x] by simp
  then show "parse_u16 (show_u16 x) = Some x"
    by (simp add: parse_u16_def show_u16_def parse_unsigned_show)
qed

lemma show_int_inject [simp]: "show_int i = show_int j \<longleftrightarrow> i = j"
proof -
  have minus: "CHR ''-'' \<notin> set (show_nat n)" for n
    by (simp add: text_simps byte_def)
  have nat_inj: "show_nat m = show_nat n \<longleftrightarrow> m = n" for m n
  proof -
    have "read_digits 10 (show_nat k) = Some k" for k by (simp add: read_digits_show_base)
    then show ?thesis by (metis option.inject)
  qed
  have ne: "''-'' @ show_nat m \<noteq> show_nat n" for m n
    using minus[of n] by (metis append_Cons list.set_intros(1))
  show ?thesis
    using ne ne[symmetric] by (auto simp: show_int_def nat_inj)
qed

lemma LF_not_show [text_simps]:
  "LF \<notin> set (show_u32 x)" "LF \<notin> set (show_u16 y)" "LF \<notin> set (show_int i)"
  by (auto simp: show_u32_def show_u16_def show_int_def text_simps byte_def)

end
