(* ===== verification/Errors.thy ===== *)
theory Errors
  imports Text
begin

text \<open>
  \<open>src/error.rs\<close> and the error half of \<open>src/observability.rs\<close>: the error type of the
  peer domain, its log classification (\<open>LogError\<close>) and its HTTP response (\<open>IntoResponse\<close>).
  The source errors of other crates carry what the program reads of them: the kind and OS code of
  an I/O error, the variant and SQLSTATE of an \<open>sqlx\<close> error, their \<open>Display\<close> texts.
\<close>

section \<open>Source errors\<close>

datatype io_kind = NotFoundKind | OtherKind

datatype io_error = IoError (io_error_kind: io_kind) (raw_os_error: "int option") (io_text: rstr)

datatype sqlx_error =
    PoolTimedOut
  | PoolClosed
  | SqlxIo io_error
  | SqlxTls rstr
  | SqlxDatabase "rstr option" rstr
  | SqlxOther rstr

section \<open>The error type\<close>

datatype peer_error =
    InvalidWgPubKeyLength nat
  | InvalidWgPubKeyBase64 rstr
  | InvalidIp rstr
  | InvalidAsn u32
  | NetlinkError io_error rstr
  | BirdConfigIo io_error rstr
  | BirdReload rstr
  | Nftables rstr
  | UnauthorizedChallenge rstr
  | Validation rstr
  | Database sqlx_error
  | SignatureVerificationFailed rstr
  | RegistryMismatch
  | RegistryUnavailable rstr
  | NotFound u32 rstr
  | AlreadyExists u32 rstr

section \<open>Log classification\<close>

record error_info =
  info_code :: rstr
  info_kind :: rstr
  info_io_code :: "int option"
  info_sqlstate :: "rstr option"
  info_http_status :: "nat option"

definition error_info_new :: "rstr \<Rightarrow> rstr \<Rightarrow> error_info" where
  "error_info_new code kind =
     \<lparr>info_code = code, info_kind = kind, info_io_code = None, info_sqlstate = None,
      info_http_status = None\<rparr>"

fun sqlx_kind :: "sqlx_error \<Rightarrow> rstr" where
  "sqlx_kind PoolTimedOut = ''pool_timeout''"
| "sqlx_kind PoolClosed = ''pool_closed''"
| "sqlx_kind (SqlxIo _) = ''io''"
| "sqlx_kind (SqlxTls _) = ''tls''"
| "sqlx_kind (SqlxDatabase _ _) = ''server''"
| "sqlx_kind (SqlxOther _) = ''other''"

definition sqlx_log_info :: "sqlx_error \<Rightarrow> error_info" where
  "sqlx_log_info e =
     (let info = error_info_new ''database'' (sqlx_kind e);
          info = (case e of SqlxIo source \<Rightarrow> info\<lparr>info_io_code := raw_os_error source\<rparr> | _ \<Rightarrow> info)
      in case e of
           SqlxDatabase code _ \<Rightarrow>
             info\<lparr>info_sqlstate :=
               (case code of
                  None \<Rightarrow> None
                | Some c \<Rightarrow> if length c = 5 \<and> list_all is_ascii_alphanumeric c then Some c else None)\<rparr>
         | _ \<Rightarrow> info)"

fun error_code :: "peer_error \<Rightarrow> rstr" where
  "error_code (Database _) = ''database''"
| "error_code (NetlinkError _ _) = ''netlink''"
| "error_code (BirdConfigIo _ _) = ''bird_io''"
| "error_code (BirdReload _) = ''bird_reload''"
| "error_code (Nftables _) = ''nftables''"
| "error_code (RegistryUnavailable _) = ''registry_unavailable''"
| "error_code RegistryMismatch = ''registry_mismatch''"
| "error_code (UnauthorizedChallenge _) = ''unauthorized_challenge''"
| "error_code (SignatureVerificationFailed _) = ''signature_verification_failed''"
| "error_code (Validation _) = ''validation_failed''"
| "error_code (NotFound _ _) = ''not_found''"
| "error_code (AlreadyExists _ _) = ''already_exists''"
| "error_code (InvalidIp _) = ''invalid_ip''"
| "error_code (InvalidAsn _) = ''invalid_asn''"
| "error_code (InvalidWgPubKeyLength _) = ''invalid_wg_pubkey_length''"
| "error_code (InvalidWgPubKeyBase64 _) = ''invalid_wg_pubkey_base64''"

fun error_kind :: "peer_error \<Rightarrow> rstr" where
  "error_kind (RegistryUnavailable detail) =
     (if detail = ''The registry check timed out'' then ''timeout''
      else if detail = ''Too many registry checks are active'' then ''concurrency_limit''
      else ''registry_unavailable'')"
| "error_kind (BirdReload stderr) =
     (if stderr = ''BIRD did not respond within 10 seconds'' then ''timeout'' else ''bird_reload'')"
| "error_kind (Nftables detail) =
     (if detail = ''nft did not finish within 10 seconds'' then ''timeout'' else ''nftables'')"
| "error_kind (Validation detail) =
     (if starts_with detail ''DNS lookup timed out for endpoint '' then ''timeout''
      else ''validation_failed'')"
| "error_kind e = error_code e"

definition log_info :: "peer_error \<Rightarrow> error_info" where
  "log_info e =
     (case e of
        Database source \<Rightarrow> sqlx_log_info source
      | NetlinkError source _ \<Rightarrow>
          (error_info_new (error_code e) (error_kind e))\<lparr>info_io_code := raw_os_error source\<rparr>
      | BirdConfigIo source _ \<Rightarrow>
          (error_info_new (error_code e) (error_kind e))\<lparr>info_io_code := raw_os_error source\<rparr>
      | _ \<Rightarrow> error_info_new (error_code e) (error_kind e))"

datatype log_level = DEBUG | INFO | WARN | ERROR

definition emit_failure_level :: "nat option \<Rightarrow> log_level" where
  "emit_failure_level status =
     (case status of Some s \<Rightarrow> if s < 500 then WARN else ERROR | None \<Rightarrow> ERROR)"

section \<open>The HTTP response\<close>

record error_response =
  resp_error :: rstr
  resp_detail :: "rstr option"

fun into_response :: "peer_error \<Rightarrow> nat \<times> error_response" where
  "into_response (UnauthorizedChallenge detail) =
     (403, \<lparr>resp_error = ''unauthorized_challenge'', resp_detail = Some detail\<rparr>)"
| "into_response (InvalidIp ip) =
     (400, \<lparr>resp_error = ''invalid_ip'',
            resp_detail = Some (''ip '' @ [CHR 0x27] @ ip @ [CHR 0x27] @ '' is not parseable'')\<rparr>)"
| "into_response (InvalidAsn asn) =
     (400, \<lparr>resp_error = ''invalid_asn'',
            resp_detail = Some (''asn '' @ show_u32 asn @ '' not in dn42 range'')\<rparr>)"
| "into_response (InvalidWgPubKeyLength len) =
     (400, \<lparr>resp_error = ''invalid_wg_pubkey_length'',
            resp_detail = Some (''WireGuard public key length must be 44, got '' @ show_nat len)\<rparr>)"
| "into_response (InvalidWgPubKeyBase64 source) =
     (400, \<lparr>resp_error = ''invalid_wg_pubkey_base64'',
            resp_detail = Some (''WireGuard public key must be valid base64: '' @ source)\<rparr>)"
| "into_response (Validation detail) =
     (400, \<lparr>resp_error = ''validation_failed'', resp_detail = Some detail\<rparr>)"
| "into_response (SignatureVerificationFailed detail) =
     (400, \<lparr>resp_error = ''signature_verification_failed'', resp_detail = Some detail\<rparr>)"
| "into_response RegistryMismatch =
     (403, \<lparr>resp_error = ''registry_mismatch'',
            resp_detail =
              Some ''Provided SSH key is not identical with DN42 registry records''\<rparr>)"
| "into_response (RegistryUnavailable detail) =
     (503, \<lparr>resp_error = ''registry_unavailable'', resp_detail = Some detail\<rparr>)"
| "into_response (NotFound asn peer_name) =
     (404, \<lparr>resp_error = ''not_found'',
            resp_detail = Some (''Peer '' @ [CHR 0x27] @ peer_name @ [CHR 0x27] @ '' with ASN ''
              @ show_u32 asn @ '' not found'')\<rparr>)"
| "into_response (AlreadyExists asn peer_name) =
     (409, \<lparr>resp_error = ''already_exists'',
            resp_detail = Some (''Peer '' @ [CHR 0x27] @ peer_name @ [CHR 0x27] @ '' with ASN ''
              @ show_u32 asn @ '' already exists'')\<rparr>)"
| "into_response (NetlinkError _ _) = (500, \<lparr>resp_error = ''internal_error'', resp_detail = None\<rparr>)"
| "into_response (BirdConfigIo _ _) = (500, \<lparr>resp_error = ''internal_error'', resp_detail = None\<rparr>)"
| "into_response (BirdReload _) = (500, \<lparr>resp_error = ''internal_error'', resp_detail = None\<rparr>)"
| "into_response (Nftables _) = (500, \<lparr>resp_error = ''internal_error'', resp_detail = None\<rparr>)"
| "into_response (Database _) = (500, \<lparr>resp_error = ''internal_error'', resp_detail = None\<rparr>)"

definition api_failure_level :: "peer_error \<Rightarrow> log_level" where
  "api_failure_level e = emit_failure_level (Some (fst (into_response e)))"

text \<open>
  The extractor \<open>AppJson\<close>, which no handler uses: what axum's extractor \<open>Json\<close> made of the request (a value, or
  a rejection with its status and text) becomes the value or the service's own error body.
\<close>

record json_rejection =
  rejection_status :: nat
  rejection_body_text :: rstr

definition from_request :: "json_rejection + 'a \<Rightarrow> (nat \<times> error_response) + 'a" where
  "from_request extracted =
     (case extracted of
        Inr value \<Rightarrow> Inr value
      | Inl rejection \<Rightarrow>
          Inl (rejection_status rejection,
               \<lparr>resp_error = ''json_parse_error'', resp_detail = Some (rejection_body_text rejection)\<rparr>))"

text \<open>
  The text of a reload failure that is reported together with a failed restore
  (\<open>Display\<close> of the two errors that can meet there).
\<close>

fun display_error :: "peer_error \<Rightarrow> rstr" where
  "display_error (BirdReload stderr) =
     ''bird syntax check or reload failed. stderr: '' @ stderr"
| "display_error (BirdConfigIo source path) =
     ''failed to write bird config to '' @ path @ '': '' @ io_text source"
| "display_error e = error_code e"

section \<open>Properties\<close>

definition server_side :: "peer_error \<Rightarrow> bool" where
  "server_side e =
     (case e of NetlinkError _ _ \<Rightarrow> True | BirdConfigIo _ _ \<Rightarrow> True | BirdReload _ \<Rightarrow> True
      | Nftables _ \<Rightarrow> True | Database _ \<Rightarrow> True | _ \<Rightarrow> False)"

lemma server_side_response:
  "server_side e \<Longrightarrow> into_response e = (500, \<lparr>resp_error = ''internal_error'', resp_detail = None\<rparr>)"
  by (cases e) (simp_all add: server_side_def)

lemma client_response:
  "\<not> server_side e \<Longrightarrow> resp_error (snd (into_response e)) = error_code e
     \<and> resp_detail (snd (into_response e)) \<noteq> None \<and> fst (into_response e) \<noteq> 500"
  by (cases e) (simp_all add: server_side_def)

lemma log_info_code: "info_code (log_info e) = error_code e"
  by (cases e) (auto simp: log_info_def sqlx_log_info_def error_info_new_def Let_def
      split: sqlx_error.splits)

end
