(* ===== verification/Ipv6.thy ===== *)
theory Ipv6
  imports Text
begin

text \<open>
  \<open>std::net::Ipv6Addr\<close> as the program uses it: eight 16-bit segments, \<open>Display\<close> (RFC 5952
  with the first longest run of zero segments compressed, and the dotted form of IPv4-mapped
  addresses), \<open>FromStr\<close> (with the embedded IPv4 form), and \<open>is_unicast_link_local\<close>. The main
  result is the round trip that the database rows and the signing messages rely on.
\<close>

section \<open>Addresses\<close>

datatype ipv6_addr = Ipv6Addr u16 u16 u16 u16 u16 u16 u16 u16

fun segments :: "ipv6_addr \<Rightarrow> u16 list" where
  "segments (Ipv6Addr a b c d e f g h) = [a, b, c, d, e, f, g, h]"

fun of_segments :: "u16 list \<Rightarrow> ipv6_addr option" where
  "of_segments [a, b, c, d, e, f, g, h] = Some (Ipv6Addr a b c d e f g h)"
| "of_segments _ = None"

definition is_unicast_link_local :: "ipv6_addr \<Rightarrow> bool" where
  "is_unicast_link_local a = (hd (segments a) AND 0xffc0 = 0xfe80)"

lemma length_segments [simp]: "length (segments a) = 8"
  by (cases a) simp

lemma of_segments_segments [simp]: "of_segments (segments a) = Some a"
  by (cases a) simp

lemma segments_inject [simp]: "segments a = segments b \<longleftrightarrow> a = b"
  by (metis of_segments_segments option.inject)

section \<open>Display\<close>

fun zero_span :: "nat \<Rightarrow> nat \<times> nat \<Rightarrow> nat \<times> nat \<Rightarrow> u16 list \<Rightarrow> nat \<times> nat" where
  "zero_span i longest current [] = longest"
| "zero_span i longest current (s # ss) =
     (if s = 0 then
        let current' = (if snd current = 0 then i else fst current, snd current + 1)
        in zero_span (i + 1) (if snd current' > snd longest then current' else longest) current' ss
      else zero_span (i + 1) longest (0, 0) ss)"

definition fmt_subslice :: "u16 list \<Rightarrow> rstr" where
  "fmt_subslice chunk = join '':'' (map (\<lambda>g. show_hex (unat g)) chunk)"

definition hi_octet :: "u16 \<Rightarrow> nat" where "hi_octet w = unat w div 256"
definition lo_octet :: "u16 \<Rightarrow> nat" where "lo_octet w = unat w mod 256"

definition show_ipv4_octets :: "u16 \<Rightarrow> u16 \<Rightarrow> rstr" where
  "show_ipv4_octets g h =
     join ''.'' (map show_nat [hi_octet g, lo_octet g, hi_octet h, lo_octet h])"

definition show_ipv6 :: "ipv6_addr \<Rightarrow> rstr" where
  "show_ipv6 a =
     (let segs = segments a in
      if take 6 segs = [0, 0, 0, 0, 0, 0xffff]
      then ''::ffff:'' @ show_ipv4_octets (segs ! 6) (segs ! 7)
      else
        (case zero_span 0 (0, 0) (0, 0) segs of (start, len) \<Rightarrow>
           if len > 1
           then fmt_subslice (take start segs) @ ''::'' @ fmt_subslice (drop (start + len) segs)
           else fmt_subslice segs))"

section \<open>FromStr\<close>

type_synonym 'a parser = "rstr \<Rightarrow> ('a \<times> rstr) option"

definition read_number :: "nat \<Rightarrow> nat \<Rightarrow> bool \<Rightarrow> nat \<Rightarrow> nat parser" where
  "read_number radix max_digits allow_zero_prefix max_value s =
     (let ds = takeWhile (is_radix_digit radix) s;
          v = of_digits radix (map (the \<circ> to_digit radix) ds)
      in if length ds > max_digits \<or> ds = [] then None
         else if \<not> allow_zero_prefix \<and> hd s = CHR ''0'' \<and> length ds > 1 then None
         else if v \<le> max_value then Some (v, drop (length ds) s) else None)"

definition read_separator :: "char \<Rightarrow> nat \<Rightarrow> 'a parser \<Rightarrow> 'a parser" where
  "read_separator sep index inner s =
     (if index > 0
      then (case s of c # t \<Rightarrow> if c = sep then inner t else None | [] \<Rightarrow> None)
      else inner s)"

fun read_octets :: "nat \<Rightarrow> nat \<Rightarrow> nat list parser" where
  "read_octets 0 i s = Some ([], s)"
| "read_octets (Suc k) i s =
     (case read_separator (CHR ''.'') i (read_number 10 3 False 255) s of
        None \<Rightarrow> None
      | Some (v, s') \<Rightarrow>
          (case read_octets k (Suc i) s' of None \<Rightarrow> None | Some (vs, s'') \<Rightarrow> Some (v # vs, s'')))"

text \<open>The two groups of an embedded IPv4 address.\<close>

definition read_ipv4_groups :: "u16 list parser" where
  "read_ipv4_groups s =
     (case read_octets 4 0 s of
        Some ([a, b, c, d], s') \<Rightarrow> Some ([of_nat (a * 256 + b), of_nat (c * 256 + d)], s')
      | _ \<Rightarrow> None)"

fun read_groups :: "nat \<Rightarrow> nat \<Rightarrow> rstr \<Rightarrow> u16 list \<times> bool \<times> rstr" where
  "read_groups 0 i s = ([], False, s)"
| "read_groups (Suc k) i s =
     (case (if 1 \<le> k then read_separator (CHR '':'') i read_ipv4_groups s else None) of
        Some (gs, s') \<Rightarrow> (gs, True, s')
      | None \<Rightarrow>
          (case read_separator (CHR '':'') i (read_number 16 4 True 65535) s of
             None \<Rightarrow> ([], False, s)
           | Some (g, s') \<Rightarrow>
               (case read_groups k (Suc i) s' of
                  (gs, v4, s'') \<Rightarrow> (of_nat g # gs, v4, s''))))"

definition read_ipv6 :: "ipv6_addr parser" where
  "read_ipv6 s =
     (case read_groups 8 0 s of
        (head, head_ipv4, s1) \<Rightarrow>
          if length head = 8 then map_option (\<lambda>a. (a, s1)) (of_segments head)
          else if head_ipv4 then None
          else
            (case s1 of
               c1 # c2 # s2 \<Rightarrow>
                 if c1 = CHR '':'' \<and> c2 = CHR '':'' then
                   (case read_groups (8 - (length head + 1)) 0 s2 of
                      (tail, _, s3) \<Rightarrow>
                        map_option (\<lambda>a. (a, s3))
                          (of_segments (head @ replicate (8 - length head - length tail) 0 @ tail)))
                 else None
             | _ \<Rightarrow> None))"

definition parse_ipv6 :: "rstr \<Rightarrow> ipv6_addr option" where
  "parse_ipv6 s = (case read_ipv6 s of Some (a, []) \<Rightarrow> Some a | _ \<Rightarrow> None)"

section \<open>The zero run\<close>

lemma zero_span_zeros:
  assumes "zero_span i longest current ss = (st, len)"
    and "i = length pre"
    and "\<forall>j < snd longest. (pre @ ss) ! (fst longest + j) = 0"
    and "fst longest + snd longest \<le> length pre"
    and "snd current > 0 \<Longrightarrow> fst current + snd current = length pre"
    and "\<forall>j < snd current. pre ! (fst current + j) = 0"
  shows "st + len \<le> length (pre @ ss) \<and> (\<forall>j < len. (pre @ ss) ! (st + j) = 0)"
  using assms
proof (induction i longest current ss arbitrary: pre rule: zero_span.induct)
  case (1 i longest current)
  then show ?case by auto
next
  case (2 i longest current s ss)
  show ?case
  proof (cases "s = 0")
    case False
    have "st + len \<le> length ((pre @ [s]) @ ss) \<and> (\<forall>j < len. ((pre @ [s]) @ ss) ! (st + j) = 0)"
      by (rule "2.IH"(2)) (use False "2.prems" in auto)
    then show ?thesis by simp
  next
    case True
    define current' where
      "current' = (if snd current = 0 then i else fst current, snd current + 1)"
    define longest' where
      "longest' = (if snd current' > snd longest then current' else longest)"
    have cur: "fst current' + snd current' = length (pre @ [s])"
      using "2.prems"(2,5) by (auto simp: current'_def)
    have zeros: "(pre @ [s]) ! (fst current' + j) = 0" if "j < snd current'" for j
    proof (cases "snd current = 0")
      case True
      with that \<open>s = 0\<close> "2.prems"(2) show ?thesis by (simp add: current'_def)
    next
      case nz: False
      show ?thesis
      proof (cases "j < snd current")
        case True
        moreover have "fst current + j < length pre" using True nz "2.prems"(5) by simp
        ultimately show ?thesis using nz "2.prems"(6) by (simp add: current'_def nth_append)
      next
        case False
        with that nz have "j = snd current" by (simp add: current'_def)
        with nz "2.prems"(5) \<open>s = 0\<close> show ?thesis by (simp add: current'_def nth_append)
      qed
    qed
    have "st + len \<le> length ((pre @ [s]) @ ss) \<and> (\<forall>j < len. ((pre @ [s]) @ ss) ! (st + j) = 0)"
    proof (rule "2.IH"(1)[OF True current'_def, folded longest'_def])
      show "zero_span (i + 1) longest' current' ss = (st, len)"
        using True "2.prems"(1)
        by (auto simp: longest'_def current'_def Let_def split: if_splits)
      show "\<forall>j < snd longest'. ((pre @ [s]) @ ss) ! (fst longest' + j) = 0"
      proof (cases "snd current' > snd longest")
        case True
        with cur have "((pre @ [s]) @ ss) ! (fst current' + j) = (pre @ [s]) ! (fst current' + j)"
          if "j < snd current'" for j
          using that by (intro nth_append_left) simp
        with True zeros show ?thesis by (simp add: longest'_def)
      next
        case False
        with "2.prems"(3) show ?thesis by (simp add: longest'_def)
      qed
      show "fst longest' + snd longest' \<le> length (pre @ [s])"
        using cur "2.prems"(4) by (auto simp: longest'_def)
      show "\<forall>j < snd current'. (pre @ [s]) ! (fst current' + j) = 0"
        using zeros by blast
    qed (use "2.prems"(2) cur in auto)
    then show ?thesis by simp
  qed
qed

lemma zero_span_split:
  assumes "zero_span 0 (0, 0) (0, 0) ss = (st, len)"
  shows "st + len \<le> length ss" "ss = take st ss @ replicate len 0 @ drop (st + len) ss"
proof -
  from zero_span_zeros[OF assms, of "[]"]
  have *: "st + len \<le> length ss" "\<forall>j < len. ss ! (st + j) = 0" by auto
  then show "st + len \<le> length ss" by simp
  have "take len (drop st ss) = replicate len 0"
    using * by (intro nth_equalityI) auto
  then show "ss = take st ss @ replicate len 0 @ drop (st + len) ss"
    by (metis append_take_drop_id drop_drop add.commute)
qed

section \<open>Reading back what is printed\<close>

lemma takeWhile_show:
  assumes "2 \<le> b" "b \<le> 36" "rest = [] \<or> to_digit b (hd rest) = None"
  shows "takeWhile (is_radix_digit b) (show_base b n @ rest) = show_base b n"
proof -
  have "\<forall>c\<in>set (show_base b n). is_radix_digit b c"
    using set_show_base[OF assms(1,2)] assms(2) by (fastforce simp: is_radix_digit_def)
  moreover have "takeWhile (is_radix_digit b) rest = []"
    using assms(3) by (cases rest) (auto simp: is_radix_digit_def)
  ultimately show ?thesis by (simp add: takeWhile_append)
qed

lemma read_number_show:
  assumes b: "2 \<le> b" "b \<le> 36" and rest: "rest = [] \<or> to_digit b (hd rest) = None"
    and size: "0 < k" "n < b ^ k" "n \<le> m"
  shows "read_number b k z m (show_base b n @ rest) = Some (n, rest)"
proof -
  let ?s = "show_base b n"
  have tw: "takeWhile (is_radix_digit b) (?s @ rest) = ?s"
    by (rule takeWhile_show[OF b rest])
  have len: "length ?s \<le> k" by (rule length_show_base[OF b(1) size(1,2)])
  have val: "of_digits b (map (the \<circ> to_digit b) ?s) = n"
    using read_digits_show_base[OF b, of n] by (simp add: read_digits_def split: if_splits)
  have lead: "\<not> (hd (?s @ rest) = CHR ''0'' \<and> length ?s > 1)"
  proof
    assume *: "hd (?s @ rest) = CHR ''0'' \<and> length ?s > 1"
    then have "digit_char (hd (to_digits b n)) = CHR ''0''"
      by (simp add: show_base_def hd_map)
    moreover have "hd (to_digits b n) < b" 
      using to_digits_less[OF b(1), of "hd (to_digits b n)" n] by simp
    ultimately have "hd (to_digits b n) = 0"
      using b(2) byte_digit_char[of "hd (to_digits b n)"] by (auto simp: byte_def split: if_splits)
    then have "n = 0" by (rule hd_to_digits[OF b(1)])
    with * b(1) show False by (simp add: show_base_def to_digits.simps[of b 0])
  qed
  show ?thesis
    using lead len size(3) by (auto simp: read_number_def Let_def tw val)
qed

text \<open>What the groups look like to the reader: each but the first follows a colon.\<close>

fun group_text :: "nat \<Rightarrow> u16 list \<Rightarrow> rstr" where
  "group_text i [] = []"
| "group_text i (g # gs) =
     (if i > 0 then '':'' else []) @ show_hex (unat g) @ group_text (Suc i) gs"

lemma fmt_subslice_group_text: "fmt_subslice gs = group_text 0 gs"
proof -
  have "group_text (Suc i) hs = (if hs = [] then [] else '':'' @ fmt_subslice hs)" for i hs
    by (induction hs arbitrary: i) (auto simp: fmt_subslice_def join_Cons)
  then show ?thesis by (cases gs) (auto simp: fmt_subslice_def join_Cons)
qed

lemma dot_not_show [text_simps]: "CHR ''.'' \<notin> set (show_hex n)" "CHR ''.'' \<notin> set (show_nat n)"
  by (simp_all add: text_simps byte_def)

lemma dot_not_group_text [text_simps]: "CHR ''.'' \<notin> set (group_text i gs)"
  by (induction gs arbitrary: i) (auto simp: text_simps)

lemma read_number_rest: "read_number b k z m s = Some (v, s') \<Longrightarrow> \<exists>p. s = p @ s'"
  by (auto simp: read_number_def Let_def split: if_splits)
    (metis append_take_drop_id)+

lemma read_octets_no_dot: "CHR ''.'' \<notin> set s \<Longrightarrow> read_octets (Suc (Suc k)) 0 s = None"
proof -
  assume nd: "CHR ''.'' \<notin> set s"
  have "read_octets (Suc k) (Suc 0) s' = None" if "read_number 10 3 False 255 s = Some (v, s')" for v s'
    using nd read_number_rest[OF that] by (auto simp: read_separator_def split: list.splits)
  then show ?thesis
    by (auto simp: read_separator_def simp del: read_octets.simps(2) split: option.splits
        intro!: read_octets.simps(2)[THEN trans])
qed

lemma read_ipv4_groups_no_dot: "CHR ''.'' \<notin> set s \<Longrightarrow> read_ipv4_groups s = None"
  using read_octets_no_dot[of s "Suc (Suc 0)"] by (simp add: read_ipv4_groups_def numeral_eq_Suc)

text \<open>
  The reader takes exactly the printed groups when they are followed by the end of the text or by
  the double colon.
\<close>

lemma read_group_stop:
  assumes "rest = [] \<or> (\<exists>r. rest = ''::'' @ r)"
  shows "read_separator (CHR '':'') i (read_number 16 4 True 65535) rest = None"
  using assms
  by (auto simp: read_separator_def read_number_def is_radix_digit_def to_digit_def byte_def Let_def)

lemma read_group_show:
  assumes "rest = [] \<or> hd rest = CHR '':''"
  shows "read_separator (CHR '':'') i (read_number 16 4 True 65535)
      ((if i > 0 then '':'' else []) @ show_hex (unat (g :: u16)) @ rest) = Some (unat g, rest)"
proof -
  have bound: "unat g < 16 ^ 4" "unat g \<le> 65535"
    using unat_le_mask[of g] by auto
  have "rest = [] \<or> to_digit 16 (hd rest) = None"
    using assms by (auto simp: to_digit_def byte_def)
  then have "read_number 16 4 True 65535 (show_hex (unat g) @ rest) = Some (unat g, rest)"
    using bound by (intro read_number_show) auto
  then show ?thesis by (simp add: read_separator_def)
qed

lemma read_separator_no_dot:
  "CHR ''.'' \<notin> set s \<Longrightarrow> read_separator (CHR '':'') i read_ipv4_groups s = None"
  by (auto simp: read_separator_def read_ipv4_groups_no_dot split: list.splits)

lemma hd_group_text:
  "rest = [] \<or> hd rest = CHR '':'' \<Longrightarrow>
   group_text (Suc i) gs @ rest = [] \<or> hd (group_text (Suc i) gs @ rest) = CHR '':''"
  by (cases gs) auto

lemma read_groups_text:
  assumes "length gs \<le> k" "CHR ''.'' \<notin> set rest"
    and "rest = [] \<or> (\<exists>r. rest = ''::'' @ r)"
  shows "read_groups k i (group_text i gs @ rest) = (gs, False, rest)"
  using assms
proof (induction gs arbitrary: i k)
  case Nil
  then show ?case
    using read_group_stop[of rest i] read_separator_no_dot[of rest i] by (cases k) auto
next
  case (Cons g gs)
  then obtain k' where k: "k = Suc k'" by (cases k) auto
  let ?text = "group_text i (g # gs) @ rest"
  have next_text: "group_text (Suc i) gs @ rest = [] \<or> hd (group_text (Suc i) gs @ rest) = CHR '':''"
    using Cons.prems(3) by (intro hd_group_text) auto
  have "CHR ''.'' \<notin> set ?text" using Cons.prems(2) by (auto simp: text_simps)
  then have v4: "read_separator (CHR '':'') i read_ipv4_groups ?text = None"
    by (rule read_separator_no_dot)
  have g: "read_separator (CHR '':'') i (read_number 16 4 True 65535) ?text
      = Some (unat g, group_text (Suc i) gs @ rest)"
    using read_group_show[OF next_text, of i g] by simp
  have "read_groups k' (Suc i) (group_text (Suc i) gs @ rest) = (gs, False, rest)"
    by (rule Cons.IH) (use Cons.prems k in auto)
  with g v4 k show ?case by (simp del: group_text.simps)
qed

lemma group_text_empty [simp]: "read_groups 0 i s = ([], False, s)"
  by simp

text \<open>The dotted tail of an IPv4-mapped address.\<close>

lemma octet_bounds: "hi_octet w \<le> 255" "lo_octet w \<le> 255"
  using unat_le_mask[of w] by (simp_all add: hi_octet_def lo_octet_def)

lemma octets_word: "of_nat (hi_octet w * 256 + lo_octet w) = w"
  by (simp add: hi_octet_def lo_octet_def)

lemma read_octet_show:
  assumes "n \<le> 255" "rest = [] \<or> hd rest = CHR ''.''"
  shows "read_separator (CHR ''.'') i (read_number 10 3 False 255)
      ((if i > 0 then ''.'' else []) @ show_nat n @ rest) = Some (n, rest)"
proof -
  have "rest = [] \<or> to_digit 10 (hd rest) = None"
    using assms by (auto simp: to_digit_def byte_def)
  then have "read_number 10 3 False 255 (show_nat n @ rest) = Some (n, rest)"
    using assms(1) by (intro read_number_show) auto
  then show ?thesis by (simp add: read_separator_def)
qed

lemma read_octets_show:
  assumes "a \<le> 255" "b \<le> 255" "c \<le> 255" "d \<le> 255"
  shows "read_octets 4 0 (join ''.'' (map show_nat [a, b, c, d])) = Some ([a, b, c, d], [])"
  using read_octet_show[OF assms(1), of "''.'' @ show_nat b @ ''.'' @ show_nat c @ ''.'' @ show_nat d" 0]
    read_octet_show[OF assms(2), of "''.'' @ show_nat c @ ''.'' @ show_nat d" 1]
    read_octet_show[OF assms(3), of "''.'' @ show_nat d" 2]
    read_octet_show[OF assms(4), of "[]" 3]
  by (simp add: numeral_eq_Suc)

lemma read_ipv4_groups_show:
  "read_ipv4_groups (show_ipv4_octets g h) = Some ([g, h], [])"
  unfolding read_ipv4_groups_def show_ipv4_octets_def
  by (subst read_octets_show) (simp_all add: octet_bounds octets_word del: of_nat_add of_nat_mult)

lemma read_ipv4_groups_no_digit:
  "s \<noteq> [] \<Longrightarrow> to_digit 10 (hd s) = None \<Longrightarrow> read_ipv4_groups s = None"
  by (cases s)
    (simp_all add: read_ipv4_groups_def read_octets.simps(2)[of 3, simplified] read_separator_def
      read_number_def is_radix_digit_def)

lemma read_groups_steps:
  assumes "read_ipv4_groups s = None"
  shows "read_number 16 4 True 65535 s = None \<Longrightarrow> read_groups (Suc k) 0 s = ([], False, s)"
    and "read_number 16 4 True 65535 s = Some (g, s') \<Longrightarrow>
      read_groups k 1 s' = (gs, v4, s'') \<Longrightarrow> read_groups (Suc k) 0 s = (of_nat g # gs, v4, s'')"
  using assms by (simp_all add: read_separator_def)

lemma parse_mapped:
  "parse_ipv6 (''::ffff:'' @ show_ipv4_octets g h) = Some (Ipv6Addr 0 0 0 0 0 0xffff g h)"
proof -
  let ?t = "show_ipv4_octets g h"
  have head: "read_groups 8 0 (''::ffff:'' @ ?t) = ([], False, ''::ffff:'' @ ?t)"
  proof -
    have "read_ipv4_groups (''::ffff:'' @ ?t) = None"
      by (rule read_ipv4_groups_no_digit) (simp_all add: to_digit_def byte_def)
    moreover have "read_number 16 4 True 65535 (''::ffff:'' @ ?t) = None"
      using read_group_stop[of "''::ffff:'' @ ?t" 0] by (simp add: read_separator_def)
    ultimately have "read_groups (Suc 7) 0 (''::ffff:'' @ ?t) = ([], False, ''::ffff:'' @ ?t)"
      by (rule read_groups_steps(1))
    then show ?thesis by (simp del: read_groups.simps)
  qed
  have ffff: "show_hex 65535 = ''ffff''"
    by (simp add: show_base_def to_digits.simps[of 16 65535]
        to_digits.simps[of 16 4095] to_digits.simps[of 16 255] to_digits.simps[of 16 15])
  have group: "read_number 16 4 True 65535 (''ffff:'' @ ?t) = Some (65535, '':'' @ ?t)"
    using read_number_show[of 16 "'':'' @ ?t" 4 65535 65535 True]
    by (simp add: ffff to_digit_def byte_def)
  have no_v4: "read_ipv4_groups (''ffff:'' @ ?t) = None"
    by (rule read_ipv4_groups_no_digit) (simp_all add: to_digit_def byte_def)
  have dotted: "read_groups (Suc 5) 1 ('':'' @ ?t) = ([g, h], True, [])"
    by (simp add: read_separator_def read_ipv4_groups_show del: Suc_numeral)
  have tail: "read_groups (Suc 6) 0 (''ffff:'' @ ?t) = ([0xffff, g, h], True, [])"
    using read_groups_steps(2)[OF no_v4 group, of 6 "[g, h]" True "[]"] dotted by simp
  from head tail show ?thesis
    by (simp add: parse_ipv6_def read_ipv6_def numeral_eq_Suc del: read_groups.simps)
qed

theorem parse_show_ipv6: "parse_ipv6 (show_ipv6 a) = Some a"
proof (cases "take 6 (segments a) = [0, 0, 0, 0, 0, 0xffff]")
  case True
  then show ?thesis
    using parse_mapped by (cases a) (auto simp: show_ipv6_def numeral_eq_Suc)
next
  case False
  obtain st len where span: "zero_span 0 (0, 0) (0, 0) (segments a) = (st, len)" by fastforce
  show ?thesis
  proof (cases "len > 1")
    case short: False
    then have "show_ipv6 a = group_text 0 (segments a) @ []"
      using False span by (simp add: show_ipv6_def fmt_subslice_group_text)
    then show ?thesis
      using read_groups_text[of "segments a" 8 "[]" 0] by (simp add: parse_ipv6_def read_ipv6_def)
  next
    case long: True
    let ?head = "take st (segments a)" and ?tail = "drop (st + len) (segments a)"
    have split: "st + len \<le> 8" "segments a = ?head @ replicate len 0 @ ?tail"
      using zero_span_split[OF span] by simp_all
    have show_a: "show_ipv6 a = group_text 0 ?head @ ''::'' @ group_text 0 ?tail"
      using False span long by (simp add: show_ipv6_def fmt_subslice_group_text Let_def)
    have h: "read_groups 8 0 (show_ipv6 a) = (?head, False, ''::'' @ group_text 0 ?tail)"
      unfolding show_a by (rule read_groups_text) (auto simp: text_simps)
    have t: "read_groups (8 - (st + 1)) 0 (group_text 0 ?tail) = (?tail, False, [])"
      using read_groups_text[of ?tail "8 - (st + 1)" "[]" 0] long by simp
    have "8 - st - length ?tail = len" using split(1) by simp
    with h t split long show ?thesis
      by (simp add: parse_ipv6_def read_ipv6_def min_def del: append_take_drop_id)
  qed
qed

interpretation ipv6_text: text_codec show_ipv6 parse_ipv6
  by unfold_locales (rule parse_show_ipv6)

lemma LF_not_show_ipv6 [text_simps]: "LF \<notin> set (show_ipv6 a)"
proof -
  have "LF \<notin> set (group_text i gs)" for i gs
    by (induction gs arbitrary: i) (auto simp: text_simps byte_def)
  then show ?thesis
    by (auto simp: show_ipv6_def Let_def fmt_subslice_group_text show_ipv4_octets_def text_simps
        byte_def split: prod.splits)
qed

end
