(* ===== verification/Peer.thy ===== *)
theory Peer
  imports Errors Ipv6
begin

text \<open>
  \<open>src/peer.rs\<close> and \<open>src/wg_pubkey.rs\<close>: the peer, its status, and the WireGuard public key,
  which only exists after validation. The base64 decoder is the \<open>base64\<close> crate's: a parameter
  that returns the bytes or the text of its error.
\<close>

datatype peer_status =
    Provisioning
  | Active
  | Deleting
  | Disabled
  | Error rstr

datatype wg_pubkey = WgPubKey (as_str: rstr)

record peer =
  p_peer_id :: u32
  p_peer_name :: rstr
  p_iface_name :: rstr
  p_asn :: u32
  p_pubkey :: wg_pubkey
  p_endpoint :: "rstr option"
  p_local_ll_ip :: ipv6_addr
  p_remote_ll_ip :: ipv6_addr
  p_status :: peer_status
  p_listen_port :: u16
  p_mtu :: u16

type_synonym b64_decoder = "rstr \<Rightarrow> rstr + u8 list"

definition pubkey_try_from :: "b64_decoder \<Rightarrow> rstr \<Rightarrow> peer_error + wg_pubkey" where
  "pubkey_try_from decode value =
     (if length value \<noteq> 44 then Inl (InvalidWgPubKeyLength (length value))
      else res_bind (map_err InvalidWgPubKeyBase64 (decode value)) (\<lambda>_. Inr (WgPubKey value)))"

definition valid_pubkey :: "b64_decoder \<Rightarrow> wg_pubkey \<Rightarrow> bool" where
  "valid_pubkey decode k = (length (as_str k) = 44 \<and> is_ok (decode (as_str k)))"

lemma pubkey_try_from_ok:
  "pubkey_try_from decode v = Inr k \<longleftrightarrow> k = WgPubKey v \<and> valid_pubkey decode k"
  by (cases "decode v") (auto simp: pubkey_try_from_def valid_pubkey_def)

lemma pubkey_try_from_as_str [simp]:
  "valid_pubkey decode k \<Longrightarrow> pubkey_try_from decode (as_str k) = Inr k"
  by (simp add: pubkey_try_from_ok)

text \<open>A peer takes part in the external configuration unless it is being deleted or is disabled.\<close>

definition desired_status :: "peer_status \<Rightarrow> bool" where
  "desired_status st = (st \<noteq> Deleting \<and> st \<noteq> Disabled)"

lemma desired_status_simps [simp]:
  "desired_status Provisioning" "desired_status Active" "desired_status (Error e)"
  "\<not> desired_status Deleting" "\<not> desired_status Disabled"
  by (simp_all add: desired_status_def)

section \<open>The database's status column\<close>

fun status_to_str :: "peer_status \<Rightarrow> rstr" where
  "status_to_str Provisioning = ''provisioning''"
| "status_to_str Active = ''active''"
| "status_to_str Deleting = ''deleting''"
| "status_to_str Disabled = ''disabled''"
| "status_to_str (Error _) = ''error''"

definition str_to_status :: "rstr \<Rightarrow> peer_status" where
  "str_to_status s =
     (if s = ''provisioning'' then Provisioning
      else if s = ''active'' then Active
      else if s = ''deleting'' then Deleting
      else if s = ''disabled'' then Disabled
      else Error (''unknown database status: '' @ s))"

fun is_error_status :: "peer_status \<Rightarrow> bool" where
  "is_error_status (Error _) = True"
| "is_error_status _ = False"

lemma str_to_status_status_to_str:
  "\<not> is_error_status st \<Longrightarrow> str_to_status (status_to_str st) = st"
  by (cases st) (simp_all add: str_to_status_def)

lemma str_to_status_simps [simp]:
  "str_to_status ''provisioning'' = Provisioning"
  "str_to_status ''active'' = Active"
  "str_to_status ''deleting'' = Deleting"
  "str_to_status ''disabled'' = Disabled"
  by (simp_all add: str_to_status_def)

end
