(* ===== verification/Template.thy ===== *)
theory Template
  imports Peer
begin

text \<open>
  \<open>src/template.rs\<close> and \<open>templates/peer.conf\<close>: the escaper and the rendered BIRD fragment.
  Askama inserts each expression through the escaper and keeps the template's own text. Whether
  it keeps the newline at the end of the file is askama's: the argument \<open>trailer\<close>.
\<close>

section \<open>Escaper\<close>

definition escape_char :: "char \<Rightarrow> rstr" where
  "escape_char c =
     (if c = QUOTE then [BACKSLASH, QUOTE]
      else if c = BACKSLASH then [BACKSLASH, BACKSLASH]
      else if c = LF \<or> c = CR then '' ''
      else if is_ascii_control c then []
      else [c])"

fun write_escaped_str :: "rstr \<Rightarrow> rstr" where
  "write_escaped_str [] = []"
| "write_escaped_str (c # s) = escape_char c @ write_escaped_str s"

section \<open>The template\<close>

record peer_template =
  t_peer_id :: u32
  t_peer_name :: rstr
  t_asn :: u32
  t_local_asn :: u32
  t_iface :: rstr
  t_local_ll_ip :: ipv6_addr
  t_remote_ll_ip :: ipv6_addr

definition template_lines :: "peer_template \<Rightarrow> rstr list" where
  "template_lines t =
     (let asn = write_escaped_str (show_u32 (t_asn t));
          local_asn = write_escaped_str (show_u32 (t_local_asn t));
          peer_id = write_escaped_str (show_u32 (t_peer_id t));
          peer_name = write_escaped_str (t_peer_name t);
          iface = write_escaped_str (t_iface t);
          local_ll_ip = write_escaped_str (show_ipv6 (t_local_ll_ip t));
          remote_ll_ip = write_escaped_str (show_ipv6 (t_remote_ll_ip t));
          apostrophe = [CHR 0x27]
      in [''# Dynamically generated by DN42 Autopeer for AS'' @ asn,
          ''# Peer name: '' @ peer_name @ '' (ID '' @ peer_id @ '')'',
          ''# Interface: '' @ iface,
          '''',
          ''protocol bgp dn42_'' @ asn @ ''_'' @ peer_id @ '' {'',
          ''  local '' @ local_ll_ip @ '' as '' @ local_asn @ '';'',
          ''  neighbor '' @ remote_ll_ip @ '' % '' @ apostrophe @ iface @ apostrophe @ '' as '' @ asn
            @ '';'',
          ''  '',
          ''  ipv6 {'',
          ''    table dn42_v6;'',
          ''    import table;'',
          ''    import where dn42_import_from_peer('' @ asn @ '', '' @ peer_id @ '');'',
          ''    export where dn42_export_to_peer('' @ asn @ '', '' @ peer_id @ '');'',
          ''  };'',
          ''  ipv4 {'',
          ''    table dn42_v4;'',
          ''    import table;'',
          ''    import where dn42_import_from_peer_v4('' @ asn @ '', '' @ peer_id @ '');'',
          ''    export where dn42_export_to_peer_v4('' @ asn @ '', '' @ peer_id @ '');'',
          ''    extended next hop on;'',
          ''  };'',
          ''}''])"

definition render :: "rstr \<Rightarrow> peer_template \<Rightarrow> rstr" where
  "render trailer t = join [LF] (template_lines t) @ trailer"

section \<open>What the escaper guarantees\<close>

text \<open>
  A reader of BIRD's double-quoted literals: a backslash takes the next byte literally, a bare
  quote ends the literal. \<open>sanitize\<close> is what the escaper means to transmit.
\<close>

fun scan_string :: "rstr \<Rightarrow> (rstr \<times> rstr) option" where
  "scan_string [] = None"
| "scan_string (c # s) =
     (if c = QUOTE then Some ([], s)
      else if c = BACKSLASH then
        (case s of [] \<Rightarrow> None | d # t \<Rightarrow> map_option (apfst ((#) d)) (scan_string t))
      else map_option (apfst ((#) c)) (scan_string s))"

definition sanitize :: "rstr \<Rightarrow> rstr" where
  "sanitize s =
     filter (\<lambda>c. \<not> is_ascii_control c) (map (\<lambda>c. if c = LF \<or> c = CR then CHR '' '' else c) s)"

lemma escape_no_control: "c \<in> set (write_escaped_str s) \<Longrightarrow> \<not> is_ascii_control c"
  by (induction s)
    (auto simp: escape_char_def is_ascii_control_def byte_def split: if_splits)

lemma LF_not_escaped [text_simps]: "LF \<notin> set (write_escaped_str s)"
  using escape_no_control[of LF s] by (auto simp: is_ascii_control_def byte_def)

lemma control_bytes [simp]:
  "is_ascii_control LF" "is_ascii_control CR" "\<not> is_ascii_control QUOTE"
  "\<not> is_ascii_control BACKSLASH" "\<not> is_ascii_control (CHR '' '')"
  by (simp_all add: is_ascii_control_def byte_def)

lemma sanitize_Cons: "sanitize (c # s) = sanitize [c] @ sanitize s"
  by (simp add: sanitize_def)

lemma scan_escape_char:
  "scan_string (escape_char c @ t) = map_option (apfst ((@) (sanitize [c]))) (scan_string t)"
proof -
  consider "c = QUOTE" | "c = BACKSLASH" | "c = LF \<or> c = CR"
    | "is_ascii_control c" "c \<noteq> LF" "c \<noteq> CR"
    | "\<not> is_ascii_control c" "c \<noteq> QUOTE" "c \<noteq> BACKSLASH"
    by auto
  then show ?thesis
  proof cases
    case 3
    then have "c \<noteq> QUOTE" "c \<noteq> BACKSLASH" by auto
    with 3 show ?thesis
      by (cases "scan_string t") (simp_all add: escape_char_def sanitize_def)
  next
    case 4
    then have "c \<noteq> QUOTE" "c \<noteq> BACKSLASH" by auto
    with 4 show ?thesis
      by (cases "scan_string t") (simp_all add: escape_char_def sanitize_def apfst_def map_prod_def)
  next
    case 5
    then have "c \<noteq> LF" "c \<noteq> CR" by auto
    with 5 show ?thesis
      by (cases "scan_string t") (simp_all add: escape_char_def sanitize_def)
  qed (cases "scan_string t"; simp add: escape_char_def sanitize_def)+
qed

lemma scan_escaped:
  "scan_string (write_escaped_str s @ QUOTE # rest) = Some (sanitize s, rest)"
proof (induction s)
  case Nil
  then show ?case by (simp add: sanitize_def)
next
  case (Cons c s)
  then show ?case by (simp add: scan_escape_char sanitize_Cons[of c s])
qed

text \<open>Plain text passes through.\<close>

definition bird_plain :: "char \<Rightarrow> bool" where
  "bird_plain c = (\<not> is_ascii_control c \<and> c \<noteq> QUOTE \<and> c \<noteq> BACKSLASH)"

lemma escape_char_plain: "bird_plain c \<Longrightarrow> escape_char c = [c]"
proof -
  assume plain: "bird_plain c"
  then have "c \<noteq> LF" "c \<noteq> CR" by (auto simp: bird_plain_def)
  with plain show ?thesis by (simp add: escape_char_def bird_plain_def)
qed

lemma escape_plain: "\<forall>c\<in>set s. bird_plain c \<Longrightarrow> write_escaped_str s = s"
  by (induction s) (simp_all add: escape_char_plain)

lemma count_LF_join:
  assumes "\<And>x. x \<in> set xs \<Longrightarrow> LF \<notin> set x"
  shows "count_list (join [LF] xs) LF = length xs - 1"
  using assms
proof (induction "[LF]" xs rule: join.induct)
  case (3 x y zs)
  then show ?case by (auto simp: count_notin)
qed (auto simp: count_notin)

lemma template_line_count: "length (template_lines t) = 22"
  by (simp add: template_lines_def Let_def)

lemma template_lines_no_LF: "x \<in> set (template_lines t) \<Longrightarrow> LF \<notin> set x"
  unfolding template_lines_def Let_def by (auto simp: text_simps)

lemma render_line_count:
  "count_list (render trailer t) LF = 21 + count_list trailer LF"
  by (simp add: render_def count_LF_join template_lines_no_LF template_line_count)

end
