(* ===== verification/World.thy ===== *)
theory World
  imports Template
begin

text \<open>
  The state the service works on, its environment, and the monad its \<open>async\<close> functions are
  translated into.

  \<open>world\<close> holds what the program changes: the PostgreSQL tables, the kernel's links, the files
  under the BIRD directory, and the requests that nftables and BIRD accepted. \<open>env\<close> holds what the
  program does not define: the crates it calls, the answers of the services, the faults of every
  external call, and the interference of other tasks and administrators.

  Every external call passes an \<open>await\<close> point: the call counter \<open>w_tick\<close> advances and the
  environment may change the world (\<open>interfere\<close>). The fault of a call is either clean (nothing
  happened) or dirty (the effect took place and the caller still sees an error). A function that
  returns an error keeps the state it reached: there is no roll-back except the database's.
\<close>

section \<open>Values of the other crates\<close>

datatype url_host = HostDomain rstr | HostIpv4 u16 u16 | HostIpv6 ipv6_addr

record url =
  url_username :: rstr
  url_password :: "rstr option"
  url_path :: rstr
  url_query :: "rstr option"
  url_fragment :: "rstr option"
  url_port :: "u16 option"
  url_host :: "url_host option"

datatype ip_addr = IpV4 u16 u16 | IpV6 ipv6_addr

datatype socket_addr = SocketAddr ip_addr u16

datatype dns_result = DnsTimeout | DnsError | DnsAddresses "socket_addr list"

datatype json = JNull | JBool bool | JNumber int | JString rstr | JArray "json list"
  | JObject "(rstr \<times> json) list"

datatype http_result = HttpError rstr | HttpResponse nat "rstr + json"

text \<open>Keys and signatures of the \<open>pgp\<close> and \<open>ssh_key\<close> crates are handles.\<close>

type_synonym handle = nat

section \<open>The kernel\<close>

datatype nla = Nla (nla_kind: u16) (nla_value: "u8 list")

datatype link_attribute = IfName rstr | IfAlias rstr | AfSpecInet nla | OtherAttribute

record link =
  lk_index :: u32
  lk_attributes :: "link_attribute list"

record wg_peer_config =
  pc_public_key :: "u8 list"
  pc_endpoint :: "socket_addr option"
  pc_allowed_ips :: "(ip_addr \<times> nat) list"

record device_update =
  du_private_key :: "u8 list"
  du_listen_port :: u16
  du_replace_peers :: bool
  du_peers :: "wg_peer_config list"

record wg_device =
  d_name :: rstr
  d_listen_port :: "u16 option"

record link_settings =
  ls_mtu :: u32
  ls_alias :: rstr
  ls_extra :: link_attribute
  ls_up :: bool

datatype nl_request =
    AddWireguardLink rstr
  | SetLink u32 link_settings
  | ReplaceAddress u32 ip_addr nat
  | DelLink u32
  | ApplyDevice rstr device_update

record kernel =
  k_links :: "link list"
  k_devices :: "wg_device list"

section \<open>Files\<close>

type_synonym path = "rstr list"

datatype node = Dir | File rstr | Symlink bool path

type_synonym filesystem = "(path \<times> node) list"

definition show_path :: "path \<Rightarrow> rstr" where
  "show_path p = concat (map (\<lambda>c. ''/'' @ c) p)"

section \<open>The BIRD socket and the nft process\<close>

record bird_session =
  bs_connect :: "io_error option"
  bs_lines :: "(rstr + rstr) list"
  bs_write :: "io_error option"

datatype nft_outcome =
    NftTimeout
  | NftSpawnError rstr
  | NftNoStdin
  | NftWriteError rstr
  | NftWaitError rstr
  | NftExit bool rstr rstr

section \<open>The database\<close>

text \<open>
  The columns that a peer row and a change event share, at their SQL types: \<open>INT\<close> and
  \<open>BIGINT\<close> as integers, \<open>VARCHAR\<close> as text.
\<close>

record peer_cols =
  c_peer_id :: int
  c_asn :: int
  c_peer_name :: rstr
  c_iface_name :: rstr
  c_pubkey :: rstr
  c_endpoint :: "rstr option"
  c_local_ll_ip :: rstr
  c_remote_ll_ip :: rstr
  c_status :: rstr
  c_listen_port :: int
  c_mtu :: int

record peer_row = peer_cols +
  r_created_at :: int
  r_updated_at :: int

record event_row = peer_cols +
  ev_event_id :: int
  ev_operation :: rstr

record nonce_row =
  n_nonce :: rstr
  n_asn :: int
  n_expires_at :: int

section \<open>Locks\<close>

text \<open>
  The mutexes of \<open>PeerManager\<close>: one for each pair of ASN and peer name, and three single ones. A world
  carries the trace of the locks that its task took and released.
\<close>

datatype lock_id = PeerLock u32 rstr | PortLock | NftLock | BirdLock

datatype lock_event = Acquired lock_id | Released lock_id

fun lock_event_step :: "lock_event \<Rightarrow> lock_id list \<Rightarrow> lock_id list" where
  "lock_event_step (Acquired l) held = l # held"
| "lock_event_step (Released l) held = remove1 l held"

definition locks_held :: "lock_event list \<Rightarrow> lock_id list" where
  "locks_held trace = fold lock_event_step trace []"

lemma locks_held_simps [simp]:
  "locks_held [] = []"
  "locks_held (trace @ [Acquired l]) = l # locks_held trace"
  "locks_held (trace @ [Released l]) = remove1 l (locks_held trace)"
  by (simp_all add: locks_held_def)

section \<open>World and environment\<close>

record world =
  w_tick :: nat
  w_peers :: "peer_row list"
  w_nonces :: "nonce_row list"
  w_events :: "event_row list"
  w_peer_seq :: int
  w_event_seq :: int
  w_notifies :: nat
  w_locks :: "lock_event list"
  w_permits :: nat
  w_kernel :: kernel
  w_nl_log :: "nl_request list"
  w_fs :: filesystem
  w_bird_log :: "node option list"
  w_nft_log :: "rstr list"

datatype 'e fault = NoFault | FailClean 'e | FailDirty 'e

record env =
  debug_assertions :: bool
  env_var :: "rstr \<Rightarrow> rstr option"
  process_id :: nat
  clock :: "nat \<Rightarrow> int"
  nanos :: "nat \<Rightarrow> nat"
  b64_decode :: b64_decoder
  key_from_base64 :: "rstr \<Rightarrow> u8 list option"
  fresh_nonce :: "nat \<Rightarrow> rstr"
  url_parse :: "rstr \<Rightarrow> url option"
  pgp_public_key :: "rstr \<Rightarrow> rstr + handle"
  pgp_signature :: "rstr \<Rightarrow> rstr + handle"
  pgp_verify :: "handle \<Rightarrow> handle \<Rightarrow> rstr \<Rightarrow> rstr option"
  pgp_fingerprint :: "handle \<Rightarrow> u8 list"
  hex_encode :: "u8 list \<Rightarrow> rstr"
  ssh_public_key :: "rstr \<Rightarrow> rstr + handle"
  ssh_signature :: "rstr \<Rightarrow> rstr + handle"
  ssh_verify :: "handle \<Rightarrow> rstr \<Rightarrow> rstr \<Rightarrow> handle \<Rightarrow> rstr option"
  nla_emit :: "nla \<Rightarrow> u8 list"
  interface_name_ok :: "rstr \<Rightarrow> bool"
  template_trailer :: rstr
  db_fault :: "nat \<Rightarrow> sqlx_error fault"
  collation :: "rstr \<Rightarrow> rstr \<Rightarrow> bool"
  nl_fault :: "nat \<Rightarrow> io_error fault"
  nla_f_nested :: u16
  dump_cut :: "nat \<Rightarrow> nat"
  device_get_error :: "rstr \<Rightarrow> io_error"
  kernel_apply :: "nl_request \<Rightarrow> kernel \<Rightarrow> kernel"
  fs_fault :: "nat \<Rightarrow> io_error fault"
  nft_run :: "nat \<Rightarrow> rstr \<Rightarrow> nft_outcome \<times> bool"
  bird_timeout :: "nat \<Rightarrow> bool"
  bird_connect :: "nat \<Rightarrow> bird_session"
  lookup_host :: "nat \<Rightarrow> rstr \<Rightarrow> dns_result"
  registry_http :: "nat \<Rightarrow> rstr \<Rightarrow> http_result"
  registry_timed_out :: "nat \<Rightarrow> bool"
  interfere :: "nat \<Rightarrow> world \<Rightarrow> world"

section \<open>The monad\<close>

type_synonym 'a io = "world \<Rightarrow> (peer_error + 'a) \<times> world"

definition ret :: "'a \<Rightarrow> 'a io" where
  "ret x = (\<lambda>w. (Inr x, w))"

definition throw :: "peer_error \<Rightarrow> 'a io" where
  "throw e = (\<lambda>w. (Inl e, w))"

text \<open>\<open>let x = m?; f(x)\<close>.\<close>

definition and_then :: "'a io \<Rightarrow> ('a \<Rightarrow> 'b io) \<Rightarrow> 'b io" where
  "and_then m f = (\<lambda>w. case m w of (Inl e, w') \<Rightarrow> (Inl e, w') | (Inr x, w') \<Rightarrow> f x w')"

text \<open>\<open>m.await\<close> without \<open>?\<close>: the result as a value, to be matched.\<close>

definition attempt :: "'a io \<Rightarrow> (peer_error + 'a) io" where
  "attempt m = (\<lambda>w. case m w of (r, w') \<Rightarrow> (Inr r, w'))"

definition lift_res :: "peer_error + 'a \<Rightarrow> 'a io" where
  "lift_res r = (\<lambda>w. (r, w))"

definition get_world :: "world io" where
  "get_world = (\<lambda>w. (Inr w, w))"

definition modify :: "(world \<Rightarrow> world) \<Rightarrow> unit io" where
  "modify f = (\<lambda>w. (Inr (), f w))"

fun for_io :: "('a \<Rightarrow> unit io) \<Rightarrow> 'a list \<Rightarrow> unit io" where
  "for_io f [] = ret ()"
| "for_io f (x # xs) = and_then (f x) (\<lambda>_. for_io f xs)"

section \<open>External calls\<close>

definition await :: "env \<Rightarrow> world \<Rightarrow> world" where
  "await E w =
     (interfere E (w_tick w) (w\<lparr>w_tick := Suc (w_tick w)\<rparr>))
       \<lparr>w_tick := Suc (w_tick w), w_locks := w_locks w\<rparr>"

text \<open>Taking a mutex waits, its guard is dropped when the scope \<open>m\<close> is left, also by \<open>?\<close>.\<close>

definition note_lock :: "lock_event \<Rightarrow> world \<Rightarrow> world" where
  "note_lock ev w = w\<lparr>w_locks := w_locks w @ [ev]\<rparr>"

definition with_lock :: "env \<Rightarrow> lock_id \<Rightarrow> 'a io \<Rightarrow> 'a io" where
  "with_lock E l m = (\<lambda>w. case m (note_lock (Acquired l) (await E w)) of
     (r, w') \<Rightarrow> (r, note_lock (Released l) w'))"

definition yield_point :: "env \<Rightarrow> unit io" where
  "yield_point E = (\<lambda>w. (Inr (), await E w))"

definition ext_call ::
  "env \<Rightarrow> (nat \<Rightarrow> 'e fault) \<Rightarrow> ('e \<Rightarrow> peer_error) \<Rightarrow> (world \<Rightarrow> ('e + 'a) \<times> world) \<Rightarrow> 'a io" where
  "ext_call E flt mk q w =
     (let w1 = await E w in
      case flt (w_tick w) of
        NoFault \<Rightarrow> (case q w1 of (r, w2) \<Rightarrow> (map_err mk r, w2))
      | FailClean e \<Rightarrow> (Inl (mk e), w1)
      | FailDirty e \<Rightarrow> (Inl (mk e), snd (q w1)))"

text \<open>\<open>unix_timestamp\<close> in seconds and \<open>unique_suffix\<close> in nanoseconds read the system clock.\<close>

definition unix_timestamp :: "env \<Rightarrow> world \<Rightarrow> int" where
  "unix_timestamp E w = clock E (w_tick w)"

definition unique_suffix :: "env \<Rightarrow> world \<Rightarrow> nat" where
  "unique_suffix E w = nanos E (w_tick w)"

text \<open>The \<open>MOCK_*\<close> variables are read in debug builds only.\<close>

definition mocked :: "env \<Rightarrow> rstr \<Rightarrow> bool" where
  "mocked E var = (debug_assertions E \<and> env_var E var \<noteq> None)"

section \<open>Laws\<close>

lemma ret_simp [simp]: "ret x w = (Inr x, w)" by (simp add: ret_def)
lemma throw_simp [simp]: "throw e w = (Inl e, w)" by (simp add: throw_def)
lemma lift_res_simp [simp]: "lift_res r w = (r, w)" by (simp add: lift_res_def)
lemma get_world_simp [simp]: "get_world w = (Inr w, w)" by (simp add: get_world_def)
lemma modify_simp [simp]: "modify f w = (Inr (), f w)" by (simp add: modify_def)
lemma yield_point_simp [simp]: "yield_point E w = (Inr (), await E w)"
  by (simp add: yield_point_def)

lemma ret_and_then [simp]: "and_then (ret x) f = f x"
  by (simp add: and_then_def ret_def fun_eq_iff)

lemma throw_and_then [simp]: "and_then (throw e) f = throw e"
  by (simp add: and_then_def throw_def fun_eq_iff)

lemma and_then_assoc: "and_then (and_then m f) g = and_then m (\<lambda>x. and_then (f x) g)"
  by (simp add: and_then_def fun_eq_iff split: prod.splits sum.splits)

lemma and_then_Inr:
  "and_then m f w = (Inr y, w'') \<longleftrightarrow> (\<exists>x w'. m w = (Inr x, w') \<and> f x w' = (Inr y, w''))"
  by (auto simp: and_then_def split: prod.splits sum.splits)

lemma and_then_Inl:
  "and_then m f w = (Inl e, w'') \<longleftrightarrow>
     m w = (Inl e, w'') \<or> (\<exists>x w'. m w = (Inr x, w') \<and> f x w' = (Inl e, w''))"
  by (auto simp: and_then_def split: prod.splits sum.splits)

lemma and_then_run:
  "m w = (Inr x, w') \<Longrightarrow> and_then m f w = f x w'"
  "m w = (Inl e, w') \<Longrightarrow> and_then m f w = (Inl e, w')"
  by (simp_all add: and_then_def)

lemma attempt_Inr [simp]: "attempt m w = (Inr r, w') \<longleftrightarrow> m w = (r, w')"
  by (auto simp: attempt_def split: prod.splits)

lemma attempt_not_Inl [simp]: "attempt m w \<noteq> (Inl e, w')"
  by (simp add: attempt_def split: prod.splits)

lemma ext_call_Inr:
  "ext_call E flt mk q w = (Inr x, w') \<longleftrightarrow>
     flt (w_tick w) = NoFault \<and> q (await E w) = (Inr x, w')"
  by (auto simp: ext_call_def Let_def map_err_def split: fault.splits prod.splits sum.splits)

lemma await_tick [simp]:
  "w_tick (await E w) = Suc (w_tick w)" "w_locks (await E w) = w_locks w"
  by (simp_all add: await_def)

lemma note_lock_simps [simp]:
  "w_tick (note_lock ev w) = w_tick w" "w_peers (note_lock ev w) = w_peers w"
  "w_nonces (note_lock ev w) = w_nonces w" "w_events (note_lock ev w) = w_events w"
  "w_peer_seq (note_lock ev w) = w_peer_seq w" "w_event_seq (note_lock ev w) = w_event_seq w"
  "w_notifies (note_lock ev w) = w_notifies w" "w_permits (note_lock ev w) = w_permits w"
  "w_kernel (note_lock ev w) = w_kernel w" "w_nl_log (note_lock ev w) = w_nl_log w"
  "w_fs (note_lock ev w) = w_fs w" "w_bird_log (note_lock ev w) = w_bird_log w"
  "w_nft_log (note_lock ev w) = w_nft_log w" "w_locks (note_lock ev w) = w_locks w @ [ev]"
  by (simp_all add: note_lock_def)

lemma with_lock_run:
  "with_lock E l m w = (r, w') \<longleftrightarrow>
     (\<exists>w1. m (note_lock (Acquired l) (await E w)) = (r, w1) \<and> w' = note_lock (Released l) w1)"
  by (auto simp: with_lock_def split: prod.splits)

section \<open>Assertions that operations keep\<close>

definition preserves :: "(world \<Rightarrow> bool) \<Rightarrow> 'a io \<Rightarrow> bool" where
  "preserves I m = (\<forall>w. I w \<longrightarrow> I (snd (m w)))"

text \<open>The environment keeps an assertion at every \<open>await\<close> point.\<close>

definition stable :: "env \<Rightarrow> (world \<Rightarrow> bool) \<Rightarrow> bool" where
  "stable E I = (\<forall>w. I w \<longrightarrow> I (await E w))"

text \<open>Nobody else acts: the case of a single request.\<close>

definition quiet :: "env \<Rightarrow> bool" where
  "quiet E = (\<forall>n w. interfere E n w = w)"

lemma await_quiet: "quiet E \<Longrightarrow> await E w = w\<lparr>w_tick := Suc (w_tick w)\<rparr>"
  by (simp add: await_def quiet_def)

lemma preservesI: "(\<And>w. I w \<Longrightarrow> I (snd (m w))) \<Longrightarrow> preserves I m"
  by (simp add: preserves_def)

lemma preservesD: "preserves I m \<Longrightarrow> I w \<Longrightarrow> m w = (r, w') \<Longrightarrow> I w'"
  by (metis preserves_def snd_conv)

lemma preserves_ret [frame_rules]: "preserves I (ret x)"
  by (simp add: preserves_def)

lemma preserves_Pair [frame_rules]: "preserves I (Pair r)"
  by (simp add: preserves_def)

lemma preserves_throw [frame_rules]: "preserves I (throw e)"
  by (simp add: preserves_def)

lemma preserves_lift_res [frame_rules]: "preserves I (lift_res r)"
  by (simp add: preserves_def)

lemma preserves_get_world [frame_rules]: "preserves I get_world"
  by (simp add: preserves_def)

lemma preserves_and_then [frame_rules]:
  "preserves I m \<Longrightarrow> (\<And>x. preserves I (f x)) \<Longrightarrow> preserves I (and_then m f)"
  by (auto simp: preserves_def and_then_def split: prod.splits sum.splits)

lemma preserves_attempt [frame_rules]: "preserves I m \<Longrightarrow> preserves I (attempt m)"
  by (auto simp: preserves_def attempt_def split: prod.splits)

lemma preserves_yield_point [frame_rules]: "stable E I \<Longrightarrow> preserves I (yield_point E)"
  by (simp add: preserves_def stable_def)

text \<open>An assertion that does not look at the locks.\<close>

definition lock_free :: "(world \<Rightarrow> 'v) \<Rightarrow> bool" where
  "lock_free v = (\<forall>w ev. v (note_lock ev w) = v w)"

lemma preserves_with_lock [frame_rules]:
  "stable E I \<Longrightarrow> lock_free I \<Longrightarrow> preserves I m \<Longrightarrow> preserves I (with_lock E l m)"
  by (auto simp: preserves_def with_lock_def stable_def lock_free_def split: prod.splits) (metis snd_conv)

lemma preserves_modify: "(\<And>w. I w \<Longrightarrow> I (f w)) \<Longrightarrow> preserves I (modify f)"
  by (simp add: preserves_def)

lemma preserves_for_io [frame_rules]:
  "(\<And>x. x \<in> set xs \<Longrightarrow> preserves I (f x)) \<Longrightarrow> preserves I (for_io f xs)"
  by (induction xs) (auto intro!: frame_rules)

lemma preserves_if [frame_rules]:
  "(b \<Longrightarrow> preserves I m) \<Longrightarrow> (\<not> b \<Longrightarrow> preserves I m') \<Longrightarrow> preserves I (if b then m else m')"
  by simp

lemma preserves_case_option [frame_rules]:
  "preserves I m \<Longrightarrow> (\<And>x. preserves I (f x)) \<Longrightarrow>
   preserves I (case opt of None \<Rightarrow> m | Some x \<Rightarrow> f x)"
  by (cases opt) simp_all

lemma preserves_case_sum [frame_rules]:
  "(\<And>x. preserves I (f x)) \<Longrightarrow> (\<And>x. preserves I (g x)) \<Longrightarrow>
   preserves I (case s of Inl x \<Rightarrow> f x | Inr x \<Rightarrow> g x)"
  by (cases s) simp_all

lemma preserves_case_prod [frame_rules]:
  "(\<And>x y. preserves I (f x y)) \<Longrightarrow> preserves I (case p of (x, y) \<Rightarrow> f x y)"
  by (cases p) simp

lemma preserves_ext_call:
  assumes "stable E I" "\<And>w. I w \<Longrightarrow> I (snd (q w))"
  shows "preserves I (ext_call E flt mk q)"
proof (rule preservesI)
  fix w assume "I w"
  with assms(1) have w1: "I (await E w)" by (simp add: stable_def)
  then have w2: "I (snd (q (await E w)))" by (rule assms(2))
  show "I (snd (ext_call E flt mk q w))"
    using w1 w2 by (auto simp: ext_call_def Let_def split: fault.splits prod.splits)
qed

section \<open>Frames\<close>

text \<open>\<open>keeps v m\<close>: the operation \<open>m\<close> does not change the view \<open>v\<close> of the world.\<close>

definition keeps :: "(world \<Rightarrow> 'v) \<Rightarrow> 'a io \<Rightarrow> bool" where
  "keeps v m = (\<forall>w. v (snd (m w)) = v w)"

definition tick_free :: "(world \<Rightarrow> 'v) \<Rightarrow> bool" where
  "tick_free v = (\<forall>w n. v (w\<lparr>w_tick := n\<rparr>) = v w)"

lemma keepsI: "(\<And>w. v (snd (m w)) = v w) \<Longrightarrow> keeps v m"
  by (simp add: keeps_def)

lemma keepsD: "keeps v m \<Longrightarrow> m w = (r, w') \<Longrightarrow> v w' = v w"
  by (metis keeps_def snd_conv)

lemma keeps_preserves: "keeps v m \<longleftrightarrow> (\<forall>c. preserves (\<lambda>w. v w = c) m)"
  by (auto simp: keeps_def preserves_def)

lemma keeps_ret [frame_rules]: "keeps v (ret x)" by (simp add: keeps_def)
lemma keeps_Pair [frame_rules]: "keeps v (Pair r)" by (simp add: keeps_def)
lemma keeps_throw [frame_rules]: "keeps v (throw e)" by (simp add: keeps_def)
lemma keeps_lift_res [frame_rules]: "keeps v (lift_res r)" by (simp add: keeps_def)
lemma keeps_get_world [frame_rules]: "keeps v get_world" by (simp add: keeps_def)

lemma keeps_and_then [frame_rules]:
  "keeps v m \<Longrightarrow> (\<And>x. keeps v (f x)) \<Longrightarrow> keeps v (and_then m f)"
  by (auto simp: keeps_preserves intro!: preserves_and_then)

lemma keeps_attempt [frame_rules]: "keeps v m \<Longrightarrow> keeps v (attempt m)"
  by (auto simp: keeps_preserves intro!: preserves_attempt)

lemma keeps_for_io [frame_rules]:
  "(\<And>x. x \<in> set xs \<Longrightarrow> keeps v (f x)) \<Longrightarrow> keeps v (for_io f xs)"
  by (auto simp: keeps_preserves intro!: preserves_for_io)

lemma keeps_if [frame_rules]:
  "(b \<Longrightarrow> keeps v m) \<Longrightarrow> (\<not> b \<Longrightarrow> keeps v m') \<Longrightarrow> keeps v (if b then m else m')"
  by simp

lemma keeps_case_option [frame_rules]:
  "keeps v m \<Longrightarrow> (\<And>x. keeps v (f x)) \<Longrightarrow> keeps v (case opt of None \<Rightarrow> m | Some x \<Rightarrow> f x)"
  by (cases opt) simp_all

lemma keeps_case_sum [frame_rules]:
  "(\<And>x. keeps v (f x)) \<Longrightarrow> (\<And>x. keeps v (g x)) \<Longrightarrow>
   keeps v (case s of Inl x \<Rightarrow> f x | Inr x \<Rightarrow> g x)"
  by (cases s) simp_all

lemma keeps_case_prod [frame_rules]:
  "(\<And>x y. keeps v (f x y)) \<Longrightarrow> keeps v (case p of (x, y) \<Rightarrow> f x y)"
  by (cases p) simp

lemma keeps_yield_point [frame_rules]: "quiet E \<Longrightarrow> tick_free v \<Longrightarrow> keeps v (yield_point E)"
  by (simp add: keeps_def await_quiet tick_free_def)

lemma keeps_with_lock [frame_rules]:
  "quiet E \<Longrightarrow> tick_free v \<Longrightarrow> lock_free v \<Longrightarrow> keeps v m \<Longrightarrow> keeps v (with_lock E l m)"
  by (auto simp: keeps_def with_lock_def await_quiet tick_free_def lock_free_def split: prod.splits)
    (metis snd_conv)

text \<open>A view that nobody else changes: any view when nobody acts, or the task's own locks.\<close>

definition undisturbed :: "env \<Rightarrow> (world \<Rightarrow> 'v) \<Rightarrow> bool" where
  "undisturbed E v = (\<forall>w. v (await E w) = v w)"

lemma undisturbed_quiet: "quiet E \<Longrightarrow> tick_free v \<Longrightarrow> undisturbed E v"
  by (simp add: undisturbed_def await_quiet tick_free_def)

lemma undisturbed_locks [simp]: "undisturbed E w_locks"
  by (simp add: undisturbed_def)

lemma keeps_ext_call_undisturbed:
  assumes "undisturbed E v" "\<And>w. v (snd (q w)) = v w"
  shows "keeps v (ext_call E flt mk q)"
proof (rule keepsI)
  fix w
  have w1: "v (await E w) = v w" using assms(1) by (simp add: undisturbed_def)
  moreover have "v (snd (q (await E w))) = v (await E w)" by (rule assms(2))
  ultimately show "v (snd (ext_call E flt mk q w)) = v w"
    by (cases "flt (w_tick w)"; cases "q (await E w)") (simp_all add: ext_call_def Let_def)
qed

lemma keeps_ext_call:
  "quiet E \<Longrightarrow> tick_free v \<Longrightarrow> (\<And>w. v (snd (q w)) = v w) \<Longrightarrow> keeps v (ext_call E flt mk q)"
  by (rule keeps_ext_call_undisturbed[OF undisturbed_quiet])

text \<open>The parts of the world, as views.\<close>

definition db_view where
  "db_view w =
     (w_peers w, w_nonces w, w_events w, w_peer_seq w, w_event_seq w, w_notifies w)"

definition kernel_view where "kernel_view w = (w_kernel w, w_nl_log w)"
definition bird_view where "bird_view w = (w_fs w, w_bird_log w)"
definition nft_view where "nft_view w = w_nft_log w"

lemma tick_free_views [simp]:
  "tick_free db_view" "tick_free kernel_view" "tick_free bird_view" "tick_free nft_view"
  "tick_free w_peers" "tick_free w_events" "tick_free w_nonces" "tick_free w_permits" "tick_free w_locks"
  by (simp_all add: tick_free_def db_view_def kernel_view_def bird_view_def nft_view_def)

lemma lock_free_views [simp]:
  "lock_free db_view" "lock_free kernel_view" "lock_free bird_view" "lock_free nft_view"
  "lock_free w_peers" "lock_free w_events" "lock_free w_nonces" "lock_free w_permits"
  by (simp_all add: lock_free_def db_view_def kernel_view_def bird_view_def nft_view_def)

lemma note_lock_views [simp]:
  "db_view (note_lock ev w) = db_view w" "kernel_view (note_lock ev w) = kernel_view w"
  "bird_view (note_lock ev w) = bird_view w" "nft_view (note_lock ev w) = nft_view w"
  by (simp_all add: db_view_def kernel_view_def bird_view_def nft_view_def)

text \<open>An assertion about the database alone is kept by everything that keeps the database.\<close>

definition about :: "(world \<Rightarrow> 'v) \<Rightarrow> (world \<Rightarrow> bool) \<Rightarrow> bool" where
  "about v I = (\<forall>w w'. v w = v w' \<longrightarrow> I w = I w')"

lemma aboutD: "about v I \<Longrightarrow> v w = v w' \<Longrightarrow> I w = I w'"
  unfolding about_def by blast

lemma about_lock_free: "about v I \<Longrightarrow> lock_free v \<Longrightarrow> lock_free I"
  unfolding about_def lock_free_def by blast

lemma preserves_ext_call_view:
  assumes "stable E I" "about v I" "\<And>w. v (snd (q w)) = v w"
  shows "preserves I (ext_call E flt mk q)"
proof (rule preserves_ext_call[OF assms(1)])
  fix w assume "I w"
  moreover have "I (snd (q w)) = I w" by (rule aboutD[OF assms(2,3)])
  ultimately show "I (snd (q w))" by simp
qed

end
