(* ===== verification/Sample.thy ===== *)
theory Sample
  imports World
begin

text \<open>
  A concrete environment and world on which the properties are applied: nobody interferes, every
  call succeeds, and the kernel behaves as the documentation of netlink says.
\<close>

section \<open>Kernel\<close>

fun next_index :: "link list \<Rightarrow> u32" where
  "next_index [] = 1"
| "next_index (l # ls) = max (lk_index l + 1) (next_index ls)"

fun sample_kernel :: "nl_request \<Rightarrow> kernel \<Rightarrow> kernel" where
  "sample_kernel (AddWireguardLink name) k =
     k\<lparr>k_links := k_links k @ [\<lparr>lk_index = next_index (k_links k), lk_attributes = [IfName name]\<rparr>],
       k_devices := k_devices k @ [\<lparr>d_name = name, d_listen_port = None\<rparr>]\<rparr>"
| "sample_kernel (SetLink idx ls) k =
     k\<lparr>k_links := map (\<lambda>l. if lk_index l = idx
         then l\<lparr>lk_attributes := lk_attributes l @ [IfAlias (ls_alias ls)]\<rparr> else l) (k_links k)\<rparr>"
| "sample_kernel (ReplaceAddress idx a n) k = k"
| "sample_kernel (DelLink idx) k =
     k\<lparr>k_links := filter (\<lambda>l. lk_index l \<noteq> idx) (k_links k)\<rparr>"
| "sample_kernel (ApplyDevice name u) k =
     k\<lparr>k_devices := map (\<lambda>d. if d_name d = name
         then d\<lparr>d_listen_port := Some (du_listen_port u)\<rparr> else d) (k_devices k)\<rparr>"

section \<open>Environment\<close>

definition sample_env :: env where
  "sample_env =
     \<lparr>debug_assertions = False, env_var = \<lambda>_. None, process_id = 7, clock = \<lambda>_. 1000,
      nanos = \<lambda>n. n, b64_decode = \<lambda>_. Inr [], key_from_base64 = \<lambda>_. Some [1],
      fresh_nonce = \<lambda>_. ''nonce'', url_parse = \<lambda>_. None,
      pgp_public_key = \<lambda>_. Inr 0, pgp_signature = \<lambda>_. Inr 1, pgp_verify = \<lambda>_ _ _. None,
      pgp_fingerprint = \<lambda>_. [171], hex_encode = \<lambda>_. ''ab'',
      ssh_public_key = \<lambda>_. Inr 0, ssh_signature = \<lambda>_. Inr 1, ssh_verify = \<lambda>_ _ _ _. None,
      nla_emit = \<lambda>n. nla_value n, interface_name_ok = \<lambda>_. True, template_trailer = [],
      db_fault = \<lambda>_. NoFault, collation = \<lambda>_ _. True, nl_fault = \<lambda>_. NoFault,
      nla_f_nested = 0x8000, dump_cut = \<lambda>_. 0,
      device_get_error = \<lambda>_. IoError NotFoundKind None ''No such device'',
      kernel_apply = sample_kernel, fs_fault = \<lambda>_. NoFault,
      nft_run = \<lambda>_ _. (NftExit True [] [], True), bird_timeout = \<lambda>_. False,
      bird_connect = \<lambda>_. \<lparr>bs_connect = None, bs_lines = [Inr ''0001 BIRD ready'', Inr ''0003 Reconfigured''],
                            bs_write = None\<rparr>,
      lookup_host = \<lambda>_ _. DnsAddresses [SocketAddr (IpV4 1 2) 51820],
      registry_http = \<lambda>_ _. HttpError ''unreachable'', registry_timed_out = \<lambda>_. False,
      interfere = \<lambda>_ w. w\<rparr>"

lemma sample_env_simps [simp]:
  "debug_assertions sample_env = False" "env_var sample_env v = None"
  "process_id sample_env = 7" "clock sample_env n = 1000" "nanos sample_env n = n"
  "b64_decode sample_env = (\<lambda>_. Inr [])" "key_from_base64 sample_env s = Some [1]"
  "interface_name_ok sample_env s" "template_trailer sample_env = []"
  "db_fault sample_env n = NoFault" "collation sample_env = (\<lambda>_ _. True)"
  "nl_fault sample_env n = NoFault" "kernel_apply sample_env = sample_kernel"
  "fs_fault sample_env n = NoFault" "nft_run sample_env n s = (NftExit True [] [], True)"
  "bird_timeout sample_env n = False"
  "bird_connect sample_env n =
     \<lparr>bs_connect = None, bs_lines = [Inr ''0001 BIRD ready'', Inr ''0003 Reconfigured''],
      bs_write = None\<rparr>"
  "lookup_host sample_env n s = DnsAddresses [SocketAddr (IpV4 1 2) 51820]"
  "fresh_nonce sample_env n = ''nonce''" "registry_timed_out sample_env n = False"
  "interfere sample_env n w = w"
  by (simp_all add: sample_env_def)

lemma sample_env_quiet [simp]: "quiet sample_env"
  by (simp add: quiet_def)

lemma sample_env_not_mocked [simp]: "\<not> mocked sample_env v"
  by (simp add: mocked_def)

lemma await_sample [simp]: "await sample_env w = w\<lparr>w_tick := Suc (w_tick w)\<rparr>"
  by (simp add: await_quiet)

definition empty_world :: world where
  "empty_world =
     \<lparr>w_tick = 0, w_peers = [], w_nonces = [], w_events = [], w_peer_seq = 0, w_event_seq = 0,
      w_notifies = 0, w_locks = [], w_permits = 128,
      w_kernel = \<lparr>k_links = [], k_devices = []\<rparr>,
      w_nl_log = [], w_fs = [], w_bird_log = [], w_nft_log = []\<rparr>"

definition sample_peer :: peer where
  "sample_peer =
     \<lparr>p_peer_id = 5, p_peer_name = ''home'', p_iface_name = ''wgp5'', p_asn = 4242420001,
      p_pubkey = WgPubKey (replicate 43 (CHR ''A'') @ ''=''), p_endpoint = None,
      p_local_ll_ip = Ipv6Addr 0xfe80 0 0 0 0 0 0 1, p_remote_ll_ip = Ipv6Addr 0xfe80 0 0 0 0 0 0 2,
      p_status = Active, p_listen_port = 20001, p_mtu = 1420\<rparr>"

end
