(* ===== verification/Netlink.thy ===== *)
theory Netlink
  imports Sample
begin

text \<open>
  \<open>src/netlink.rs\<close>: the requests that the service sends to the kernel through \<open>rtnetlink\<close> and
  \<open>wireguard_control\<close>. The kernel's reaction to a request is the parameter \<open>kernel_apply\<close>; the
  requests it accepted are the log \<open>w_nl_log\<close>. A link dump is a stream that may break off with an
  error after \<open>dump_cut\<close> links.
\<close>

section \<open>Primitives\<close>

text \<open>\<open>std::io::Error::other\<close> drops the kind and the OS code.\<close>

definition io_other :: "io_error \<Rightarrow> io_error" where
  "io_other e = IoError OtherKind None (io_text e)"

definition netlink_error :: "rstr \<Rightarrow> io_error \<Rightarrow> peer_error" where
  "netlink_error iface e = NetlinkError (io_other e) iface"

definition new_connection :: "env \<Rightarrow> rstr \<Rightarrow> unit io" where
  "new_connection E iface = ext_call E (nl_fault E) (netlink_error iface) (\<lambda>w. (Inr (), w))"

definition accept_request :: "env \<Rightarrow> nl_request \<Rightarrow> world \<Rightarrow> world" where
  "accept_request E req w =
     w\<lparr>w_kernel := kernel_apply E req (w_kernel w), w_nl_log := w_nl_log w @ [req]\<rparr>"

definition nl_send :: "env \<Rightarrow> (io_error \<Rightarrow> peer_error) \<Rightarrow> nl_request \<Rightarrow> unit io" where
  "nl_send E mk req = ext_call E (nl_fault E) mk (\<lambda>w. (Inr (), accept_request E req w))"

definition dump_links :: "env \<Rightarrow> (io_error + link) list io" where
  "dump_links E w =
     (let w1 = await E w; links = map Inr (k_links (w_kernel w1)) in
      case nl_fault E (w_tick w) of
        NoFault \<Rightarrow> (Inr links, w1)
      | FailClean e \<Rightarrow> (Inr (take (dump_cut E (w_tick w)) links @ [Inl e]), w1)
      | FailDirty e \<Rightarrow> (Inr (take (dump_cut E (w_tick w)) links @ [Inl e]), w1))"

definition device_list :: "env \<Rightarrow> rstr list io" where
  "device_list E = ext_call E (nl_fault E) (\<lambda>e. NetlinkError e ''all WireGuard interfaces'')
     (\<lambda>w. (Inr (map d_name (k_devices (w_kernel w))), w))"

definition device_get :: "env \<Rightarrow> rstr \<Rightarrow> wg_device io" where
  "device_get E iface = ext_call E (nl_fault E) (\<lambda>e. NetlinkError e iface)
     (\<lambda>w. case find (\<lambda>d. d_name d = iface) (k_devices (w_kernel w)) of
            None \<Rightarrow> (Inl (device_get_error E iface), w)
          | Some d \<Rightarrow> (Inr d, w))"

section \<open>Helpers\<close>

definition has_name :: "rstr \<Rightarrow> link \<Rightarrow> bool" where
  "has_name iface l =
     list_ex (\<lambda>a. case a of IfName name \<Rightarrow> name = iface | _ \<Rightarrow> False) (lk_attributes l)"

fun scan_for_link :: "rstr \<Rightarrow> (io_error + link) list \<Rightarrow> peer_error + link option" where
  "scan_for_link iface [] = Inr None"
| "scan_for_link iface (Inl e # ls) = Inl (netlink_error iface e)"
| "scan_for_link iface (Inr l # ls) =
     (if has_name iface l then Inr (Some l) else scan_for_link iface ls)"

definition find_link :: "env \<Rightarrow> rstr \<Rightarrow> link option io" where
  "find_link E iface =
     and_then (dump_links E) (\<lambda>links. lift_res (scan_for_link iface links))"

definition parse_interface_name :: "env \<Rightarrow> rstr \<Rightarrow> peer_error + rstr" where
  "parse_interface_name E iface =
     (if interface_name_ok E iface then Inr iface
      else Inl (Validation ''The interface name is invalid''))"

definition disable_rp_filter_attribute :: "env \<Rightarrow> link_attribute" where
  "disable_rp_filter_attribute E =
     (let IFLA_INET_CONF = 1; IPV4_DEVCONF_RP_FILTER = 8;
          rp_filter = Nla IPV4_DEVCONF_RP_FILTER [0, 0, 0, 0];
          devconf = nla_emit E rp_filter
      in AfSpecInet (Nla (or IFLA_INET_CONF (nla_f_nested E)) devconf))"

definition link_missing :: "rstr \<Rightarrow> rstr \<Rightarrow> peer_error" where
  "link_missing iface text = NetlinkError (IoError NotFoundKind None text) iface"

section \<open>WgManager\<close>

definition ensure_wg_interface :: "env \<Rightarrow> rstr \<Rightarrow> u32 \<Rightarrow> u16 \<Rightarrow> unit io" where
  "ensure_wg_interface E iface peer_id mtu =
     (if mocked E ''MOCK_NETLINK'' then ret () else
      and_then (new_connection E iface) (\<lambda>_.
      and_then (find_link E iface) (\<lambda>existing.
      and_then (if existing = None
                then nl_send E (netlink_error iface) (AddWireguardLink iface)
                else and_then (lift_res (parse_interface_name E iface)) (\<lambda>name.
                     and_then (device_get E name) (\<lambda>_. ret ()))) (\<lambda>_.
      and_then (find_link E iface) (\<lambda>again.
      and_then (lift_res (ok_or
                  (link_missing iface ''The interface disappeared after creation'') again)) (\<lambda>l.
      nl_send E (netlink_error iface) (SetLink (lk_index l)
        \<lparr>ls_mtu = ucast mtu, ls_alias = ''dn42-autopeer:'' @ show_u32 peer_id,
         ls_extra = disable_rp_filter_attribute E, ls_up = True\<rparr>)))))))"

definition is_managed :: "link \<Rightarrow> bool" where
  "is_managed l =
     list_ex (\<lambda>a. case a of IfAlias alias \<Rightarrow> starts_with alias ''dn42-autopeer:'' | _ \<Rightarrow> False)
       (lk_attributes l)"

fun first_name :: "link_attribute list \<Rightarrow> rstr option" where
  "first_name [] = None"
| "first_name (IfName name # as) = Some name"
| "first_name (_ # as) = first_name as"

fun managed_names :: "rstr list \<Rightarrow> (io_error + link) list \<Rightarrow> peer_error + rstr list" where
  "managed_names names [] = Inr names"
| "managed_names names (Inl e # ls) = Inl (netlink_error ''all managed interfaces'' e)"
| "managed_names names (Inr l # ls) =
     (if \<not> is_managed l then managed_names names ls
      else case first_name (lk_attributes l) of
             None \<Rightarrow> managed_names names ls
           | Some name \<Rightarrow> managed_names (names @ [name]) ls)"

definition list_managed_interfaces :: "env \<Rightarrow> rstr list io" where
  "list_managed_interfaces E =
     (if mocked E ''MOCK_NETLINK'' then ret [] else
      and_then (new_connection E ''all managed interfaces'') (\<lambda>_.
      and_then (dump_links E) (\<lambda>links. lift_res (managed_names [] links))))"

definition configure_local_address :: "env \<Rightarrow> rstr \<Rightarrow> ipv6_addr \<Rightarrow> unit io" where
  "configure_local_address E iface address =
     (if mocked E ''MOCK_NETLINK'' then ret () else
      and_then (new_connection E iface) (\<lambda>_.
      and_then (find_link E iface) (\<lambda>found.
      and_then (lift_res (ok_or (link_missing iface ''Interface not found'') found)) (\<lambda>l.
      nl_send E (netlink_error iface) (ReplaceAddress (lk_index l) (IpV6 address) 64)))))"

text \<open>\<open>AllowedIPs\<close>: the link-local prefix and both default prefixes.\<close>

definition allowed_ips :: "(ip_addr \<times> nat) list" where
  "allowed_ips =
     [(IpV6 (Ipv6Addr 0xfe80 0 0 0 0 0 0 0), 64), (IpV6 (Ipv6Addr 0 0 0 0 0 0 0 0), 0),
      (IpV4 0 0, 0)]"

definition configure_peer ::
  "env \<Rightarrow> rstr \<Rightarrow> rstr \<Rightarrow> u16 \<Rightarrow> wg_pubkey \<Rightarrow> socket_addr option \<Rightarrow> unit io" where
  "configure_peer E iface private_key listen_port peer_pubkey endpoint =
     (if mocked E ''MOCK_NETLINK'' then ret () else
      and_then (lift_res (ok_or (Validation ''The local WireGuard private key is invalid'')
                  (key_from_base64 E private_key))) (\<lambda>priv_key.
      and_then (lift_res (ok_or (Validation ''The peer WireGuard public key is invalid'')
                  (key_from_base64 E (as_str peer_pubkey)))) (\<lambda>peer_key.
      and_then (lift_res (parse_interface_name E iface)) (\<lambda>interface_name.
      nl_send E (\<lambda>e. NetlinkError e iface) (ApplyDevice interface_name
        \<lparr>du_private_key = priv_key, du_listen_port = listen_port, du_replace_peers = True,
         du_peers = [\<lparr>pc_public_key = peer_key, pc_endpoint = endpoint,
                      pc_allowed_ips = allowed_ips\<rparr>]\<rparr>)))))"

fun any_device_uses :: "env \<Rightarrow> u16 \<Rightarrow> rstr option \<Rightarrow> rstr list \<Rightarrow> bool io" where
  "any_device_uses E port except_iface [] = ret False"
| "any_device_uses E port except_iface (name # names) =
     (if except_iface = Some name then any_device_uses E port except_iface names
      else and_then (device_get E name) (\<lambda>device.
           if d_listen_port device = Some port then ret True
           else any_device_uses E port except_iface names))"

definition listen_port_in_use :: "env \<Rightarrow> u16 \<Rightarrow> rstr option \<Rightarrow> bool io" where
  "listen_port_in_use E port except_iface =
     (if mocked E ''MOCK_NETLINK'' then ret False else
      and_then (device_list E) (\<lambda>names. any_device_uses E port except_iface names))"

definition delete_interface :: "env \<Rightarrow> rstr \<Rightarrow> unit io" where
  "delete_interface E iface =
     (if mocked E ''MOCK_NETLINK'' then ret () else
      and_then (new_connection E iface) (\<lambda>_.
      and_then (find_link E iface) (\<lambda>found.
      case found of
        Some l \<Rightarrow> nl_send E (netlink_error iface) (DelLink (lk_index l))
      | None \<Rightarrow> ret ())))"

section \<open>Frames\<close>

text \<open>The requests touch nothing but the kernel.\<close>

definition beside_kernel :: "(world \<Rightarrow> 'v) \<Rightarrow> bool" where
  "beside_kernel v = (tick_free v \<and>
     (\<forall>w k l. v (w\<lparr>w_kernel := k, w_nl_log := l\<rparr>) = v w))"

lemma beside_kernel_views [simp]:
  "beside_kernel db_view" "beside_kernel bird_view" "beside_kernel nft_view"
  "beside_kernel w_permits" "beside_kernel w_peers"
  by (simp_all add: beside_kernel_def db_view_def bird_view_def nft_view_def)

lemma keeps_nl_send:
  "quiet E \<Longrightarrow> beside_kernel v \<Longrightarrow> keeps v (nl_send E mk req)"
  unfolding nl_send_def by (rule keeps_ext_call) (simp_all add: beside_kernel_def accept_request_def)

lemma keeps_nl_query:
  assumes "quiet E" "tick_free v"
  shows "keeps v (new_connection E iface)" "keeps v (device_list E)" "keeps v (device_get E name)"
    "keeps v (dump_links E)" "keeps v (find_link E iface)"
proof -
  show "keeps v (new_connection E iface)"
    unfolding new_connection_def by (rule keeps_ext_call[OF assms]) simp
  show "keeps v (device_list E)"
    unfolding device_list_def by (rule keeps_ext_call[OF assms]) simp
  show "keeps v (device_get E name)"
    unfolding device_get_def by (rule keeps_ext_call[OF assms]) (simp split: option.split)
  show dump: "keeps v (dump_links E)"
    using assms unfolding keeps_def dump_links_def Let_def
    by (simp add: await_quiet tick_free_def split: fault.split)
  show "keeps v (find_link E iface)"
    unfolding find_link_def by (intro frame_rules dump)
qed

lemma keeps_any_device_uses:
  "quiet E \<Longrightarrow> tick_free v \<Longrightarrow> keeps v (any_device_uses E port exc names)"
  by (induction names) (auto intro!: frame_rules keeps_nl_query)

lemma netlink_keeps [frame_rules]:
  assumes "quiet E" "beside_kernel v"
  shows "keeps v (ensure_wg_interface E iface pid mtu)" "keeps v (list_managed_interfaces E)"
    "keeps v (configure_local_address E iface address)"
    "keeps v (configure_peer E iface key port pubkey endpoint)"
    "keeps v (listen_port_in_use E port exc)" "keeps v (delete_interface E iface)"
proof -
  have tf: "tick_free v" using assms(2) by (simp add: beside_kernel_def)
  note rules = frame_rules keeps_nl_send[OF assms] keeps_nl_query[OF assms(1) tf]
    keeps_any_device_uses[OF assms(1) tf]
  show "keeps v (ensure_wg_interface E iface pid mtu)"
    unfolding ensure_wg_interface_def by (intro rules)
  show "keeps v (list_managed_interfaces E)"
    unfolding list_managed_interfaces_def by (intro rules)
  show "keeps v (configure_local_address E iface address)"
    unfolding configure_local_address_def by (intro rules)
  show "keeps v (configure_peer E iface key port pubkey endpoint)"
    unfolding configure_peer_def by (intro rules)
  show "keeps v (listen_port_in_use E port exc)"
    unfolding listen_port_in_use_def by (intro rules)
  show "keeps v (delete_interface E iface)"
    unfolding delete_interface_def by (intro rules)
qed

text \<open>An assertion about the rest of the world survives them, whoever else runs.\<close>

lemma preserves_nl_send:
  "stable E I \<Longrightarrow> about v I \<Longrightarrow> beside_kernel v \<Longrightarrow> preserves I (nl_send E mk req)"
  unfolding nl_send_def
  by (rule preserves_ext_call_view[where v = v])
    (simp_all add: beside_kernel_def accept_request_def)

lemma preserves_nl_query:
  assumes "stable E I"
  shows "preserves I (new_connection E iface)" "preserves I (device_list E)"
    "preserves I (device_get E name)" "preserves I (dump_links E)" "preserves I (find_link E iface)"
proof -
  show "preserves I (new_connection E iface)"
    unfolding new_connection_def by (rule preserves_ext_call[OF assms]) simp
  show "preserves I (device_list E)"
    unfolding device_list_def by (rule preserves_ext_call[OF assms]) simp
  show "preserves I (device_get E name)"
    unfolding device_get_def by (rule preserves_ext_call[OF assms]) (simp split: option.split)
  show dump: "preserves I (dump_links E)"
    using assms unfolding preserves_def stable_def dump_links_def Let_def
    by (simp split: fault.split)
  show "preserves I (find_link E iface)"
    unfolding find_link_def by (intro frame_rules dump)
qed

lemma preserves_any_device_uses:
  "stable E I \<Longrightarrow> preserves I (any_device_uses E port exc names)"
  by (induction names) (auto intro!: frame_rules preserves_nl_query)

lemma netlink_preserves:
  assumes "stable E I" "about v I" "beside_kernel v"
  shows "preserves I (ensure_wg_interface E iface pid mtu)"
    "preserves I (list_managed_interfaces E)"
    "preserves I (configure_local_address E iface address)"
    "preserves I (configure_peer E iface key port pubkey endpoint)"
    "preserves I (listen_port_in_use E port exc)" "preserves I (delete_interface E iface)"
proof -
  note rules = frame_rules preserves_nl_send[OF assms] preserves_nl_query[OF assms(1)]
    preserves_any_device_uses[OF assms(1)]
  show "preserves I (ensure_wg_interface E iface pid mtu)"
    unfolding ensure_wg_interface_def by (intro rules)
  show "preserves I (list_managed_interfaces E)"
    unfolding list_managed_interfaces_def by (intro rules)
  show "preserves I (configure_local_address E iface address)"
    unfolding configure_local_address_def by (intro rules)
  show "preserves I (configure_peer E iface key port pubkey endpoint)"
    unfolding configure_peer_def by (intro rules)
  show "preserves I (listen_port_in_use E port exc)"
    unfolding listen_port_in_use_def by (intro rules)
  show "preserves I (delete_interface E iface)"
    unfolding delete_interface_def by (intro rules)
qed

section \<open>What the kernel was asked\<close>

definition accepted :: "env \<Rightarrow> world \<Rightarrow> world \<Rightarrow> nl_request list \<Rightarrow> bool" where
  "accepted E w w' reqs =
     (w_nl_log w' = w_nl_log w @ reqs \<and> w_kernel w' = fold (kernel_apply E) reqs (w_kernel w))"

lemma accepted_refl: "kernel_view w' = kernel_view w \<Longrightarrow> accepted E w w' []"
  by (simp add: accepted_def kernel_view_def)

lemma accepted_trans:
  "accepted E w w1 as \<Longrightarrow> accepted E w1 w2 bs \<Longrightarrow> accepted E w w2 (as @ bs)"
  by (simp add: accepted_def)

lemma accepted_view:
  "accepted E w w' reqs \<Longrightarrow> kernel_view v = kernel_view w \<Longrightarrow> accepted E v w' reqs"
  "accepted E w w' reqs \<Longrightarrow> kernel_view v' = kernel_view w' \<Longrightarrow> accepted E w v' reqs"
  by (simp_all add: accepted_def kernel_view_def)

lemma accepted_kernel: "accepted E w w' [] \<Longrightarrow> w_kernel w' = w_kernel w"
  by (simp add: accepted_def)

lemma nl_send_ok: "quiet E \<Longrightarrow> nl_send E mk req w = (Inr x, w') \<Longrightarrow> accepted E w w' [req]"
  by (auto simp: nl_send_def ext_call_Inr await_quiet accepted_def accept_request_def)

lemma nl_query_ok:
  assumes "quiet E"
  shows "new_connection E iface w = (r1, w1) \<Longrightarrow> accepted E w w1 []"
    "device_get E name w = (r2, w2) \<Longrightarrow> accepted E w w2 []"
    "find_link E iface w = (r3, w3) \<Longrightarrow> accepted E w w3 []"
  using keeps_nl_query[OF assms, of kernel_view] keepsD by (fastforce intro: accepted_refl)+

lemma scan_for_link_ok:
  "scan_for_link iface (map Inr links) = Inr (find (has_name iface) links)"
  "scan_for_link iface (map Inr (take n links) @ [Inl e]) = Inr r \<Longrightarrow>
     r = find (has_name iface) links \<and> r \<noteq> None"
proof -
  show "scan_for_link iface (map Inr links) = Inr (find (has_name iface) links)"
    by (induction links) simp_all
  show "scan_for_link iface (map Inr (take n links) @ [Inl e]) = Inr r \<Longrightarrow>
     r = find (has_name iface) links \<and> r \<noteq> None"
  proof (induction links arbitrary: n)
    case (Cons l links)
    then show ?case by (cases n) (auto split: if_splits)
  qed simp
qed

text \<open>A dump that answers has seen the first link of that name, or every link.\<close>

lemma find_link_ok:
  assumes "quiet E" "find_link E iface w = (Inr r, w')"
  shows "r = find (has_name iface) (k_links (w_kernel w)) \<and> kernel_view w' = kernel_view w"
proof -
  have k: "w_kernel (await E w) = w_kernel w" by (simp add: await_quiet[OF assms(1)])
  obtain links w1 where "dump_links E w = (Inr links, w1)"
    "scan_for_link iface links = Inr r"
    using assms(2) by (auto simp: find_link_def and_then_Inr)
  moreover have "kernel_view w' = kernel_view w"
    using keepsD[OF keeps_nl_query(5)[OF assms(1), of kernel_view] assms(2)] by simp
  ultimately show ?thesis using scan_for_link_ok
    by (auto simp: dump_links_def Let_def k take_map split: fault.splits)
qed

definition set_link_request :: "env \<Rightarrow> u32 \<Rightarrow> u32 \<Rightarrow> u16 \<Rightarrow> nl_request" where
  "set_link_request E index peer_id mtu = SetLink index
     \<lparr>ls_mtu = ucast mtu, ls_alias = ''dn42-autopeer:'' @ show_u32 peer_id,
      ls_extra = disable_rp_filter_attribute E, ls_up = True\<rparr>"

lemma ensure_wg_interface_ok:
  assumes "quiet E" "\<not> mocked E ''MOCK_NETLINK''"
    and run: "ensure_wg_interface E iface peer_id mtu w = (Inr (), w')"
  shows "\<exists>l. let add = (if find (has_name iface) (k_links (w_kernel w)) = None
                      then [AddWireguardLink iface] else [])
    in find (has_name iface) (k_links (fold (kernel_apply E) add (w_kernel w))) = Some l \<and>
       accepted E w w' (add @ [set_link_request E (lk_index l) peer_id mtu])"
proof -
  obtain u u3 w1 existing w2 w3 again w4 l where
    w1: "new_connection E iface w = (Inr u, w1)"
    and w2: "find_link E iface w1 = (Inr existing, w2)"
    and w3: "(if existing = None then nl_send E (netlink_error iface) (AddWireguardLink iface)
              else and_then (lift_res (parse_interface_name E iface)) (\<lambda>name.
                   and_then (device_get E name) (\<lambda>_. ret ()))) w2 = (Inr u3, w3)"
    and w4: "find_link E iface w3 = (Inr again, w4)" and l: "again = Some l"
    and w5: "nl_send E (netlink_error iface) (set_link_request E (lk_index l) peer_id mtu) w4
      = (Inr (), w')"
    using run assms(2)
    unfolding ensure_wg_interface_def set_link_request_def
    by (auto simp only: if_False and_then_Inr lift_res_simp ok_or_Inr prod.inject)
  let ?add = "if existing = None then [AddWireguardLink iface] else []"
  have a1: "accepted E w w1 []" by (rule nl_query_ok(1)[OF assms(1) w1])
  have ex: "existing = find (has_name iface) (k_links (w_kernel w))"
    using find_link_ok[OF assms(1) w2] accepted_kernel[OF a1] by simp
  have a2: "accepted E w1 w2 []" by (rule nl_query_ok(3)[OF assms(1) w2])
  have a3: "accepted E w2 w3 ?add"
  proof (cases "existing = None")
    case True
    with w3 nl_send_ok[OF assms(1)] show ?thesis by simp
  next
    case False
    with w3 have "\<exists>r. device_get E iface w2 = (Inr r, w3)"
      by (auto simp: and_then_Inr parse_interface_name_def split: if_splits)
    with False nl_query_ok(2)[OF assms(1)] show ?thesis by auto
  qed
  have a123: "accepted E w w3 ?add"
    using accepted_trans[OF accepted_trans[OF a1 a2] a3] by simp
  have "find (has_name iface) (k_links (fold (kernel_apply E) ?add (w_kernel w))) = Some l"
    using find_link_ok[OF assms(1) w4] l a123 by (simp add: accepted_def)
  moreover have "accepted E w w' (?add @ [set_link_request E (lk_index l) peer_id mtu])"
    using accepted_trans[OF a123 accepted_trans[OF nl_query_ok(3)[OF assms(1) w4]
      nl_send_ok[OF assms(1) w5]]] by simp
  ultimately show ?thesis unfolding ex Let_def by blast
qed

lemma configure_local_address_ok:
  assumes "quiet E" "\<not> mocked E ''MOCK_NETLINK''"
    and run: "configure_local_address E iface address w = (Inr (), w')"
  shows "\<exists>l. find (has_name iface) (k_links (w_kernel w)) = Some l \<and>
    accepted E w w' [ReplaceAddress (lk_index l) (IpV6 address) 64]"
proof -
  obtain u w1 found w2 l where
    w1: "new_connection E iface w = (Inr u, w1)"
    and w2: "find_link E iface w1 = (Inr found, w2)" and l: "found = Some l"
    and w3: "nl_send E (netlink_error iface) (ReplaceAddress (lk_index l) (IpV6 address) 64) w2
      = (Inr (), w')"
    using run assms(2) unfolding configure_local_address_def
    by (auto simp only: if_False and_then_Inr lift_res_simp ok_or_Inr prod.inject)
  have a1: "accepted E w w1 []" by (rule nl_query_ok(1)[OF assms(1) w1])
  have "find (has_name iface) (k_links (w_kernel w)) = Some l"
    using find_link_ok[OF assms(1) w2] accepted_kernel[OF a1] l by simp
  with accepted_trans[OF a1 accepted_trans[OF nl_query_ok(3)[OF assms(1) w2]
      nl_send_ok[OF assms(1) w3]]]
  show ?thesis by auto
qed

definition device_request ::
  "u8 list \<Rightarrow> u8 list \<Rightarrow> rstr \<Rightarrow> u16 \<Rightarrow> socket_addr option \<Rightarrow> nl_request" where
  "device_request priv_key peer_key iface listen_port endpoint = ApplyDevice iface
     \<lparr>du_private_key = priv_key, du_listen_port = listen_port, du_replace_peers = True,
      du_peers = [\<lparr>pc_public_key = peer_key, pc_endpoint = endpoint,
                   pc_allowed_ips = allowed_ips\<rparr>]\<rparr>"

lemma configure_peer_ok:
  assumes "quiet E" "\<not> mocked E ''MOCK_NETLINK''"
    and run: "configure_peer E iface private_key listen_port pubkey endpoint w = (Inr (), w')"
  shows "\<exists>priv_key peer_key. key_from_base64 E private_key = Some priv_key \<and>
    key_from_base64 E (as_str pubkey) = Some peer_key \<and> interface_name_ok E iface \<and>
    accepted E w w' [device_request priv_key peer_key iface listen_port endpoint]"
  using run assms(2) nl_send_ok[OF assms(1)]
  unfolding configure_peer_def device_request_def
  by (auto simp: and_then_Inr parse_interface_name_def split: if_splits)

lemma delete_interface_ok:
  assumes "quiet E" "\<not> mocked E ''MOCK_NETLINK''"
    and run: "delete_interface E iface w = (Inr (), w')"
  shows "accepted E w w' (case find (has_name iface) (k_links (w_kernel w)) of
     None \<Rightarrow> [] | Some l \<Rightarrow> [DelLink (lk_index l)])"
proof -
  obtain u w1 found w2 where
    w1: "new_connection E iface w = (Inr u, w1)"
    and w2: "find_link E iface w1 = (Inr found, w2)"
    and w3: "(case found of
        Some l \<Rightarrow> nl_send E (netlink_error iface) (DelLink (lk_index l))
      | None \<Rightarrow> ret ()) w2 = (Inr (), w')"
    using run assms(2) unfolding delete_interface_def by (auto simp only: if_False and_then_Inr)
  have a1: "accepted E w w1 []" by (rule nl_query_ok(1)[OF assms(1) w1])
  have found: "found = find (has_name iface) (k_links (w_kernel w))"
    using find_link_ok[OF assms(1) w2] accepted_kernel[OF a1] by simp
  have a2: "accepted E w w2 []"
    using accepted_trans[OF a1 nl_query_ok(3)[OF assms(1) w2]] by simp
  show ?thesis
  proof (cases found)
    case None
    with w3 a2 found show ?thesis by simp
  next
    case (Some l)
    with w3 have "accepted E w2 w' [DelLink (lk_index l)]" using nl_send_ok[OF assms(1)] by simp
    from accepted_trans[OF a2 this] Some show ?thesis by (simp add: found[symmetric])
  qed
qed

text \<open>\<open>listen_port_in_use\<close> looks at every device but the excepted one.\<close>

lemma device_get_ok:
  assumes "quiet E" "device_get E name w = (Inr d, w')"
  shows "find (\<lambda>d. d_name d = name) (k_devices (w_kernel w)) = Some d \<and>
    kernel_view w' = kernel_view w"
proof -
  have "find (\<lambda>d. d_name d = name) (k_devices (w_kernel w)) = Some d"
    using assms(2)
    by (auto simp: device_get_def ext_call_Inr await_quiet[OF assms(1)] split: option.splits)
  moreover have "kernel_view w' = kernel_view w"
    using keepsD[OF keeps_nl_query(3)[OF assms(1), of kernel_view] assms(2)] by simp
  ultimately show ?thesis by simp
qed

lemma any_device_uses_ok:
  assumes "quiet E"
  shows "any_device_uses E port exc names w = (Inr b, w') \<Longrightarrow>
    b = (\<exists>name\<in>set names. exc \<noteq> Some name \<and>
      (\<exists>d. find (\<lambda>d. d_name d = name) (k_devices (w_kernel w)) = Some d \<and>
           d_listen_port d = Some port))"
proof (induction names arbitrary: w)
  case (Cons name names)
  show ?case
  proof (cases "exc = Some name")
    case True
    with Cons show ?thesis by auto
  next
    case False
    then obtain d w1 where d: "device_get E name w = (Inr d, w1)"
      and rest: "(if d_listen_port d = Some port then ret True
        else any_device_uses E port exc names) w1 = (Inr b, w')"
      using Cons.prems by (auto simp: and_then_Inr)
    from device_get_ok[OF assms d]
    have f: "find (\<lambda>d. d_name d = name) (k_devices (w_kernel w)) = Some d"
      and k: "w_kernel w1 = w_kernel w" by (simp_all add: kernel_view_def)
    show ?thesis
    proof (cases "d_listen_port d = Some port")
      case True
      with rest f False show ?thesis by auto
    next
      case nouse: False
      with rest have "any_device_uses E port exc names w1 = (Inr b, w')" by simp
      from Cons.IH[OF this] k f nouse show ?thesis by auto
    qed
  qed
qed simp

lemma find_distinct:
  "distinct (map f xs) \<Longrightarrow> x \<in> set xs \<Longrightarrow> find (\<lambda>y. f y = f x) xs = Some x"
  by (induction xs) (auto simp: image_iff)

lemma listen_port_in_use_ok:
  assumes "quiet E" "\<not> mocked E ''MOCK_NETLINK''" "distinct (map d_name (k_devices (w_kernel w)))"
    and run: "listen_port_in_use E port exc w = (Inr b, w')"
  shows "b = (\<exists>d\<in>set (k_devices (w_kernel w)).
    exc \<noteq> Some (d_name d) \<and> d_listen_port d = Some port)"
proof -
  obtain names w1 where w1: "device_list E w = (Inr names, w1)"
    and use: "any_device_uses E port exc names w1 = (Inr b, w')"
    using run assms(2) by (auto simp: listen_port_in_use_def and_then_Inr)
  have names: "names = map d_name (k_devices (w_kernel w))" and k: "w_kernel w1 = w_kernel w"
    using w1 by (auto simp: device_list_def ext_call_Inr await_quiet[OF assms(1)])
  have found: "\<And>d. d \<in> set (k_devices (w_kernel w)) \<Longrightarrow>
      find (\<lambda>e. d_name e = d_name d) (k_devices (w_kernel w)) = Some d"
    by (rule find_distinct[OF assms(3)])
  show ?thesis
    using any_device_uses_ok[OF assms(1) use] found unfolding names k by fastforce
qed

lemma managed_names_map:
  "managed_names acc (map Inr links) =
     Inr (acc @ List.map_filter (\<lambda>l. if is_managed l then first_name (lk_attributes l) else None) links)"
  by (induction links arbitrary: acc) (auto simp: map_filter_simps split: option.split)

lemma managed_names_error: "managed_names acc (xs @ [Inl e]) \<noteq> Inr names"
proof (induction xs arbitrary: acc)
  case (Cons x xs)
  then show ?case by (cases x) (auto split: option.split)
qed simp




end
