(* ===== verification/Persist.thy ===== *)
theory Persist
  imports Sample "HOL-Library.Multiset"
begin

text \<open>
  \<open>src/persist.rs\<close>: the tables, the SQL statements (with the constraints of the schema and the
  change trigger), and the operations of \<open>PeerStore\<close>. The interface \<open>nonce_ledger\<close> states what
  authentication needs of the nonce table; its client theorem is that a nonce is redeemed at most
  as often as it is issued, whatever the order of the statements.
\<close>

section \<open>Errors of the server\<close>

definition unique_violation :: sqlx_error where
  "unique_violation = SqlxDatabase (Some ''23505'') ''duplicate key value''"

definition string_too_long :: sqlx_error where
  "string_too_long = SqlxDatabase (Some ''22001'') ''value too long''"

definition sequence_exhausted :: sqlx_error where
  "sequence_exhausted = SqlxDatabase (Some ''2200H'') ''nextval: reached maximum value of sequence''"

section \<open>Schema\<close>

text \<open>\<open>VARCHAR(n)\<close>: longer values are refused unless the excess is spaces.\<close>

definition varchar :: "nat \<Rightarrow> rstr \<Rightarrow> rstr option" where
  "varchar n s =
     (let keep = length s - (char_count s - n) in
      if char_count s \<le> n then Some s
      else if list_all (\<lambda>c. c = CHR '' '') (drop keep s) then Some (take keep s)
      else None)"

text \<open>The primary key and the two unique constraints of \<open>peers\<close>.\<close>

definition identity_of :: "('a) peer_cols_scheme \<Rightarrow> int \<times> rstr" where
  "identity_of r = (c_asn r, c_peer_name r)"

definition peers_unique :: "peer_row list \<Rightarrow> bool" where
  "peers_unique rows =
     (distinct (map c_peer_id rows) \<and> distinct (map c_listen_port rows)
      \<and> distinct (map identity_of rows))"

definition conflicts :: "peer_row \<Rightarrow> peer_row list \<Rightarrow> bool" where
  "conflicts r rows =
     list_ex (\<lambda>x. c_peer_id x = c_peer_id r \<or> c_listen_port x = c_listen_port r
                  \<or> identity_of x = identity_of r) rows"

section \<open>The trigger\<close>

text \<open>\<open>autopeer_enqueue_peer_change\<close>: one event with the row's columns, and one notification.\<close>

definition enqueue_peer_change :: "rstr \<Rightarrow> peer_row \<Rightarrow> world \<Rightarrow> world" where
  "enqueue_peer_change op r w =
     w\<lparr>w_events := w_events w @
         [peer_cols.extend (peer_cols.truncate r)
            \<lparr>ev_event_id = w_event_seq w + 1, ev_operation = op\<rparr>],
       w_event_seq := w_event_seq w + 1,
       w_notifies := Suc (w_notifies w)\<rparr>"

section \<open>Statements\<close>

type_synonym 'a statement = "world \<Rightarrow> (sqlx_error + 'a) \<times> world"

definition sql_delete_expired_nonces :: "int \<Rightarrow> nat statement" where
  "sql_delete_expired_nonces now w =
     (Inr (length (filter (\<lambda>n. n_expires_at n < now) (w_nonces w))),
      w\<lparr>w_nonces := filter (\<lambda>n. \<not> n_expires_at n < now) (w_nonces w)\<rparr>)"

definition sql_insert_nonce :: "rstr \<Rightarrow> int \<Rightarrow> int \<Rightarrow> nat statement" where
  "sql_insert_nonce nonce asn expires_at w =
     (if nonce \<in> n_nonce ` set (w_nonces w) then (Inr 0, w)
      else (Inr 1, w\<lparr>w_nonces := w_nonces w @
              [\<lparr>n_nonce = nonce, n_asn = asn, n_expires_at = expires_at\<rparr>]\<rparr>))"

definition nonce_matches :: "rstr \<Rightarrow> int \<Rightarrow> int \<Rightarrow> int \<Rightarrow> nonce_row \<Rightarrow> bool" where
  "nonce_matches nonce asn expires_at now n =
     (n_nonce n = nonce \<and> n_asn n = asn \<and> n_expires_at n = expires_at \<and> n_expires_at n \<ge> now)"

definition sql_consume_nonce :: "rstr \<Rightarrow> int \<Rightarrow> int \<Rightarrow> int \<Rightarrow> nat statement" where
  "sql_consume_nonce nonce asn expires_at now w =
     (Inr (length (filter (nonce_matches nonce asn expires_at now) (w_nonces w))),
      w\<lparr>w_nonces :=
          filter (\<lambda>n. \<not> nonce_matches nonce asn expires_at now n) (w_nonces w)\<rparr>)"

definition sql_nextval_peer_id :: "int statement" where
  "sql_nextval_peer_id w =
     (if w_peer_seq w \<ge> 2147483647 then (Inl sequence_exhausted, w)
      else (Inr (w_peer_seq w + 1), w\<lparr>w_peer_seq := w_peer_seq w + 1\<rparr>))"

definition sql_insert_peer :: "peer_row \<Rightarrow> nat statement" where
  "sql_insert_peer r w =
     (case varchar 32 (c_peer_name r) of
        None \<Rightarrow> (Inl string_too_long, w)
      | Some name \<Rightarrow>
          (let r = r\<lparr>c_peer_name := name\<rparr> in
           if conflicts r (w_peers w) then (Inr 0, w)
           else (Inr 1,
                 enqueue_peer_change ''INSERT'' r (w\<lparr>w_peers := w_peers w @ [r]\<rparr>))))"

text \<open>An \<open>UPDATE peers SET ... WHERE peer_id = $1\<close> and its row trigger.\<close>

definition sql_update_peer :: "(peer_row \<Rightarrow> peer_row) \<Rightarrow> int \<Rightarrow> nat statement" where
  "sql_update_peer f pid w =
     (let rows = map (\<lambda>r. if c_peer_id r = pid then f r else r) (w_peers w);
          hit = filter (\<lambda>r. c_peer_id r = pid) (w_peers w)
      in if \<not> peers_unique rows then (Inl unique_violation, w)
         else (Inr (length hit),
               fold (\<lambda>r. enqueue_peer_change ''UPDATE'' (f r)) hit (w\<lparr>w_peers := rows\<rparr>)))"

definition sql_delete_peer :: "int \<Rightarrow> nat statement" where
  "sql_delete_peer pid w =
     (let hit = filter (\<lambda>r. c_peer_id r = pid) (w_peers w)
      in (Inr (length hit),
          fold (enqueue_peer_change ''DELETE'') hit
            (w\<lparr>w_peers := filter (\<lambda>r. c_peer_id r \<noteq> pid) (w_peers w)\<rparr>)))"

definition sql_delete_event :: "int \<Rightarrow> nat statement" where
  "sql_delete_event eid w =
     (Inr (length (filter (\<lambda>e. ev_event_id e = eid) (w_events w))),
      w\<lparr>w_events := filter (\<lambda>e. ev_event_id e \<noteq> eid) (w_events w)\<rparr>)"

definition sql_select :: "(world \<Rightarrow> 'a) \<Rightarrow> 'a statement" where
  "sql_select f w = (Inr (f w), w)"

text \<open>\<open>ORDER BY asn, peer_name\<close>, where names compare by the database's collation.\<close>

definition row_before :: "(rstr \<Rightarrow> rstr \<Rightarrow> bool) \<Rightarrow> peer_row \<Rightarrow> peer_row \<Rightarrow> bool" where
  "row_before le r x =
     (c_asn r < c_asn x \<or> c_asn r = c_asn x \<and> le (c_peer_name r) (c_peer_name x))"

fun insert_row :: "(rstr \<Rightarrow> rstr \<Rightarrow> bool) \<Rightarrow> peer_row \<Rightarrow> peer_row list \<Rightarrow> peer_row list" where
  "insert_row le r [] = [r]"
| "insert_row le r (x # xs) = (if row_before le r x then r # x # xs else x # insert_row le r xs)"

definition order_rows :: "(rstr \<Rightarrow> rstr \<Rightarrow> bool) \<Rightarrow> peer_row list \<Rightarrow> peer_row list" where
  "order_rows le rows = foldr (insert_row le) rows []"

section \<open>Connections and transactions\<close>

definition acquire :: "env \<Rightarrow> unit io" where
  "acquire E = ext_call E (db_fault E) Database (\<lambda>w. (Inr (), w))"

definition execute :: "env \<Rightarrow> 'a statement \<Rightarrow> 'a io" where
  "execute E q = ext_call E (db_fault E) Database q"

definition read_clock :: "env \<Rightarrow> int io" where
  "read_clock E = (\<lambda>w. (Inr (unix_timestamp E w), w))"

text \<open>
  \<open>begin\<close>, a statement and \<open>commit\<close> or \<open>rollback\<close>. What the statement writes is visible to
  nobody until the commit, and an error drops the transaction; only the sequences keep their new
  values. PostgreSQL's unique indexes make concurrent writers of the same keys wait, so no
  interference is admitted between the statement and the end of the transaction.
\<close>

definition tx_call :: "env \<Rightarrow> 'a statement \<Rightarrow> 'a io" where
  "tx_call E q w = ext_call (E\<lparr>interfere := \<lambda>_ w. w\<rparr>) (db_fault E) Database q w"

definition tx_begin :: "env \<Rightarrow> unit io" where
  "tx_begin E = ext_call E (db_fault E) Database (\<lambda>w. (Inr (), w))"

definition tx_execute :: "env \<Rightarrow> 'a statement \<Rightarrow> ('a \<times> world) io" where
  "tx_execute E q =
     tx_call E (\<lambda>w. case q w of
        (Inl e, w') \<Rightarrow> (Inl e, w\<lparr>w_event_seq := w_event_seq w'\<rparr>)
      | (Inr n, w') \<Rightarrow> (Inr (n, w'), w\<lparr>w_event_seq := w_event_seq w'\<rparr>))"

definition tx_commit :: "env \<Rightarrow> world \<Rightarrow> unit io" where
  "tx_commit E pending =
     tx_call E (\<lambda>w. (Inr (), w\<lparr>w_peers := w_peers pending, w_events := w_events pending,
                               w_event_seq := w_event_seq pending,
                               w_notifies := w_notifies pending\<rparr>))"

definition tx_rollback :: "env \<Rightarrow> unit io" where
  "tx_rollback E = tx_call E (\<lambda>w. (Inr (), w))"

section \<open>Rows\<close>

text \<open>What the statements bind: \<open>peer_id as i32\<close>, \<open>asn as i64\<close>, the printed addresses.\<close>

definition peer_to_cols :: "peer \<Rightarrow> rstr \<Rightarrow> peer_cols" where
  "peer_to_cols p status =
     \<lparr>c_peer_id = sint (p_peer_id p), c_asn = uint (p_asn p), c_peer_name = p_peer_name p,
      c_iface_name = p_iface_name p, c_pubkey = as_str (p_pubkey p), c_endpoint = p_endpoint p,
      c_local_ll_ip = show_ipv6 (p_local_ll_ip p), c_remote_ll_ip = show_ipv6 (p_remote_ll_ip p),
      c_status = status, c_listen_port = uint (p_listen_port p), c_mtu = uint (p_mtu p)\<rparr>"

definition in_word_range :: "nat \<Rightarrow> int \<Rightarrow> bool" where
  "in_word_range bits i = (0 \<le> i \<and> i < 2 ^ bits)"

definition row_to_peer :: "b64_decoder \<Rightarrow> 'a peer_cols_scheme \<Rightarrow> peer_error + peer" where
  "row_to_peer decode row =
     (if \<not> in_word_range 32 (c_peer_id row)
      then Inl (Validation ''The database contains an invalid peer ID'')
      else if \<not> in_word_range 32 (c_asn row)
      then Inl (Validation ''The database contains an invalid ASN'')
      else let asn = (of_int (c_asn row) :: u32) in
        res_bind (pubkey_try_from decode (c_pubkey row)) (\<lambda>pubkey.
        res_bind (ok_or (Validation (''The database contains an invalid local address for AS''
                    @ show_u32 asn))
                  (parse_ipv6 (c_local_ll_ip row))) (\<lambda>local_ll_ip.
        res_bind (ok_or (Validation (''The database contains an invalid remote address for AS''
                    @ show_u32 asn))
                  (parse_ipv6 (c_remote_ll_ip row))) (\<lambda>remote_ll_ip.
        if \<not> in_word_range 16 (c_listen_port row)
        then Inl (Validation (''The database contains an invalid listen port for AS''
               @ show_u32 asn))
        else Inr
          \<lparr>p_peer_id = of_int (c_peer_id row), p_peer_name = c_peer_name row,
           p_iface_name = c_iface_name row, p_asn = asn, p_pubkey = pubkey,
           p_endpoint = c_endpoint row, p_local_ll_ip = local_ll_ip,
           p_remote_ll_ip = remote_ll_ip, p_status = str_to_status (c_status row),
           p_listen_port = of_int (c_listen_port row),
           p_mtu = (if in_word_range 16 (c_mtu row) then of_int (c_mtu row) else 1420)\<rparr>))))"

section \<open>PeerStore\<close>

definition insert_nonce :: "env \<Rightarrow> u32 \<Rightarrow> rstr \<Rightarrow> int \<Rightarrow> bool io" where
  "insert_nonce E asn nonce expires_at =
     and_then (acquire E) (\<lambda>_.
     and_then (read_clock E) (\<lambda>now.
     and_then (execute E (sql_delete_expired_nonces now)) (\<lambda>_.
     and_then (execute E (sql_insert_nonce nonce (uint asn) expires_at)) (\<lambda>n.
     ret (n = 1)))))"

definition consume_nonce :: "env \<Rightarrow> u32 \<Rightarrow> rstr \<Rightarrow> int \<Rightarrow> bool io" where
  "consume_nonce E asn nonce expires_at =
     and_then (acquire E) (\<lambda>_.
     and_then (read_clock E) (\<lambda>now.
     and_then (execute E (sql_consume_nonce nonce (uint asn) expires_at now)) (\<lambda>n.
     ret (n = 1))))"

text \<open>The row that \<open>reserve_peer\<close> inserts.\<close>

definition reserved_row :: "peer \<Rightarrow> int \<Rightarrow> peer_row" where
  "reserved_row p now =
     peer_cols.extend (peer_to_cols p ''provisioning'') \<lparr>r_created_at = now, r_updated_at = now\<rparr>"

definition db_reserve_peer :: "env \<Rightarrow> peer \<Rightarrow> bool \<Rightarrow> bool io" where
  "db_reserve_peer E p test =
     and_then (acquire E) (\<lambda>_.
     and_then (tx_begin E) (\<lambda>_.
     and_then (read_clock E) (\<lambda>now.
     and_then (tx_execute E (sql_insert_peer (reserved_row p now))) (\<lambda>(n, pending).
     and_then (if test then tx_rollback E else tx_commit E pending) (\<lambda>_.
     ret (n = 1))))))"

definition allocate_peer_id :: "env \<Rightarrow> u32 io" where
  "allocate_peer_id E =
     and_then (acquire E) (\<lambda>_.
     and_then (execute E sql_nextval_peer_id) (\<lambda>peer_id.
     if in_word_range 32 peer_id then ret (of_int peer_id)
     else throw (Validation ''The peer ID sequence is exhausted'')))"

text \<open>The columns that \<open>UPDATE peers SET ...\<close> of \<open>update_peer_desired\<close> writes.\<close>

definition desired_columns :: "peer \<Rightarrow> int \<Rightarrow> peer_row \<Rightarrow> peer_row" where
  "desired_columns p now r =
     r\<lparr>c_iface_name := p_iface_name p, c_pubkey := as_str (p_pubkey p),
       c_endpoint := p_endpoint p, c_local_ll_ip := show_ipv6 (p_local_ll_ip p),
       c_remote_ll_ip := show_ipv6 (p_remote_ll_ip p), c_status := ''provisioning'',
       c_listen_port := uint (p_listen_port p), c_mtu := uint (p_mtu p), r_updated_at := now\<rparr>"

definition update_peer_desired :: "env \<Rightarrow> peer \<Rightarrow> bool io" where
  "update_peer_desired E p =
     and_then (acquire E) (\<lambda>_.
     and_then (read_clock E) (\<lambda>now.
     and_then (execute E (sql_update_peer (desired_columns p now) (sint (p_peer_id p)))) (\<lambda>n.
     ret (n = 1))))"

definition set_status :: "env \<Rightarrow> u32 \<Rightarrow> peer_status \<Rightarrow> bool io" where
  "set_status E peer_id st =
     and_then (acquire E) (\<lambda>_.
     and_then (read_clock E) (\<lambda>now.
     and_then (execute E (sql_update_peer
       (\<lambda>r. r\<lparr>c_status := status_to_str st, r_updated_at := now\<rparr>) (sint peer_id))) (\<lambda>n.
     ret (n = 1))))"

definition db_delete_peer :: "env \<Rightarrow> u32 \<Rightarrow> bool io" where
  "db_delete_peer E peer_id =
     and_then (acquire E) (\<lambda>_.
     and_then (execute E (sql_delete_peer (sint peer_id))) (\<lambda>n.
     ret (n > 0)))"

definition peer_exists :: "env \<Rightarrow> u32 \<Rightarrow> rstr \<Rightarrow> bool io" where
  "peer_exists E asn peer_name =
     and_then (acquire E) (\<lambda>_.
     execute E (sql_select (\<lambda>w. list_ex (\<lambda>r. identity_of r = (uint asn, peer_name)) (w_peers w))))"

definition get_peer :: "env \<Rightarrow> u32 \<Rightarrow> rstr \<Rightarrow> peer option io" where
  "get_peer E asn peer_name =
     and_then (acquire E) (\<lambda>_.
     and_then (execute E (sql_select
       (\<lambda>w. find (\<lambda>r. identity_of r = (uint asn, peer_name)) (w_peers w)))) (\<lambda>row.
     case row of
       None \<Rightarrow> ret None
     | Some r \<Rightarrow> and_then (lift_res (row_to_peer (b64_decode E) r)) (\<lambda>p. ret (Some p))))"

definition get_peer_by_id :: "env \<Rightarrow> u32 \<Rightarrow> peer option io" where
  "get_peer_by_id E peer_id =
     and_then (acquire E) (\<lambda>_.
     and_then (execute E (sql_select
       (\<lambda>w. find (\<lambda>r. c_peer_id r = sint peer_id) (w_peers w)))) (\<lambda>row.
     case row of
       None \<Rightarrow> ret None
     | Some r \<Rightarrow> and_then (lift_res (row_to_peer (b64_decode E) r)) (\<lambda>p. ret (Some p))))"

definition list_peers :: "env \<Rightarrow> peer list io" where
  "list_peers E =
     and_then (acquire E) (\<lambda>_.
     and_then (execute E (sql_select (\<lambda>w. order_rows (collation E) (w_peers w)))) (\<lambda>rows.
     lift_res (collect_results (row_to_peer (b64_decode E)) rows)))"

record peer_info =
  pi_peer_name :: rstr
  pi_pubkey :: rstr
  pi_endpoint :: "rstr option"
  pi_local_ll_ip :: rstr
  pi_remote_ll_ip :: rstr
  pi_status :: rstr
  pi_listen_port :: u16
  pi_mtu :: u16
  pi_created_at :: int
  pi_updated_at :: int

definition get_peer_infos_by_asn :: "env \<Rightarrow> u32 \<Rightarrow> peer_info list io" where
  "get_peer_infos_by_asn E asn =
     and_then (acquire E) (\<lambda>_.
     and_then (execute E (sql_select (\<lambda>w. order_rows (collation E)
       (filter (\<lambda>r. c_asn r = uint asn) (w_peers w))))) (\<lambda>rows.
     ret (map (\<lambda>row.
       \<lparr>pi_peer_name = c_peer_name row, pi_pubkey = c_pubkey row, pi_endpoint = c_endpoint row,
        pi_local_ll_ip = c_local_ll_ip row, pi_remote_ll_ip = c_remote_ll_ip row,
        pi_status = c_status row, pi_listen_port = of_int (c_listen_port row),
        pi_mtu = of_int (c_mtu row), pi_created_at = r_created_at row,
        pi_updated_at = r_updated_at row\<rparr>) rows)))"

record peer_change =
  ch_event_id :: int
  ch_operation :: rstr
  ch_peer :: peer

definition list_peer_changes :: "env \<Rightarrow> peer_change list io" where
  "list_peer_changes E =
     and_then (acquire E) (\<lambda>_.
     and_then (execute E (sql_select (\<lambda>w. sort_key ev_event_id (w_events w)))) (\<lambda>rows.
     lift_res (collect_results (\<lambda>row.
       res_bind (row_to_peer (b64_decode E) row) (\<lambda>p.
         Inr \<lparr>ch_event_id = ev_event_id row, ch_operation = ev_operation row, ch_peer = p\<rparr>)) rows)))"

definition delete_peer_change :: "env \<Rightarrow> int \<Rightarrow> bool io" where
  "delete_peer_change E event_id =
     and_then (acquire E) (\<lambda>_.
     and_then (execute E (sql_delete_event event_id)) (\<lambda>n.
     ret (n = 1)))"

section \<open>Rows and peers\<close>

lemma desired_columns_keep [simp]:
  "c_peer_name (desired_columns p now r) = c_peer_name r"
  "c_peer_id (desired_columns p now r) = c_peer_id r"
  "c_asn (desired_columns p now r) = c_asn r"
  by (simp_all add: desired_columns_def)

text \<open>Reading a row only looks at the shared columns.\<close>

lemma row_to_peer_cong:
  "peer_cols.truncate r = peer_cols.truncate r' \<Longrightarrow> row_to_peer decode r = row_to_peer decode r'"
proof -
  assume same: "peer_cols.truncate r = peer_cols.truncate r'"
  have cols: "c_peer_id r = c_peer_id r'" "c_asn r = c_asn r'" "c_peer_name r = c_peer_name r'"
    "c_iface_name r = c_iface_name r'" "c_pubkey r = c_pubkey r'" "c_endpoint r = c_endpoint r'"
    "c_local_ll_ip r = c_local_ll_ip r'" "c_remote_ll_ip r = c_remote_ll_ip r'"
    "c_status r = c_status r'" "c_listen_port r = c_listen_port r'" "c_mtu r = c_mtu r'"
    using same unfolding peer_cols.truncate_def by (simp_all only: peer_cols.iffs)
  show ?thesis unfolding row_to_peer_def cols ..
qed

lemma row_to_peer_truncate [simp]:
  "row_to_peer decode (peer_cols.truncate r) = row_to_peer decode r"
  "row_to_peer decode (peer_cols.extend (peer_cols.truncate r) ext) = row_to_peer decode r"
  by (rule row_to_peer_cong; simp add: peer_cols.defs)+

lemma row_to_peer_status:
  assumes "row_to_peer decode r = Inr p"
  shows "row_to_peer decode (r\<lparr>c_status := s, r_updated_at := t\<rparr>) = Inr (p\<lparr>p_status := str_to_status s\<rparr>)"
  using assms by (auto simp: row_to_peer_def Let_def res_bind_Inr split: if_splits)

text \<open>What a row that reads back says.\<close>

lemma row_to_peer_fields:
  assumes "row_to_peer decode r = Inr p"
  shows "p_peer_id p = of_int (c_peer_id r)" "p_asn p = of_int (c_asn r)"
    "p_peer_name p = c_peer_name r" "p_iface_name p = c_iface_name r"
    "as_str (p_pubkey p) = c_pubkey r" "valid_pubkey decode (p_pubkey p)"
    "p_endpoint p = c_endpoint r" "p_status p = str_to_status (c_status r)"
    "p_listen_port p = of_int (c_listen_port r)"
    "parse_ipv6 (c_local_ll_ip r) = Some (p_local_ll_ip p)"
    "parse_ipv6 (c_remote_ll_ip r) = Some (p_remote_ll_ip p)"
    "in_word_range 32 (c_peer_id r)" "in_word_range 32 (c_asn r)" "in_word_range 16 (c_listen_port r)"
  using assms unfolding row_to_peer_def Let_def
  by (auto simp: res_bind_Inr pubkey_try_from_ok split: if_splits)

lemma str_to_status_desired:
  "desired_status (str_to_status s) \<longleftrightarrow> s \<noteq> ''deleting'' \<and> s \<noteq> ''disabled''"
  unfolding str_to_status_def desired_status_def by (simp split: if_splits)

text \<open>A peer whose key was validated and whose id came from the sequence survives the table.\<close>

definition storable :: "b64_decoder \<Rightarrow> peer \<Rightarrow> bool" where
  "storable decode p = (valid_pubkey decode (p_pubkey p) \<and> uint (p_peer_id p) < 2 ^ 31)"

lemma sint_small: "uint (x :: u32) < 2 ^ 31 \<Longrightarrow> sint x = uint x"
  by (subst sint_uint, rule signed_take_bit_int_eq_self) (simp_all add: order_trans[of _ 0])

lemma sint_large:
  assumes "uint (x :: u32) \<ge> 2 ^ 31"
  shows "sint x < 0"
proof -
  have lt: "uint x < 2 ^ 32" using uint_lt2p[of x] by simp
  have "(uint x + 2 ^ 31) mod 2 ^ 32 = (uint x + 2 ^ 31 - 2 ^ 32) mod 2 ^ 32"
    by (rule sym, rule minus_mod_self2)
  also have "\<dots> = uint x + 2 ^ 31 - 2 ^ 32"
    using assms lt by (intro mod_pos_pos_trivial) auto
  finally show ?thesis using lt
    by (simp add: sint_uint signed_take_bit_eq_take_bit_shift take_bit_eq_mod)
qed

lemma of_int_uint_word: "of_int (uint (x :: 'a::len word)) = x"
  by simp

lemma in_range_uint:
  "in_word_range 32 (uint (x :: u32))" "in_word_range 16 (uint (y :: u16))"
  using uint_lt2p[of x] uint_lt2p[of y] by (simp_all add: in_word_range_def)

lemma row_to_peer_cols:
  assumes "storable decode p"
  shows "row_to_peer decode (peer_to_cols p st) = Inr (p\<lparr>p_status := str_to_status st\<rparr>)"
  using assms in_range_uint
  by (simp add: row_to_peer_def peer_to_cols_def storable_def sint_small ipv6_text.prs_shw Let_def)

section \<open>The statements\<close>

fun new_events :: "rstr \<Rightarrow> int \<Rightarrow> peer_row list \<Rightarrow> event_row list" where
  "new_events op k [] = []"
| "new_events op k (r # rs) =
     peer_cols.extend (peer_cols.truncate r) \<lparr>ev_event_id = k + 1, ev_operation = op\<rparr>
       # new_events op (k + 1) rs"

lemma enqueue_fold:
  "fold (\<lambda>r. enqueue_peer_change op (f r)) rows w =
     w\<lparr>w_events := w_events w @ new_events op (w_event_seq w) (map f rows),
       w_event_seq := w_event_seq w + int (length rows),
       w_notifies := w_notifies w + length rows\<rparr>"
  by (induction rows arbitrary: w) (simp_all add: enqueue_peer_change_def)

lemma enqueue_fold_id:
  "fold (enqueue_peer_change op) rows w =
     w\<lparr>w_events := w_events w @ new_events op (w_event_seq w) rows,
       w_event_seq := w_event_seq w + int (length rows),
       w_notifies := w_notifies w + length rows\<rparr>"
  using enqueue_fold[of op id rows w] by (simp add: id_def)

lemma ev_event_id_extend [simp]:
  "ev_event_id (peer_cols.extend c \<lparr>ev_event_id = k, ev_operation = op\<rparr>) = k"
  "ev_operation (peer_cols.extend c \<lparr>ev_event_id = k, ev_operation = op\<rparr>) = op"
  by (simp_all add: peer_cols.defs)

lemma new_events_ids:
  "map ev_event_id (new_events op k rows) = map (\<lambda>i. k + 1 + int i) [0 ..< length rows]"
proof (induction rows arbitrary: k)
  case (Cons r rows)
  have "map (\<lambda>i. k + 1 + int i) [0 ..< Suc (length rows)]
      = (k + 1) # map (\<lambda>i. k + 1 + 1 + int i) [0 ..< length rows]"
    by (simp add: upt_conv_Cons map_Suc_upt[symmetric] del: upt_Suc map_Suc_upt)
  with Cons show ?case by simp
qed simp

definition events_ok :: "int \<Rightarrow> event_row list \<Rightarrow> bool" where
  "events_ok seq es =
     (sorted_wrt (<) (map ev_event_id es) \<and> (\<forall>e\<in>set es. ev_event_id e \<le> seq))"

lemma new_events_range:
  "e \<in> set (new_events op k rows) \<Longrightarrow> k < ev_event_id e \<and> ev_event_id e \<le> k + int (length rows)"
proof -
  assume "e \<in> set (new_events op k rows)"
  then have "ev_event_id e \<in> set (map ev_event_id (new_events op k rows))" by simp
  then show ?thesis unfolding new_events_ids by auto
qed

lemma events_ok_append:
  assumes "events_ok k es"
  shows "events_ok (k + int (length rows)) (es @ new_events op k rows)"
proof -
  have "sorted_wrt (<) (map ev_event_id (new_events op k rows))"
    unfolding new_events_ids by (simp add: sorted_wrt_map)
  moreover have "\<forall>e\<in>set es. \<forall>e'\<in>set (new_events op k rows). ev_event_id e < ev_event_id e'"
    using assms new_events_range by (fastforce simp: events_ok_def)
  moreover have "\<forall>e\<in>set es. ev_event_id e \<le> k + int (length rows)"
    using assms by (fastforce simp: events_ok_def)
  ultimately show ?thesis
    using assms new_events_range by (auto simp: events_ok_def sorted_wrt_append)
qed

lemma events_ok_filter: "events_ok k es \<Longrightarrow> events_ok k (filter P es)"
  by (auto simp: events_ok_def sorted_wrt_map sorted_wrt_filter)

section \<open>The invariant of the tables\<close>

definition db_inv :: "world \<Rightarrow> bool" where
  "db_inv w =
     (peers_unique (w_peers w) \<and> distinct (map n_nonce (w_nonces w))
      \<and> events_ok (w_event_seq w) (w_events w)
      \<and> (\<forall>r\<in>set (w_peers w). char_count (c_peer_name r) \<le> 32))"

lemma db_inv_about: "about db_view db_inv"
  by (simp add: about_def db_view_def db_inv_def)

lemma peers_unique_filter: "peers_unique rows \<Longrightarrow> peers_unique (filter P rows)"
  by (auto simp: peers_unique_def distinct_map_filter)

lemma peers_unique_snoc:
  "peers_unique rows \<Longrightarrow> \<not> conflicts r rows \<Longrightarrow> peers_unique (rows @ [r])"
  by (auto simp: peers_unique_def conflicts_def list_ex_iff)

lemma varchar_bound: "varchar n s = Some t \<Longrightarrow> char_count t \<le> n"
proof -
  assume vc: "varchar n s = Some t"
  let ?keep = "length s - (char_count s - n)"
  show ?thesis
  proof (cases "char_count s \<le> n")
    case True
    with vc show ?thesis by (simp add: varchar_def)
  next
    case False
    with vc have spaces: "list_all (\<lambda>c. c = CHR '' '') (drop ?keep s)" and t: "t = take ?keep s"
      unfolding varchar_def Let_def by (simp_all only: if_False split: if_splits, simp_all)
    have "char_count (drop ?keep s) = length (drop ?keep s)"
    proof (rule char_count_ascii, rule ballI)
      fix c assume "c \<in> set (drop ?keep s)"
      with spaces have "c = CHR '' ''" unfolding list_all_iff by blast
      then show "byte c < 128" by (simp only:) (simp add: byte_def)
    qed
    moreover have "char_count s = char_count (take ?keep s) + char_count (drop ?keep s)"
      unfolding char_count_def by (metis append_take_drop_id filter_append length_append)
    moreover have "char_count s \<le> length s" by (simp add: char_count_def)
    ultimately show ?thesis using t False by simp
  qed
qed

lemma varchar_id: "char_count s \<le> n \<Longrightarrow> varchar n s = Some s"
  by (simp add: varchar_def)

lemma db_invD:
  assumes "db_inv w"
  shows "peers_unique (w_peers w)" "distinct (map n_nonce (w_nonces w))"
    "events_ok (w_event_seq w) (w_events w)"
    "\<forall>r\<in>set (w_peers w). char_count (c_peer_name r) \<le> 32"
  using assms unfolding db_inv_def by blast+

lemma db_inv_enqueue:
  assumes "peers_unique (w_peers w)" "distinct (map n_nonce (w_nonces w))"
    "events_ok (w_event_seq w) (w_events w)"
    "\<forall>r\<in>set (w_peers w). char_count (c_peer_name r) \<le> 32"
  shows "db_inv (fold (\<lambda>r. enqueue_peer_change op (f r)) rows w)"
proof -
  have "events_ok (w_event_seq w + int (length rows))
          (w_events w @ new_events op (w_event_seq w) (map f rows))"
    using events_ok_append[OF assms(3), of "map f rows" op] by (simp only: length_map)
  then show ?thesis using assms(1,2,4) unfolding enqueue_fold db_inv_def by simp
qed

lemma sql_insert_peer_inv:
  assumes "db_inv w"
  shows "db_inv (snd (sql_insert_peer r w))"
proof (cases "varchar 32 (c_peer_name r)")
  case None
  with assms show ?thesis by (simp add: sql_insert_peer_def)
next
  case (Some name)
  let ?r = "r\<lparr>c_peer_name := name\<rparr>"
  show ?thesis
  proof (cases "conflicts ?r (w_peers w)")
    case True
    with Some assms show ?thesis by (simp add: sql_insert_peer_def)
  next
    case False
    have "db_inv (fold (\<lambda>r. enqueue_peer_change ''INSERT'' (id r)) [?r]
            (w\<lparr>w_peers := w_peers w @ [?r]\<rparr>))"
      using db_invD[OF assms] peers_unique_snoc[OF _ False] varchar_bound[OF Some]
      by (intro db_inv_enqueue) auto
    with Some False show ?thesis by (simp add: sql_insert_peer_def Let_def)
  qed
qed

lemma sql_update_peer_inv:
  assumes "db_inv w" "\<And>r. c_peer_name (f r) = c_peer_name r"
  shows "db_inv (snd (sql_update_peer f pid w))"
proof -
  let ?rows = "map (\<lambda>r. if c_peer_id r = pid then f r else r) (w_peers w)"
  let ?hit = "filter (\<lambda>r. c_peer_id r = pid) (w_peers w)"
  show ?thesis
  proof (cases "peers_unique ?rows")
    case True
    have "db_inv (fold (\<lambda>r. enqueue_peer_change ''UPDATE'' (f r)) ?hit (w\<lparr>w_peers := ?rows\<rparr>))"
      using db_invD[OF assms(1)] True assms(2) by (intro db_inv_enqueue) auto
    with True show ?thesis unfolding sql_update_peer_def Let_def by simp
  next
    case False
    with assms(1) show ?thesis unfolding sql_update_peer_def Let_def by simp
  qed
qed

lemma sql_delete_peer_inv:
  assumes "db_inv w"
  shows "db_inv (snd (sql_delete_peer pid w))"
proof -
  let ?hit = "filter (\<lambda>r. c_peer_id r = pid) (w_peers w)"
  have "db_inv (fold (\<lambda>r. enqueue_peer_change ''DELETE'' (id r)) ?hit
          (w\<lparr>w_peers := filter (\<lambda>r. c_peer_id r \<noteq> pid) (w_peers w)\<rparr>))"
    using db_invD[OF assms] peers_unique_filter by (intro db_inv_enqueue) auto
  then show ?thesis unfolding sql_delete_peer_def Let_def id_def by simp
qed

lemma sql_nonce_inv:
  "db_inv w \<Longrightarrow> db_inv (snd (sql_insert_nonce nonce asn t w))"
  "db_inv w \<Longrightarrow> db_inv (snd (sql_consume_nonce nonce asn t now w))"
  "db_inv w \<Longrightarrow> db_inv (snd (sql_delete_expired_nonces now w))"
  unfolding sql_insert_nonce_def sql_consume_nonce_def sql_delete_expired_nonces_def db_inv_def
  by (simp_all add: distinct_map_filter)

lemma sql_other_inv:
  "db_inv w \<Longrightarrow> db_inv (snd (sql_delete_event eid w))"
  "db_inv w \<Longrightarrow> db_inv (snd (sql_nextval_peer_id w))"
  "db_inv w \<Longrightarrow> db_inv (snd (sql_select f w))"
  unfolding sql_delete_event_def sql_nextval_peer_id_def sql_select_def db_inv_def
  by (simp_all add: events_ok_filter)

section \<open>The operations keep the invariant\<close>

text \<open>
  The environment must keep the invariant too: other tasks and administrators go through the same
  constraints.
\<close>

lemma preserves_execute:
  assumes "stable E I" "\<And>w. I w \<Longrightarrow> I (snd (q w))"
  shows "preserves I (execute E q)"
  unfolding execute_def by (rule preserves_ext_call[OF assms])

lemma preserves_acquire [frame_rules]: "stable E I \<Longrightarrow> preserves I (acquire E)"
  unfolding acquire_def by (rule preserves_ext_call) simp_all

lemma preserves_read_clock [frame_rules]: "preserves I (read_clock E)"
  by (simp add: preserves_def read_clock_def)

lemma read_clock_and_then: "and_then (read_clock E) f w = f (unix_timestamp E w) w"
  by (simp add: and_then_def read_clock_def)

lemma preserves_tx_begin [frame_rules]: "stable E I \<Longrightarrow> preserves I (tx_begin E)"
  unfolding tx_begin_def by (rule preserves_ext_call) simp_all

lemma tx_call_run:
  "tx_call E q w =
     (let w1 = w\<lparr>w_tick := Suc (w_tick w)\<rparr> in
      case db_fault E (w_tick w) of
        NoFault \<Rightarrow> (case q w1 of (r, w2) \<Rightarrow> (map_err Database r, w2))
      | FailClean e \<Rightarrow> (Inl (Database e), w1)
      | FailDirty e \<Rightarrow> (Inl (Database e), snd (q w1)))"
  by (simp add: tx_call_def ext_call_def Let_def await_def)

lemma db_inv_tick [simp]: "db_inv (w\<lparr>w_tick := n\<rparr>) = db_inv w"
  by (rule aboutD[OF db_inv_about]) (simp add: db_view_def)

lemma events_ok_mono: "events_ok k es \<Longrightarrow> k \<le> k' \<Longrightarrow> events_ok k' es"
  by (fastforce simp: events_ok_def)

lemma db_inv_seq: "db_inv w \<Longrightarrow> w_event_seq w \<le> k \<Longrightarrow> db_inv (w\<lparr>w_event_seq := k\<rparr>)"
  using events_ok_mono by (fastforce simp: db_inv_def)

lemma db_inv_commit:
  "db_inv pending \<Longrightarrow> db_inv w \<Longrightarrow>
   db_inv (w\<lparr>w_peers := w_peers pending, w_events := w_events pending,
             w_event_seq := w_event_seq pending, w_notifies := w_notifies pending\<rparr>)"
  by (simp add: db_inv_def)

lemma tx_execute_inv:
  assumes "db_inv w" and q: "\<And>w. db_inv w \<Longrightarrow> db_inv (snd (q w))"
    "\<And>w. w_event_seq w \<le> w_event_seq (snd (q w))"
    and run: "tx_execute E q w = (r, w')"
  shows "db_inv w' \<and> (\<forall>n pending. r = Inr (n, pending) \<longrightarrow> db_inv pending)"
proof -
  let ?w = "w\<lparr>w_tick := Suc (w_tick w)\<rparr>"
  obtain s w2 where qw: "q ?w = (s, w2)" by (cases "q ?w")
  have w2: "db_inv w2" "w_event_seq ?w \<le> w_event_seq w2"
    using q(1)[of ?w] q(2)[of ?w] qw assms(1) by simp_all
  have seq: "db_inv (?w\<lparr>w_event_seq := w_event_seq w2\<rparr>)"
    using assms(1) w2(2) by (intro db_inv_seq) simp_all
  have "db_inv (?w)" using assms(1) by simp
  with run qw w2 seq show ?thesis
    unfolding tx_execute_def tx_call_run Let_def
    by (cases "db_fault E (w_tick w)"; cases s) (auto simp: map_err_def)
qed

lemma snd_and_then_ret: "snd (and_then m (\<lambda>_. ret x) w) = snd (m w)"
  by (simp add: and_then_def split: prod.splits sum.splits)

lemma preserves_transaction:
  assumes "\<And>w. db_inv w \<Longrightarrow> db_inv (snd (q w))"
    "\<And>w. w_event_seq w \<le> w_event_seq (snd (q w))"
  shows "preserves db_inv (and_then (tx_execute E q) (\<lambda>(n, pending).
           and_then (if test then tx_rollback E else tx_commit E pending) (\<lambda>_. ret (g n))))"
proof (rule preservesI)
  fix w assume w: "db_inv w"
  obtain r w1 where run: "tx_execute E q w = (r, w1)" by (cases "tx_execute E q w")
  have inv: "db_inv w1" "\<forall>n pending. r = Inr (n, pending) \<longrightarrow> db_inv pending"
    using tx_execute_inv[OF w assms run] by simp_all
  show "db_inv (snd (and_then (tx_execute E q) (\<lambda>(n, pending).
           and_then (if test then tx_rollback E else tx_commit E pending) (\<lambda>_. ret (g n))) w))"
  proof (cases r)
    case (Inl e)
    with run inv show ?thesis by (simp add: and_then_run)
  next
    case (Inr p)
    obtain n pending where p: "p = (n, pending)" by (cases p)
    with Inr inv have pend: "db_inv pending" by simp
    have "db_inv (snd ((if test then tx_rollback E else tx_commit E pending) w1))"
      using inv(1) pend db_inv_commit[of pending "w1\<lparr>w_tick := Suc (w_tick w1)\<rparr>"]
      by (simp add: tx_rollback_def tx_commit_def tx_call_run Let_def split: fault.split)
    then show ?thesis using run Inr p by (simp add: and_then_run(1) snd_and_then_ret)
  qed
qed

lemma sql_insert_peer_seq: "w_event_seq w \<le> w_event_seq (snd (sql_insert_peer r w))"
  by (simp add: sql_insert_peer_def Let_def enqueue_peer_change_def split: option.split)

lemma store_preserves_db_inv [frame_rules]:
  assumes "stable E db_inv"
  shows "preserves db_inv (insert_nonce E asn nonce t)"
    "preserves db_inv (consume_nonce E asn nonce t)"
    "preserves db_inv (db_reserve_peer E p test)"
    "preserves db_inv (allocate_peer_id E)"
    "preserves db_inv (update_peer_desired E p)"
    "preserves db_inv (set_status E pid st)"
    "preserves db_inv (db_delete_peer E pid)"
    "preserves db_inv (peer_exists E asn name)"
    "preserves db_inv (get_peer E asn name)"
    "preserves db_inv (get_peer_by_id E pid)"
    "preserves db_inv (list_peers E)"
    "preserves db_inv (get_peer_infos_by_asn E asn)"
    "preserves db_inv (list_peer_changes E)"
    "preserves db_inv (delete_peer_change E eid)"
  unfolding insert_nonce_def consume_nonce_def db_reserve_peer_def allocate_peer_id_def
    update_peer_desired_def set_status_def db_delete_peer_def peer_exists_def get_peer_def
    get_peer_by_id_def list_peers_def get_peer_infos_by_asn_def list_peer_changes_def
    delete_peer_change_def
  by (intro frame_rules assms preserves_execute preserves_transaction sql_insert_peer_inv
      sql_update_peer_inv sql_delete_peer_inv sql_nonce_inv sql_other_inv sql_insert_peer_seq;
      simp)+

section \<open>The ledger of nonces\<close>

text \<open>
  What authentication needs of the nonce table. A ledger executes operations one at a time; an
  operation may grant a key or redeem it, and a redeemed key is dead until it is granted again.
\<close>

fun run_ops :: "('o \<Rightarrow> 's \<Rightarrow> bool \<times> 's) \<Rightarrow> 'o list \<Rightarrow> 's \<Rightarrow> ('o \<times> bool) list \<times> 's" where
  "run_ops step [] s = ([], s)"
| "run_ops step (op # ops) s =
     (let (b, s1) = step op s; (rs, s2) = run_ops step ops s1 in ((op, b) # rs, s2))"

definition successes :: "('o \<Rightarrow> bool) \<Rightarrow> ('o \<times> bool) list \<Rightarrow> nat" where
  "successes P rs = length (filter (\<lambda>(op, b). b \<and> P op) rs)"

lemma successes_Nil [simp]: "successes P [] = 0"
  by (simp add: successes_def)

lemma successes_Cons [simp]:
  "successes P ((op, b) # rs) = (if b \<and> P op then 1 else 0) + successes P rs"
  by (simp add: successes_def)

locale nonce_ledger =
  fixes inv :: "'s \<Rightarrow> bool" and live :: "'k \<Rightarrow> 's \<Rightarrow> bool"
    and grants :: "'k \<Rightarrow> 'o \<Rightarrow> bool" and redeems :: "'k \<Rightarrow> 'o \<Rightarrow> bool"
    and step :: "'o \<Rightarrow> 's \<Rightarrow> bool \<times> 's"
  assumes inv_step: "inv s \<Longrightarrow> inv (snd (step op s))"
    and redeem_kills: "inv s \<Longrightarrow> redeems k op \<Longrightarrow> fst (step op s) \<Longrightarrow>
      live k s \<and> \<not> live k (snd (step op s))"
    and only_grants: "inv s \<Longrightarrow> live k (snd (step op s)) \<Longrightarrow>
      live k s \<or> grants k op \<and> fst (step op s)"
    and exclusive: "\<not> (grants k op \<and> redeems k op)"
begin

text \<open>Over any sequence of operations a key is redeemed at most as often as it was granted.\<close>

lemma redeemed_at_most_granted:
  "inv s \<Longrightarrow> run_ops step ops s = (rs, s') \<Longrightarrow>
   successes (redeems k) rs + of_bool (live k s') \<le> successes (grants k) rs + of_bool (live k s)"
proof (induction ops arbitrary: s rs)
  case Nil
  then show ?case by simp
next
  case (Cons op ops)
  obtain b s1 where step: "step op s = (b, s1)" by (cases "step op s")
  obtain rs' where rest: "run_ops step ops s1 = (rs', s')" and rs: "rs = (op, b) # rs'"
    using Cons.prems(2) step by (auto split: prod.splits)
  have "inv s1" using inv_step[OF Cons.prems(1), of op] step by simp
  from Cons.IH[OF this rest]
  have ih: "successes (redeems k) rs' + of_bool (live k s')
      \<le> successes (grants k) rs' + of_bool (live k s1)" .
  have "(if b \<and> redeems k op then 1 else 0) + of_bool (live k s1)
      \<le> (if b \<and> grants k op then 1 else 0) + (of_bool (live k s) :: nat)"
    using redeem_kills[OF Cons.prems(1), of k op] only_grants[OF Cons.prems(1), of k op]
      exclusive[of k op] step by auto
  with ih rs show ?case by simp
qed

end

text \<open>
  The statements that the tasks of the service issue. Any interleaving of requests is a sequence
  of them, since PostgreSQL runs each statement on a nonce row atomically.
\<close>

datatype db_op =
    InsertNonce rstr int int
  | ConsumeNonce rstr int int int
  | DeleteExpiredNonces int
  | InsertPeer peer_row
  | UpdatePeer "peer_row \<Rightarrow> peer_row" int
  | DeletePeer int
  | DeleteEvent int
  | NextPeerId

definition one_row :: "(sqlx_error + nat) \<times> world \<Rightarrow> bool \<times> world" where
  "one_row p = (fst p = Inr 1, snd p)"

fun db_step :: "db_op \<Rightarrow> world \<Rightarrow> bool \<times> world" where
  "db_step (InsertNonce nonce asn t) w = one_row (sql_insert_nonce nonce asn t w)"
| "db_step (ConsumeNonce nonce asn t now) w = one_row (sql_consume_nonce nonce asn t now w)"
| "db_step (DeleteExpiredNonces now) w = (True, snd (sql_delete_expired_nonces now w))"
| "db_step (InsertPeer r) w = one_row (sql_insert_peer r w)"
| "db_step (UpdatePeer f pid) w = one_row (sql_update_peer f pid w)"
| "db_step (DeletePeer pid) w = one_row (sql_delete_peer pid w)"
| "db_step (DeleteEvent eid) w = (True, snd (sql_delete_event eid w))"
| "db_step NextPeerId w = (True, snd (sql_nextval_peer_id w))"

definition nonces_distinct :: "world \<Rightarrow> bool" where
  "nonces_distinct w = distinct (map n_nonce (w_nonces w))"

definition nonce_live :: "rstr \<Rightarrow> world \<Rightarrow> bool" where
  "nonce_live nonce w = (nonce \<in> n_nonce ` set (w_nonces w))"

fun issues :: "rstr \<Rightarrow> db_op \<Rightarrow> bool" where
  "issues nonce (InsertNonce n asn t) = (n = nonce)"
| "issues nonce _ = False"

fun consumes :: "rstr \<Rightarrow> db_op \<Rightarrow> bool" where
  "consumes nonce (ConsumeNonce n asn t now) = (n = nonce)"
| "consumes nonce _ = False"

lemma peer_statements_keep_nonces:
  "w_nonces (snd (sql_insert_peer r w)) = w_nonces w"
  "w_nonces (snd (sql_update_peer f pid w)) = w_nonces w"
  "w_nonces (snd (sql_delete_peer pid w)) = w_nonces w"
  "w_nonces (snd (sql_delete_event eid w)) = w_nonces w"
  "w_nonces (snd (sql_nextval_peer_id w)) = w_nonces w"
  unfolding sql_insert_peer_def sql_update_peer_def sql_delete_peer_def sql_delete_event_def
    sql_nextval_peer_id_def Let_def enqueue_fold enqueue_fold_id
  by (simp_all add: enqueue_peer_change_def split: option.split)

lemma consumed_nonce_dead:
  assumes "distinct (map n_nonce ns)" "n \<in> set ns" "nonce_matches nonce asn t now n"
    "n' \<in> set ns" "n_nonce n' = nonce"
  shows "nonce_matches nonce asn t now n'"
proof -
  have "n_nonce n = n_nonce n'" using assms(3,5) by (simp add: nonce_matches_def)
  with assms(1,2,4) have "n = n'" by (meson distinct_map inj_onD)
  with assms(3) show ?thesis by simp
qed

interpretation nonces: nonce_ledger nonces_distinct nonce_live issues consumes db_step
proof
  fix op and w :: world
  assume "nonces_distinct w"
  then show "nonces_distinct (snd (db_step op w))"
    unfolding nonces_distinct_def
    by (cases op) (simp_all add: one_row_def peer_statements_keep_nonces sql_insert_nonce_def
        sql_consume_nonce_def sql_delete_expired_nonces_def distinct_map_filter)
next
  fix op and w :: world and k
  assume inv: "nonces_distinct w" and "consumes k op" and ok: "fst (db_step op w)"
  then obtain asn t now where op: "op = ConsumeNonce k asn t now" by (cases op) auto
  have "filter (nonce_matches k asn t now) (w_nonces w) \<noteq> []"
    using ok op by (auto simp: one_row_def sql_consume_nonce_def)
  then obtain n where n: "n \<in> set (w_nonces w)" "nonce_matches k asn t now n"
    unfolding filter_empty_conv by blast
  then have "n_nonce n = k" by (simp add: nonce_matches_def)
  moreover have "\<forall>n'\<in>set (w_nonces w). n_nonce n' = k \<longrightarrow> nonce_matches k asn t now n'"
    using inv n consumed_nonce_dead unfolding nonces_distinct_def by blast
  ultimately show "nonce_live k w \<and> \<not> nonce_live k (snd (db_step op w))"
    using n op by (auto simp: nonce_live_def one_row_def sql_consume_nonce_def)
next
  fix op and w :: world and k
  assume "nonce_live k (snd (db_step op w))"
  then show "nonce_live k w \<or> issues k op \<and> fst (db_step op w)"
    unfolding nonce_live_def
    by (cases op) (auto simp: one_row_def peer_statements_keep_nonces sql_insert_nonce_def
        sql_consume_nonce_def sql_delete_expired_nonces_def split: if_splits)
next
  fix op and k :: rstr
  show "\<not> (issues k op \<and> consumes k op)" by (cases op) auto
qed

section \<open>Frames\<close>

lemma tx_call_keeps:
  "tick_free v \<Longrightarrow> (\<And>w. v (snd (q w)) = v w) \<Longrightarrow> keeps v (tx_call E q)"
  unfolding tx_call_def[abs_def] by (rule keeps_ext_call) (simp_all add: quiet_def)

lemma keeps_acquire [frame_rules]: "undisturbed E v \<Longrightarrow> keeps v (acquire E)"
  unfolding acquire_def by (rule keeps_ext_call_undisturbed) simp_all

lemma keeps_read_clock [frame_rules]: "keeps v (read_clock E)"
  by (simp add: keeps_def read_clock_def)

lemma keeps_execute:
  "undisturbed E v \<Longrightarrow> (\<And>w. v (snd (q w)) = v w) \<Longrightarrow> keeps v (execute E q)"
  unfolding execute_def by (rule keeps_ext_call_undisturbed)

text \<open>A view that looks at neither the tables nor the call counter.\<close>

definition beside_db :: "(world \<Rightarrow> 'v) \<Rightarrow> bool" where
  "beside_db v = (tick_free v \<and>
     (\<forall>w ps ns es k k' n. v (w\<lparr>w_peers := ps, w_nonces := ns, w_events := es, w_peer_seq := k,
        w_event_seq := k', w_notifies := n\<rparr>) = v w))"

lemma beside_db_update:
  assumes "beside_db v"
    "w' = w\<lparr>w_peers := w_peers w', w_nonces := w_nonces w', w_events := w_events w',
            w_peer_seq := w_peer_seq w', w_event_seq := w_event_seq w',
            w_notifies := w_notifies w'\<rparr>"
  shows "v w' = v w"
  using assms unfolding beside_db_def by metis

lemma beside_db_views [simp]:
  "beside_db kernel_view" "beside_db bird_view" "beside_db nft_view" "beside_db w_permits"
  "beside_db w_locks"
  by (simp_all add: beside_db_def kernel_view_def bird_view_def nft_view_def)

lemma statement_frame:
  assumes "beside_db v"
  shows "v (snd (sql_insert_nonce nonce asn t w)) = v w"
    "v (snd (sql_consume_nonce nonce asn t now w)) = v w"
    "v (snd (sql_delete_expired_nonces now w)) = v w"
    "v (snd (sql_nextval_peer_id w)) = v w"
    "v (snd (sql_insert_peer r w)) = v w"
    "v (snd (sql_update_peer f pid w)) = v w"
    "v (snd (sql_delete_peer pid w)) = v w"
    "v (snd (sql_delete_event eid w)) = v w"
    "v (snd (sql_select g w)) = v w"
  unfolding sql_insert_nonce_def sql_consume_nonce_def sql_delete_expired_nonces_def
    sql_nextval_peer_id_def sql_insert_peer_def sql_update_peer_def sql_delete_peer_def
    sql_delete_event_def sql_select_def Let_def enqueue_fold enqueue_fold_id enqueue_peer_change_def
  by (rule beside_db_update[OF assms]; simp split: option.split; fail)+

lemma keeps_transaction:
  assumes "beside_db v" "\<And>w. v (snd (q w)) = v w"
  shows "keeps v (and_then (tx_execute E q) (\<lambda>(n, pending).
           and_then (if test then tx_rollback E else tx_commit E pending) (\<lambda>_. ret (g n))))"
proof -
  have tf: "tick_free v" using assms(1) by (simp add: beside_db_def)
  have "v (w\<lparr>w_event_seq := k\<rparr>) = v w" for w k
    by (rule beside_db_update[OF assms(1)]) simp
  with assms(2) have "keeps v (tx_execute E q)"
    unfolding tx_execute_def by (intro tx_call_keeps tf) (simp split: prod.split sum.split)
  moreover have "keeps v (tx_rollback E)"
    unfolding tx_rollback_def by (rule tx_call_keeps[OF tf]) simp
  moreover have "keeps v (tx_commit E pending)" for pending
    unfolding tx_commit_def
    by (rule tx_call_keeps[OF tf]) (simp add: beside_db_update[OF assms(1)])
  ultimately show ?thesis by (auto intro!: frame_rules)
qed

lemma store_keeps_undisturbed:
  assumes "undisturbed E v" "beside_db v"
  shows "keeps v (insert_nonce E asn nonce t)"
    "keeps v (consume_nonce E asn nonce t)"
    "keeps v (db_reserve_peer E p test)"
    "keeps v (allocate_peer_id E)"
    "keeps v (update_peer_desired E p)"
    "keeps v (set_status E pid st)"
    "keeps v (db_delete_peer E pid)"
    "keeps v (peer_exists E asn name)"
    "keeps v (get_peer E asn name)"
    "keeps v (get_peer_by_id E pid)"
    "keeps v (list_peers E)"
    "keeps v (get_peer_infos_by_asn E asn)"
    "keeps v (list_peer_changes E)"
    "keeps v (delete_peer_change E eid)"
proof -
  have bgn: "keeps v (tx_begin E)"
    unfolding tx_begin_def by (rule keeps_ext_call_undisturbed[OF assms(1)]) simp
  note rules = frame_rules assms bgn keeps_execute keeps_transaction
    statement_frame[OF assms(2)]
  show "keeps v (insert_nonce E asn nonce t)" unfolding insert_nonce_def by (intro rules)
  show "keeps v (consume_nonce E asn nonce t)" unfolding consume_nonce_def by (intro rules)
  show "keeps v (db_reserve_peer E p test)" unfolding db_reserve_peer_def by (intro rules)
  show "keeps v (allocate_peer_id E)" unfolding allocate_peer_id_def by (intro rules)
  show "keeps v (update_peer_desired E p)" unfolding update_peer_desired_def by (intro rules)
  show "keeps v (set_status E pid st)" unfolding set_status_def by (intro rules)
  show "keeps v (db_delete_peer E pid)" unfolding db_delete_peer_def by (intro rules)
  show "keeps v (peer_exists E asn name)" unfolding peer_exists_def by (intro rules)
  show "keeps v (get_peer E asn name)" unfolding get_peer_def by (intro rules)
  show "keeps v (get_peer_by_id E pid)" unfolding get_peer_by_id_def by (intro rules)
  show "keeps v (list_peers E)" unfolding list_peers_def by (intro rules)
  show "keeps v (get_peer_infos_by_asn E asn)" unfolding get_peer_infos_by_asn_def
    by (intro rules)
  show "keeps v (list_peer_changes E)" unfolding list_peer_changes_def by (intro rules)
  show "keeps v (delete_peer_change E eid)" unfolding delete_peer_change_def by (intro rules)
qed

lemma undisturbed_beside_db: "quiet E \<Longrightarrow> beside_db v \<Longrightarrow> undisturbed E v"
  by (rule undisturbed_quiet) (simp_all add: beside_db_def)

lemmas store_keeps [frame_rules] = store_keeps_undisturbed[OF undisturbed_beside_db]

section \<open>What a successful operation did\<close>

text \<open>The answer and the effect of a statement depend on the tables alone.\<close>

definition db_statement :: "'a statement \<Rightarrow> bool" where
  "db_statement q = (\<forall>w w'. db_view w = db_view w' \<longrightarrow>
     fst (q w) = fst (q w') \<and> db_view (snd (q w)) = db_view (snd (q w')))"

lemma db_view_eq:
  "db_view w = db_view w' \<longleftrightarrow>
     w_peers w = w_peers w' \<and> w_nonces w = w_nonces w' \<and> w_events w = w_events w' \<and>
     w_peer_seq w = w_peer_seq w' \<and> w_event_seq w = w_event_seq w' \<and>
     w_notifies w = w_notifies w'"
  by (simp add: db_view_def)

lemma db_statements:
  "db_statement (sql_insert_nonce nonce asn t)" "db_statement (sql_consume_nonce nonce asn t now)"
  "db_statement (sql_delete_expired_nonces now)" "db_statement sql_nextval_peer_id"
  "db_statement (sql_insert_peer r)" "db_statement (sql_update_peer f pid)"
  "db_statement (sql_delete_peer pid)" "db_statement (sql_delete_event eid)"
  "\<And>g. db_statement (sql_select (\<lambda>w. g (w_peers w)))"
  "\<And>g. db_statement (sql_select (\<lambda>w. g (w_events w)))"
  unfolding db_statement_def db_view_eq sql_insert_nonce_def sql_consume_nonce_def
    sql_delete_expired_nonces_def sql_nextval_peer_id_def sql_insert_peer_def sql_update_peer_def
    sql_delete_peer_def sql_delete_event_def sql_select_def Let_def enqueue_fold enqueue_fold_id
    enqueue_peer_change_def
  by (simp split: option.split; fail)+

lemma db_view_await: "quiet E \<Longrightarrow> db_view (await E w) = db_view w"
  by (simp add: await_quiet db_view_def)

lemma execute_ok:
  assumes "quiet E" "db_statement q" "execute E q w = (Inr x, w')"
  shows "fst (q w) = Inr x \<and> db_view w' = db_view (snd (q w))"
proof -
  have "q (await E w) = (Inr x, w')" using assms(3) by (simp add: execute_def ext_call_Inr)
  then show ?thesis
    using assms(1,2) db_view_await[OF assms(1), of w] unfolding db_statement_def
    by (metis fst_conv snd_conv)
qed

lemma acquire_ok: "quiet E \<Longrightarrow> acquire E w = (Inr x, w') \<Longrightarrow> db_view w' = db_view w"
  by (auto simp: acquire_def ext_call_Inr db_view_await)

lemma db_statementD:
  "db_statement q \<Longrightarrow> db_view w = db_view w' \<Longrightarrow> fst (q w) = fst (q w')"
  "db_statement q \<Longrightarrow> db_view w = db_view w' \<Longrightarrow> db_view (snd (q w)) = db_view (snd (q w'))"
  unfolding db_statement_def by blast+

text \<open>A connection followed by one statement acts as the statement.\<close>

lemma acquire_execute_ok:
  assumes "quiet E" "\<And>x. db_statement (q x)"
    and run: "and_then (acquire E) (\<lambda>_. and_then (read_clock E) (\<lambda>now. execute E (q now))) w
      = (Inr x, w')"
  shows "\<exists>now. fst (q now w) = Inr x \<and> db_view w' = db_view (snd (q now w))"
proof -
  obtain u w1 now w2 where w1: "acquire E w = (Inr u, w1)" and "read_clock E w1 = (Inr now, w2)"
    and ex: "execute E (q now) w2 = (Inr x, w')"
    using run unfolding and_then_Inr by blast
  then have "w2 = w1" by (simp add: read_clock_def)
  with ex have "fst (q now w1) = Inr x \<and> db_view w' = db_view (snd (q now w1))"
    using execute_ok[OF assms(1,2)] by blast
  moreover have "db_view w1 = db_view w" by (rule acquire_ok[OF assms(1) w1])
  ultimately show ?thesis using db_statementD[OF assms(2), of w1 w] by metis
qed

lemma acquire_execute_ok':
  assumes "quiet E" "db_statement q"
    and run: "and_then (acquire E) (\<lambda>_. execute E q) w = (Inr x, w')"
  shows "fst (q w) = Inr x \<and> db_view w' = db_view (snd (q w))"
proof -
  obtain u w1 where w1: "acquire E w = (Inr u, w1)" and ex: "execute E q w1 = (Inr x, w')"
    using run unfolding and_then_Inr by blast
  have "db_view w1 = db_view w" by (rule acquire_ok[OF assms(1) w1])
  with execute_ok[OF assms(1,2) ex] show ?thesis
    using db_statementD[OF assms(2), of w1 w] by metis
qed

lemma set_status_ok:
  assumes "quiet E" "set_status E pid st w = (Inr b, w')"
  shows "\<exists>now n. let q = sql_update_peer
           (\<lambda>r. r\<lparr>c_status := status_to_str st, r_updated_at := now\<rparr>) (sint pid)
         in fst (q w) = Inr n \<and> b = (n = 1) \<and> db_view w' = db_view (snd (q w))"
proof -
  let ?q = "\<lambda>now. sql_update_peer (\<lambda>r. r\<lparr>c_status := status_to_str st, r_updated_at := now\<rparr>)
    (sint pid)"
  obtain n where "and_then (acquire E) (\<lambda>_. and_then (read_clock E) (\<lambda>now. execute E (?q now))) w
      = (Inr n, w')" "b = (n = 1)"
    using assms(2) unfolding set_status_def and_then_assoc[symmetric] and_then_Inr by auto
  from acquire_execute_ok[OF assms(1) db_statements(6) this(1)] this(2) show ?thesis
    unfolding Let_def by blast
qed

lemma update_peer_desired_ok:
  assumes "quiet E" "update_peer_desired E p w = (Inr b, w')"
  shows "\<exists>now n. let q = sql_update_peer (desired_columns p now) (sint (p_peer_id p))
         in fst (q w) = Inr n \<and> b = (n = 1) \<and> db_view w' = db_view (snd (q w))"
proof -
  let ?q = "\<lambda>now. sql_update_peer (desired_columns p now) (sint (p_peer_id p))"
  obtain n where "and_then (acquire E) (\<lambda>_. and_then (read_clock E) (\<lambda>now. execute E (?q now))) w
      = (Inr n, w')" "b = (n = 1)"
    using assms(2)
    unfolding update_peer_desired_def and_then_assoc[symmetric] and_then_Inr by auto
  from acquire_execute_ok[OF assms(1) db_statements(6) this(1)] this(2) show ?thesis
    unfolding Let_def by blast
qed

lemma db_delete_peer_ok:
  assumes "quiet E" "db_delete_peer E pid w = (Inr b, w')"
  shows "\<exists>n. fst (sql_delete_peer (sint pid) w) = Inr n \<and> b = (n > 0) \<and>
    db_view w' = db_view (snd (sql_delete_peer (sint pid) w))"
proof -
  obtain n where "and_then (acquire E) (\<lambda>_. execute E (sql_delete_peer (sint pid))) w = (Inr n, w')"
    "b = (n > 0)"
    using assms(2) unfolding db_delete_peer_def and_then_assoc[symmetric] and_then_Inr by auto
  from acquire_execute_ok'[OF assms(1) db_statements(7) this(1)] this(2) show ?thesis by blast
qed

lemma peer_exists_ok:
  assumes "quiet E" "peer_exists E asn name w = (Inr b, w')"
  shows "b = (\<exists>r\<in>set (w_peers w). identity_of r = (uint asn, name)) \<and> db_view w' = db_view w"
  using acquire_execute_ok'[OF assms(1) db_statements(9)
      [of "list_ex (\<lambda>r. identity_of r = (uint asn, name))"],
      of w b w'] assms(2)
  by (simp add: peer_exists_def sql_select_def list_ex_iff)

lemma select_row_ok:
  assumes "quiet E"
    and run: "and_then (acquire E) (\<lambda>_. and_then (execute E (sql_select (\<lambda>w. find P (w_peers w))))
      (\<lambda>row. case row of None \<Rightarrow> ret None
        | Some r \<Rightarrow> and_then (lift_res (row_to_peer (b64_decode E) r)) (\<lambda>p. ret (Some p)))) w
      = (Inr res, w')"
  shows "db_view w' = db_view w \<and>
    (case res of None \<Rightarrow> find P (w_peers w) = None
     | Some p \<Rightarrow> \<exists>r. find P (w_peers w) = Some r \<and> row_to_peer (b64_decode E) r = Inr p)"
proof -
  obtain row w1 where q: "and_then (acquire E)
      (\<lambda>_. execute E (sql_select (\<lambda>w. find P (w_peers w)))) w = (Inr row, w1)"
    and rest: "(case row of None \<Rightarrow> ret None
        | Some r \<Rightarrow> and_then (lift_res (row_to_peer (b64_decode E) r)) (\<lambda>p. ret (Some p))) w1
      = (Inr res, w')"
    using run unfolding and_then_assoc[symmetric] by (auto simp only: and_then_Inr)
  have "row = find P (w_peers w)" "db_view w1 = db_view w"
    using acquire_execute_ok'[OF assms(1) db_statements(9)[of "find P"] q]
    by (simp_all add: sql_select_def)
  then show ?thesis using rest by (cases "find P (w_peers w)") (auto simp: and_then_Inr)
qed

lemma get_peer_ok:
  assumes "quiet E" "get_peer E asn name w = (Inr res, w')"
  shows "db_view w' = db_view w \<and>
    (case res of None \<Rightarrow> find (\<lambda>r. identity_of r = (uint asn, name)) (w_peers w) = None
     | Some p \<Rightarrow> \<exists>r. find (\<lambda>r. identity_of r = (uint asn, name)) (w_peers w) = Some r \<and>
         row_to_peer (b64_decode E) r = Inr p)"
  using select_row_ok[OF assms(1)] assms(2) unfolding get_peer_def .

lemma get_peer_by_id_ok:
  assumes "quiet E" "get_peer_by_id E pid w = (Inr res, w')"
  shows "db_view w' = db_view w \<and>
    (case res of None \<Rightarrow> find (\<lambda>r. c_peer_id r = sint pid) (w_peers w) = None
     | Some p \<Rightarrow> \<exists>r. find (\<lambda>r. c_peer_id r = sint pid) (w_peers w) = Some r \<and>
         row_to_peer (b64_decode E) r = Inr p)"
  using select_row_ok[OF assms(1)] assms(2) unfolding get_peer_by_id_def .

lemma list_peers_ok:
  assumes "quiet E" "list_peers E w = (Inr peers, w')"
  shows "db_view w' = db_view w \<and>
    collect_results (row_to_peer (b64_decode E)) (order_rows (collation E) (w_peers w)) = Inr peers"
proof -
  obtain rows w1 where q: "and_then (acquire E)
      (\<lambda>_. execute E (sql_select (\<lambda>w. order_rows (collation E) (w_peers w)))) w = (Inr rows, w1)"
    and rest: "lift_res (collect_results (row_to_peer (b64_decode E)) rows) w1 = (Inr peers, w')"
    using assms(2) unfolding list_peers_def and_then_assoc[symmetric]
    by (auto simp only: and_then_Inr)
  with acquire_execute_ok'[OF assms(1) db_statements(9)[of "order_rows (collation E)"] q]
  show ?thesis by (simp add: sql_select_def)
qed

lemma reserved_row_simps [simp]:
  "c_peer_name (reserved_row p now) = p_peer_name p"
  "c_peer_id (reserved_row p now) = sint (p_peer_id p)"
  "c_asn (reserved_row p now) = uint (p_asn p)"
  "c_listen_port (reserved_row p now) = uint (p_listen_port p)"
  "c_status (reserved_row p now) = ''provisioning''"
  by (simp_all add: reserved_row_def peer_to_cols_def peer_cols.defs)

lemma read_reserved_row:
  assumes "storable decode p"
  shows "row_to_peer decode (reserved_row p now) = Inr (p\<lparr>p_status := Provisioning\<rparr>)"
proof -
  have "row_to_peer decode (reserved_row p now) = row_to_peer decode (peer_to_cols p ''provisioning'')"
    unfolding reserved_row_def by (rule row_to_peer_cong) (simp add: peer_cols.defs)
  with row_to_peer_cols[OF assms, of "''provisioning''"] show ?thesis by simp
qed

lemma storable_sample [simp]: "storable (\<lambda>_. Inr []) sample_peer"
  by (simp add: storable_def valid_pubkey_def sample_peer_def)

lemma tx_call_ok:
  "tx_call E q w = (Inr x, w') \<longleftrightarrow>
     db_fault E (w_tick w) = NoFault \<and> q (w\<lparr>w_tick := Suc (w_tick w)\<rparr>) = (Inr x, w')"
  by (simp add: tx_call_def ext_call_Inr await_def)

lemma transaction_ok:
  assumes quiet: "quiet E" and q: "db_statement q"
    and frame: "\<And>w. w_nonces (snd (q w)) = w_nonces w" "\<And>w. w_peer_seq (snd (q w)) = w_peer_seq w"
    and run: "and_then (tx_execute E q) (\<lambda>(n, pending).
           and_then (if test then tx_rollback E else tx_commit E pending) (\<lambda>_. ret (n = 1))) w
         = (Inr b, w')"
  shows "\<exists>n. fst (q w) = Inr n \<and> b = (n = 1) \<and>
    db_view w' = db_view (if test then w\<lparr>w_event_seq := w_event_seq (snd (q w))\<rparr> else snd (q w))"
proof -
  obtain n pending w1 where ex: "tx_execute E q w = (Inr (n, pending), w1)"
    and fin: "(if test then tx_rollback E else tx_commit E pending) w1 = (Inr (), w')"
    and b: "b = (n = 1)"
    using run by (auto simp: and_then_Inr)
  let ?w = "w\<lparr>w_tick := Suc (w_tick w)\<rparr>"
  have "db_view ?w = db_view w" by (simp add: db_view_def)
  then have same: "fst (q ?w) = fst (q w)" "db_view (snd (q ?w)) = db_view (snd (q w))"
    using db_statementD[OF q] by blast+
  have n: "fst (q ?w) = Inr n" and pend: "pending = snd (q ?w)"
    and w1: "w1 = ?w\<lparr>w_event_seq := w_event_seq (snd (q ?w))\<rparr>"
    using ex unfolding tx_execute_def tx_call_ok by (auto split: prod.splits sum.splits)
  have "db_view w' = db_view (if test then w\<lparr>w_event_seq := w_event_seq (snd (q w))\<rparr> else snd (q w))"
    using fin same pend w1 frame
    by (cases test) (auto simp: tx_rollback_def tx_commit_def tx_call_ok db_view_eq)
  with n same b show ?thesis by auto
qed

lemma sql_insert_peer_frame:
  "w_nonces (snd (sql_insert_peer r w)) = w_nonces w"
  "w_peer_seq (snd (sql_insert_peer r w)) = w_peer_seq w"
  unfolding sql_insert_peer_def Let_def enqueue_peer_change_def by (simp_all split: option.split)

lemma db_reserve_peer_ok:
  assumes "quiet E" "db_reserve_peer E p test w = (Inr b, w')"
  shows "\<exists>now n. let q = sql_insert_peer (reserved_row p now) in
    fst (q w) = Inr n \<and> b = (n = 1) \<and>
    db_view w' = db_view (if test then w\<lparr>w_event_seq := w_event_seq (snd (q w))\<rparr> else snd (q w))"
proof -
  obtain w1 w2 now where w1: "acquire E w = (Inr (), w1)" and w2: "tx_begin E w1 = (Inr (), w2)"
    and tx: "and_then (tx_execute E (sql_insert_peer (reserved_row p now))) (\<lambda>(n, pending).
       and_then (if test then tx_rollback E else tx_commit E pending) (\<lambda>_. ret (n = 1))) w2
      = (Inr b, w')"
    using assms(2) unfolding db_reserve_peer_def
    by (auto simp: and_then_Inr[of "acquire E"] and_then_Inr[of "tx_begin E"]
        read_clock_and_then)
  let ?q = "sql_insert_peer (reserved_row p now)"
  have view: "db_view w2 = db_view w"
    using acquire_ok[OF assms(1) w1] w2
    by (auto simp: tx_begin_def ext_call_Inr db_view_await[OF assms(1)])
  have "w_event_seq (snd (?q w2)) = w_event_seq (snd (?q w))"
    using db_statementD(2)[OF db_statements(5) view] by (simp add: db_view_eq)
  with view transaction_ok[OF assms(1) db_statements(5) sql_insert_peer_frame tx]
    db_statementD[OF db_statements(5) view, of "reserved_row p now"]
  have "\<exists>n. fst (?q w) = Inr n \<and> b = (n = 1) \<and>
    db_view w' = db_view (if test then w\<lparr>w_event_seq := w_event_seq (snd (?q w))\<rparr> else snd (?q w))"
    by (cases test) (auto simp: db_view_eq)
  then show ?thesis unfolding Let_def by blast
qed

lemma allocate_peer_id_ok:
  assumes "quiet E" "allocate_peer_id E w = (Inr pid, w')"
  shows "w_peer_seq w < 2147483647 \<and> 0 \<le> w_peer_seq w + 1 \<and> pid = of_int (w_peer_seq w + 1)
    \<and> db_view w' = db_view (w\<lparr>w_peer_seq := w_peer_seq w + 1\<rparr>)"
proof -
  obtain n w1 where q: "and_then (acquire E) (\<lambda>_. execute E sql_nextval_peer_id) w = (Inr n, w1)"
    and rest: "(if in_word_range 32 n then ret (of_int n)
      else throw (Validation ''The peer ID sequence is exhausted'')) w1 = (Inr pid, w')"
    using assms(2) unfolding allocate_peer_id_def and_then_assoc[symmetric]
    by (auto simp only: and_then_Inr)
  have "n = w_peer_seq w + 1" "w_peer_seq w < 2147483647"
    "db_view w1 = db_view (w\<lparr>w_peer_seq := w_peer_seq w + 1\<rparr>)"
    using acquire_execute_ok'[OF assms(1) db_statements(4) q]
    by (auto simp: sql_nextval_peer_id_def split: if_splits)
  moreover have "in_word_range 32 n" "pid = of_int n" "w' = w1"
    using rest by (auto split: if_splits)
  ultimately show ?thesis by (simp add: in_word_range_def)
qed

lemma insert_nonce_ok:
  assumes "quiet E" "insert_nonce E asn nonce t w = (Inr b, w')"
  shows "w_peers w' = w_peers w \<and> (\<exists>now. let kept = filter (\<lambda>n. \<not> n_expires_at n < now) (w_nonces w) in
     if nonce \<in> n_nonce ` set kept then \<not> b \<and> w_nonces w' = kept
     else b \<and> w_nonces w' = kept @ [\<lparr>n_nonce = nonce, n_asn = uint asn, n_expires_at = t\<rparr>])"
proof -
  obtain w1 w2 now n m where w1: "acquire E w = (Inr (), w1)"
    and d: "execute E (sql_delete_expired_nonces now) w1 = (Inr n, w2)"
    and i: "execute E (sql_insert_nonce nonce (uint asn) t) w2 = (Inr m, w')" and b: "b = (m = 1)"
    using assms(2) unfolding insert_nonce_def by (auto simp: and_then_Inr read_clock_def)
  have v1: "db_view w1 = db_view w" by (rule acquire_ok[OF assms(1) w1])
  have v2: "db_view w2 = db_view (snd (sql_delete_expired_nonces now w))"
    using execute_ok[OF assms(1) db_statements(3) d] db_statementD(2)[OF db_statements(3) v1]
    by metis
  show ?thesis
    unfolding Let_def using execute_ok[OF assms(1) db_statements(1) i] v2 b
    by (auto simp: db_view_eq sql_insert_nonce_def sql_delete_expired_nonces_def intro!: exI[of _ now]
        split: if_splits)
qed

lemma consume_nonce_run:
  assumes "consume_nonce E asn nonce t w = (Inr True, w')"
  shows "\<exists>w1 now. db_step (ConsumeNonce nonce (uint asn) t now) w1 = (True, w') \<and>
     now = clock E (Suc (w_tick w)) \<and> filter (nonce_matches nonce (uint asn) t now) (w_nonces w1) \<noteq> []"
proof -
  obtain w1 n where w1: "acquire E w = (Inr (), w1)"
    and ex: "execute E (sql_consume_nonce nonce (uint asn) t (unix_timestamp E w1)) w1 = (Inr n, w')"
    and n: "n = 1"
    using assms unfolding consume_nonce_def by (auto simp: and_then_Inr read_clock_def)
  have "w_tick w1 = Suc (w_tick w)" using w1 by (auto simp: acquire_def ext_call_Inr)
  moreover have "sql_consume_nonce nonce (uint asn) t (unix_timestamp E w1) (await E w1) = (Inr 1, w')"
    using ex n by (simp add: execute_def ext_call_Inr)
  ultimately show ?thesis
    by (intro exI[of _ "await E w1"] exI[of _ "unix_timestamp E w1"])
      (auto simp: one_row_def sql_consume_nonce_def unix_timestamp_def)
qed

lemma mset_order_rows [simp]: "mset (order_rows le rows) = mset rows"
proof -
  have "mset (insert_row le r xs) = add_mset r (mset xs)" for r xs
    by (induction xs) simp_all
  then show ?thesis unfolding order_rows_def by (induction rows) simp_all
qed

lemma set_order_rows [simp]: "set (order_rows le rows) = set rows"
  by (metis mset_order_rows set_mset_mset)

section \<open>Properties\<close>

text \<open>
  C3. A nonce is consumed at most as often as it was issued, over any interleaving of the
  statements that the tasks of the service send to the database (plus once when it was already in
  the table), and what is still in the table can be consumed later. So a nonce that was issued
  once authorizes one request.
\<close>

theorem nonce_consumed_at_most_once:
  assumes "nonces_distinct w" "run_ops db_step ops w = (rs, w')"
  shows "successes (consumes nonce) rs + of_bool (nonce_live nonce w')
    \<le> successes (issues nonce) rs + of_bool (nonce_live nonce w)"
  by (rule nonces.redeemed_at_most_granted[OF assms])

theorem nonce_consumed_at_most_once_witness:
  "successes (consumes ''n'') (fst (run_ops db_step
     [InsertNonce ''n'' 7 100, ConsumeNonce ''n'' 7 100 50, ConsumeNonce ''n'' 7 100 50] empty_world))
     + of_bool (nonce_live ''n'' (snd (run_ops db_step
     [InsertNonce ''n'' 7 100, ConsumeNonce ''n'' 7 100 50, ConsumeNonce ''n'' 7 100 50] empty_world)))
   \<le> 1"
proof -
  let ?ops = "[InsertNonce ''n'' 7 100, ConsumeNonce ''n'' 7 100 50, ConsumeNonce ''n'' 7 100 50]"
  have "nonces_distinct empty_world" by (simp add: nonces_distinct_def empty_world_def)
  from nonce_consumed_at_most_once[OF this, of ?ops _ _ "''n''"] show ?thesis
    by (simp add: one_row_def sql_insert_nonce_def sql_consume_nonce_def nonce_matches_def
        nonce_live_def empty_world_def)
qed

text \<open>
  C25. Encoding a peer as a database row and decoding it gives the peer back, with every field,
  when its key was validated and its id came from the sequence (an \<open>INT\<close>): the addresses, the
  32-bit ASN, the ports and every status but \<open>Error\<close> survive. The text of an \<open>Error\<close> is lost, and
  an id past \<open>2^31\<close> is written as a negative \<open>INT\<close> that every later read refuses.
\<close>

theorem peer_row_roundtrip:
  assumes "valid_pubkey decode (p_pubkey p)"
  shows "row_to_peer decode (peer_to_cols p (status_to_str (p_status p))) =
    (if uint (p_peer_id p) \<ge> 2 ^ 31
     then Inl (Validation ''The database contains an invalid peer ID'')
     else if is_error_status (p_status p)
     then Inr (p\<lparr>p_status := Error ''unknown database status: error''\<rparr>)
     else Inr p)"
proof (cases "uint (p_peer_id p) \<ge> 2 ^ 31")
  case True
  then have "sint (p_peer_id p) < 0" by (rule sint_large)
  then show ?thesis using True
    by (simp add: row_to_peer_def in_word_range_def peer_to_cols_def)
next
  case False
  then have "storable decode p" using assms by (simp add: storable_def)
  from row_to_peer_cols[OF this] False show ?thesis
    by (cases "p_status p") (simp_all add: str_to_status_def)
qed

theorem peer_row_roundtrip_witness:
  "row_to_peer (\<lambda>_. Inr []) (peer_to_cols sample_peer ''active'') = Inr sample_peer"
  using peer_row_roundtrip[of "\<lambda>_. Inr []" sample_peer]
  by (simp add: sample_peer_def valid_pubkey_def)

end
