(* ===== verification/Nft.thy ===== *)
theory Nft
  imports Persist
begin

text \<open>
  The nftables half of \<open>src/manager.rs\<close>: the batch that replaces the set of open UDP ports, the
  \<open>nft\<close> process that runs it, and \<open>sync_nft_ports\<close>. The process is the parameter \<open>nft_run\<close>: its
  outcome, and whether the kernel took the batch. \<open>w_nft_log\<close> lists the batches taken.
\<close>

section \<open>The batch\<close>

definition nft_port_batch :: "u16 list \<Rightarrow> rstr" where
  "nft_port_batch ports =
     (let batch = ''flush set inet nixos-fw autopeer-ports'' @ [LF] in
      if ports \<noteq> []
      then batch @ ''add element inet nixos-fw autopeer-ports { ''
             @ join '', '' (map show_u16 ports) @ '' }'' @ [LF]
      else batch)"

definition run_nft_batch_inner :: "env \<Rightarrow> rstr \<Rightarrow> unit io" where
  "run_nft_batch_inner E batch w =
     (let w1 = await E w; (outcome, applied) = nft_run E (w_tick w) batch;
          w2 = (if applied then w1\<lparr>w_nft_log := w_nft_log w1 @ [batch]\<rparr> else w1)
      in case outcome of
           NftTimeout \<Rightarrow> (Inl (Nftables ''nft did not finish within 10 seconds''), w2)
         | NftSpawnError source \<Rightarrow> (Inl (Nftables (''Could not start nft: '' @ source)), w2)
         | NftNoStdin \<Rightarrow> (Inl (Nftables ''Could not open standard input for nft''), w2)
         | NftWriteError source \<Rightarrow>
             (Inl (Nftables (''Could not write the nftables batch: '' @ source)), w2)
         | NftWaitError source \<Rightarrow>
             (Inl (Nftables (''Could not read the nft result: '' @ source)), w2)
         | NftExit ok status stderr \<Rightarrow>
             if ok then (Inr (), w2)
             else (Inl (Nftables (''nft failed with status '' @ status @ '': '' @ trim stderr)), w2))"

definition run_nft_batch :: "env \<Rightarrow> rstr \<Rightarrow> unit io" where
  "run_nft_batch E batch =
     (if mocked E ''MOCK_NFTABLES'' then ret () else run_nft_batch_inner E batch)"

section \<open>Synchronisation\<close>

definition desired_ports :: "peer list \<Rightarrow> u16 list" where
  "desired_ports peers =
     remdups_adj (sort (map p_listen_port (filter (\<lambda>p. desired_status (p_status p)) peers)))"

definition sync_nft_ports_for :: "env \<Rightarrow> peer list \<Rightarrow> unit io" where
  "sync_nft_ports_for E peers =
     with_lock E NftLock (run_nft_batch E (nft_port_batch (desired_ports peers)))"

definition sync_nft_ports :: "env \<Rightarrow> unit io" where
  "sync_nft_ports E = and_then (list_peers E) (\<lambda>peers. sync_nft_ports_for E peers)"

section \<open>Frames\<close>

definition beside_nft :: "(world \<Rightarrow> 'v) \<Rightarrow> bool" where
  "beside_nft v = (tick_free v \<and> (\<forall>w l. v (w\<lparr>w_nft_log := l\<rparr>) = v w))"

lemma beside_nft_views [simp]:
  "beside_nft db_view" "beside_nft kernel_view" "beside_nft bird_view" "beside_nft w_permits"
  by (simp_all add: beside_nft_def db_view_def kernel_view_def bird_view_def)

lemma keeps_run_nft_batch:
  assumes "quiet E" "beside_nft v"
  shows "keeps v (run_nft_batch E batch)"
proof -
  have "keeps v (run_nft_batch_inner E batch)"
    using assms unfolding keeps_def beside_nft_def tick_free_def run_nft_batch_inner_def Let_def
    by (auto simp: await_quiet split: nft_outcome.split prod.split)
  then show ?thesis by (auto simp: run_nft_batch_def intro!: frame_rules)
qed

lemma nft_keeps [frame_rules]:
  assumes "quiet E" "beside_nft v"
  shows "lock_free v \<Longrightarrow> keeps v (sync_nft_ports_for E peers)"
    "lock_free v \<Longrightarrow> beside_db v \<Longrightarrow> keeps v (sync_nft_ports E)"
  unfolding sync_nft_ports_def sync_nft_ports_for_def
  using assms by (auto intro!: frame_rules keeps_run_nft_batch simp: beside_nft_def)

lemma preserves_run_nft_batch:
  assumes "stable E I" "about v I" "beside_nft v"
  shows "preserves I (run_nft_batch E batch)"
proof -
  have same: "I (w\<lparr>w_nft_log := l\<rparr>) = I w" for w l
    by (rule aboutD[OF assms(2)]) (use assms(3) in \<open>simp add: beside_nft_def\<close>)
  have "preserves I (run_nft_batch_inner E batch)"
    using assms(1) unfolding preserves_def stable_def run_nft_batch_inner_def Let_def
    by (auto simp: same split: nft_outcome.split prod.split)
  then show ?thesis by (auto simp: run_nft_batch_def intro!: frame_rules)
qed

lemma nft_preserves:
  assumes "stable E I" "about v I" "beside_nft v"
  shows "lock_free v \<Longrightarrow> preserves I (sync_nft_ports_for E peers)"
    "lock_free v \<Longrightarrow> preserves I (list_peers E) \<Longrightarrow> preserves I (sync_nft_ports E)"
  unfolding sync_nft_ports_def sync_nft_ports_for_def
  using assms(1) about_lock_free[OF assms(2)]
  by (auto intro!: frame_rules preserves_run_nft_batch[OF assms])

section \<open>What nftables makes of a batch\<close>

text \<open>
  A reader of the two commands of a batch in nftables' syntax, and their effect on the set: the
  flush empties it, the element list adds its ports.
\<close>

function read_ports :: "rstr \<Rightarrow> u16 list option" where
  "read_ports s =
     (let d = takeWhile is_ascii_digit s; rest = dropWhile is_ascii_digit s in
      case parse_u16 d of
        None \<Rightarrow> None
      | Some p \<Rightarrow>
          if rest = '' }'' @ [LF] then Some [p]
          else if starts_with rest '', ''
          then (case read_ports (drop 2 rest) of None \<Rightarrow> None | Some ps \<Rightarrow> Some (p # ps))
          else None)"
  by pat_completeness auto
termination
proof (relation "measure length", goal_cases)
  case (2 s d rest p)
  then have "2 \<le> length rest" by (auto simp: starts_with_def prefix_def)
  moreover have "length rest \<le> length s" using 2(2) by (simp add: length_dropWhile_le)
  ultimately show ?case by simp
qed simp

declare read_ports.simps [simp del]

definition nft_eval :: "rstr \<Rightarrow> u16 set option" where
  "nft_eval batch =
     (let flush = ''flush set inet nixos-fw autopeer-ports'' @ [LF];
          add = ''add element inet nixos-fw autopeer-ports { '' in
      if batch = flush then Some {}
      else if starts_with batch (flush @ add)
      then map_option set (read_ports (drop (length (flush @ add)) batch))
      else None)"

lemma digits_show_u16: "list_all is_ascii_digit (show_u16 p)"
  by (auto simp: list_all_iff show_u16_def intro: set_show_nat)

lemma span_digits:
  assumes "\<not> is_ascii_digit c"
  shows "takeWhile is_ascii_digit (show_u16 p @ c # s) = show_u16 p"
    "dropWhile is_ascii_digit (show_u16 p @ c # s) = c # s"
  using digits_show_u16[of p] assms
  by (simp_all add: list_all_iff takeWhile_append2 dropWhile_append2)

lemma read_ports_show:
  "ports \<noteq> [] \<Longrightarrow> read_ports (join '', '' (map show_u16 ports) @ '' }'' @ [LF]) = Some ports"
proof (induction ports rule: induct_list012)
  case (2 p)
  show ?case
    using span_digits[of "CHR '' ''" p "''}'' @ [LF]"]
    by (subst read_ports.simps) (simp add: Let_def u16_text.prs_shw is_ascii_digit_def byte_def)
next
  case (3 p q ports)
  let ?rest = "join '', '' (map show_u16 (q # ports)) @ '' }'' @ [LF]"
  have split: "join '', '' (map show_u16 (p # q # ports)) @ '' }'' @ [LF]
      = show_u16 p @ CHR '','' # CHR '' '' # ?rest" by simp
  have "read_ports ?rest = Some (q # ports)" using 3 by simp
  then show ?case
    using span_digits[of "CHR '',''" p "CHR '' '' # ?rest"] unfolding split
    by (subst read_ports.simps)
      (simp add: Let_def u16_text.prs_shw is_ascii_digit_def byte_def starts_with_def
        del: join.simps list.map)
qed simp

text \<open>Read back in nftables' syntax, a batch replaces the set by exactly the given ports.\<close>

lemma nft_eval_batch: "nft_eval (nft_port_batch ports) = Some (set ports)"
proof (cases "ports = []")
  case False
  let ?flush = "''flush set inet nixos-fw autopeer-ports'' @ [LF]"
  let ?add = "''add element inet nixos-fw autopeer-ports { ''"
  let ?body = "join '', '' (map show_u16 ports) @ '' }'' @ [LF]"
  have batch: "nft_port_batch ports = (?flush @ ?add) @ ?body"
    using False unfolding nft_port_batch_def Let_def by (simp only: if_True append_assoc simp_thms)
  have "starts_with ((?flush @ ?add) @ ?body) (?flush @ ?add)"
    unfolding starts_with_def prefix_def by blast
  moreover have "(?flush @ ?add) @ ?body \<noteq> ?flush" by simp
  moreover have "drop (length (?flush @ ?add)) ((?flush @ ?add) @ ?body) = ?body"
    by (rule append_eq_conv_conj[THEN iffD1, THEN conjunct2, OF refl, symmetric])
  ultimately show ?thesis
    unfolding batch nft_eval_def Let_def
    by (simp only: if_True if_False read_ports_show[OF False] option.map)
qed (simp add: nft_port_batch_def nft_eval_def)

lemma set_desired_ports:
  "set (desired_ports peers) = p_listen_port ` {p \<in> set peers. desired_status (p_status p)}"
  by (auto simp: desired_ports_def)

lemma desired_ports_ordered: "sorted (desired_ports peers) \<and> distinct (desired_ports peers)"
  unfolding desired_ports_def by (simp add: distinct_remdups_adj_sorted sorted_remdups_adj)

text \<open>
  The batch for a list of peers means what it should: read back in nftables' syntax it replaces
  the whole set by exactly the listen ports of the peers that are wanted (by the empty set when there
  are none), and it names the ports in ascending order, each once.
\<close>

theorem nft_batch_of_peers:
  "nft_eval (nft_port_batch (desired_ports peers)) =
     Some (p_listen_port ` {p \<in> set peers. p_status p \<noteq> Deleting \<and> p_status p \<noteq> Disabled})
   \<and> sorted (desired_ports peers) \<and> distinct (desired_ports peers)"
  using desired_ports_ordered by (simp add: nft_eval_batch set_desired_ports desired_status_def)

section \<open>Synchronisation meets the database\<close>

text \<open>\<open>nft -f -\<close> runs a batch as one transaction and exits with 0 only when it was applied.\<close>

definition nft_honest :: "env \<Rightarrow> bool" where
  "nft_honest E = (\<forall>n batch status err. fst (nft_run E n batch) = NftExit True status err \<longrightarrow>
     snd (nft_run E n batch))"

text \<open>Other tasks respect \<open>nft_sync_lock\<close> when they run no batch as long as it is held.\<close>

definition respects_nft_lock :: "env \<Rightarrow> bool" where
  "respects_nft_lock E =
     (\<forall>n w. NftLock \<in> set (locks_held (w_locks w)) \<longrightarrow> w_nft_log (interfere E n w) = w_nft_log w)"

lemma quiet_respects_nft: "quiet E \<Longrightarrow> respects_nft_lock E"
  by (simp add: quiet_def respects_nft_lock_def)

lemma run_nft_batch_ok:
  assumes "respects_nft_lock E" "NftLock \<in> set (locks_held (w_locks w))"
    and "\<not> mocked E ''MOCK_NFTABLES''" "nft_honest E" "run_nft_batch E batch w = (Inr (), w')"
  shows "w_nft_log w' = w_nft_log w @ [batch]"
proof -
  obtain outcome applied where run: "nft_run E (w_tick w) batch = (outcome, applied)"
    by (cases "nft_run E (w_tick w) batch")
  then obtain status err where ok: "outcome = NftExit True status err"
    and w': "w' = (if applied then (await E w)\<lparr>w_nft_log := w_nft_log (await E w) @ [batch]\<rparr>
      else await E w)"
    using assms(3,5) unfolding run_nft_batch_def run_nft_batch_inner_def Let_def
    by (auto split: nft_outcome.splits if_splits)
  have applied using assms(4) run ok unfolding nft_honest_def by (metis fst_conv snd_conv)
  moreover have "w_nft_log (await E w) = w_nft_log w"
    using assms(1,2) by (simp add: await_def respects_nft_lock_def)
  ultimately show ?thesis using w' by simp
qed

definition desired_row :: "peer_row \<Rightarrow> bool" where
  "desired_row r = (c_status r \<noteq> ''deleting'' \<and> c_status r \<noteq> ''disabled'')"

lemma collected_ports:
  assumes "collect_results (row_to_peer decode) rows = Inr peers"
  shows "set (desired_ports peers) =
    (\<lambda>r. of_int (c_listen_port r)) ` {r \<in> set rows. desired_row r}"
proof -
  have l2: "list_all2 (\<lambda>r p. row_to_peer decode r = Inr p) rows peers"
    using assms unfolding collect_results_Inr .
  show ?thesis unfolding set_desired_ports using l2
  proof (induction rule: list_all2_induct)
    case (Cons r rows p peers)
    have eq: "desired_status (p_status p) = desired_row r" "p_listen_port p = of_int (c_listen_port r)"
      using row_to_peer_fields[OF Cons(1)] by (simp_all add: str_to_status_desired desired_row_def)
    have "{q \<in> set (p # peers). desired_status (p_status q)} =
        (if desired_row r then {p} else {}) \<union> {q \<in> set peers. desired_status (p_status q)}"
      using eq(1) by auto
    moreover have "{q \<in> set (r # rows). desired_row q} =
        (if desired_row r then {r} else {}) \<union> {q \<in> set rows. desired_row q}" by auto
    ultimately show ?case using Cons.IH eq(2) by (simp add: image_Un)
  qed simp
qed

lemma sync_nft_ports_for_log:
  assumes "respects_nft_lock E" "\<not> mocked E ''MOCK_NFTABLES''" "nft_honest E"
    and "sync_nft_ports_for E peers w = (Inr (), w')"
  shows "w_nft_log w' = w_nft_log (await E w) @ [nft_port_batch (desired_ports peers)]"
proof -
  obtain w1 where "run_nft_batch E (nft_port_batch (desired_ports peers)) (note_lock (Acquired NftLock) (await E w)) = (Inr (), w1)"
    and w': "w' = note_lock (Released NftLock) w1"
    using assms(4) unfolding sync_nft_ports_for_def with_lock_run by blast
  from run_nft_batch_ok[OF assms(1) _ assms(2,3) this(1)] show ?thesis by (simp add: w')
qed

lemma sync_nft_ports_for_run:
  assumes "quiet E" "\<not> mocked E ''MOCK_NFTABLES''" "nft_honest E"
    and "sync_nft_ports_for E peers w = (Inr (), w')"
  shows "w_nft_log w' = w_nft_log w @ [nft_port_batch (desired_ports peers)] \<and> db_view w' = db_view w"
  using sync_nft_ports_for_log[OF quiet_respects_nft[OF assms(1)] assms(2-4)]
    keepsD[OF nft_keeps(1)[OF assms(1), of db_view] assms(4)] by (simp add: await_quiet[OF assms(1)])

lemma sync_nft_ports_run:
  assumes "quiet E" "\<not> mocked E ''MOCK_NFTABLES''" "nft_honest E"
    and "sync_nft_ports E w = (Inr (), w')"
  shows "\<exists>batch. w_nft_log w' = w_nft_log w @ [batch] \<and>
    nft_eval batch = Some ((\<lambda>r. of_int (c_listen_port r)) ` {r \<in> set (w_peers w). desired_row r}) \<and>
    db_view w' = db_view w"
proof -
  obtain peers w1 where list: "list_peers E w = (Inr peers, w1)"
    and sync: "sync_nft_ports_for E peers w1 = (Inr (), w')"
    using assms(4) by (auto simp: sync_nft_ports_def and_then_Inr)
  have read: "collect_results (row_to_peer (b64_decode E)) (order_rows (collation E) (w_peers w)) = Inr peers"
    and db: "db_view w1 = db_view w"
    using list_peers_ok[OF assms(1) list] by simp_all
  have "nft_view w1 = nft_view w"
    using keepsD[OF store_keeps(11)[OF assms(1), of nft_view] list] by simp
  then show ?thesis
    using sync_nft_ports_for_run[OF assms(1-3) sync] collected_ports[OF read] db
    by (auto simp: nft_eval_batch nft_view_def)
qed

text \<open>
  C13. When \<open>sync_nft_ports\<close> succeeds, the last batch that nftables was given before the lock is
  released makes the set of open ports the listen ports of exactly the listed peers that are neither
  being deleted nor disabled, whatever other tasks do that respect the lock. If nothing interferes, it
  is the only batch, and the peers are those of the database.
\<close>

theorem sync_nft_ports_correct:
  assumes "respects_nft_lock E" "\<not> mocked E ''MOCK_NFTABLES''" "nft_honest E"
    and "list_peers E w = (Inr peers, w1)" "sync_nft_ports E w = (Inr (), w')"
  shows "\<exists>batch. w_nft_log w' = w_nft_log (await E w1) @ [batch]
    \<and> nft_eval batch = Some (p_listen_port ` {p \<in> set peers. desired_status (p_status p)})
    \<and> (quiet E \<longrightarrow> w_nft_log w' = w_nft_log w @ [batch] \<and> db_view w' = db_view w
         \<and> nft_eval batch = Some ((\<lambda>r. of_int (c_listen_port r)) ` {r \<in> set (w_peers w). desired_row r}))"
proof -
  let ?batch = "nft_port_batch (desired_ports peers)"
  have "sync_nft_ports_for E peers w1 = (Inr (), w')"
    using assms(4,5) by (auto simp: sync_nft_ports_def and_then_Inr)
  from sync_nft_ports_for_log[OF assms(1-3) this] have log: "w_nft_log w' = w_nft_log (await E w1) @ [?batch]" .
  have "w_nft_log w' = w_nft_log w @ [?batch] \<and> db_view w' = db_view w
         \<and> nft_eval ?batch = Some ((\<lambda>r. of_int (c_listen_port r)) ` {r \<in> set (w_peers w). desired_row r})" if "quiet E"
    using sync_nft_ports_run[OF that assms(2,3,5)] log by auto
  with log show ?thesis by (auto simp: nft_eval_batch set_desired_ports)
qed

theorem sync_nft_ports_correct_witness:
  "\<exists>batch. w_nft_log (snd (sync_nft_ports sample_env
     (empty_world\<lparr>w_peers := [reserved_row sample_peer 9]\<rparr>))) = [batch] \<and>
     nft_eval batch = Some {20001}"
proof -
  let ?w = "empty_world\<lparr>w_peers := [reserved_row sample_peer 9]\<rparr>"
  obtain w1 where list: "list_peers sample_env ?w = (Inr [sample_peer\<lparr>p_status := Provisioning\<rparr>], w1)"
    by (simp add: list_peers_def acquire_def execute_def and_then_def ext_call_def sql_select_def order_rows_def
        read_reserved_row)
  obtain w' where run: "sync_nft_ports sample_env ?w = (Inr (), w')"
    by (simp add: sync_nft_ports_def sync_nft_ports_for_def list_peers_def acquire_def execute_def
        and_then_def ext_call_def sql_select_def order_rows_def read_reserved_row
        run_nft_batch_def run_nft_batch_inner_def Let_def with_lock_def)
  have "nft_honest sample_env" by (simp add: nft_honest_def)
  moreover have "(\<lambda>r. of_int (c_listen_port r)) ` {r \<in> set (w_peers ?w). desired_row r}
      = {20001 :: u16}"
  proof -
    have "{r \<in> set (w_peers ?w). desired_row r} = {reserved_row sample_peer 9}"
      by (auto simp: desired_row_def)
    then show ?thesis by (simp add: sample_peer_def)
  qed
  moreover have "w_nft_log ?w = []" by (simp add: empty_world_def)
  ultimately show ?thesis
    using sync_nft_ports_correct[OF quiet_respects_nft[OF sample_env_quiet] _ _ list run] run by auto
qed


end
