(* ===== verification/Files.thy ===== *)
theory Files
  imports World
begin

text \<open>
  The file-system calls of \<open>src/manager.rs\<close> (\<open>tokio::fs\<close> and \<open>std::os::unix::fs\<close>): path
  resolution through symbolic links, and one definition per call with the errors it reports. A
  file system is an association list from paths to nodes; the empty path is the root directory.
\<close>

section \<open>Nodes and paths\<close>

definition fs_get :: "filesystem \<Rightarrow> path \<Rightarrow> node option" where
  "fs_get fs p = (if p = [] then Some Dir else map_of fs p)"

definition fs_del :: "path \<Rightarrow> filesystem \<Rightarrow> filesystem" where
  "fs_del p fs = filter (\<lambda>e. fst e \<noteq> p) fs"

definition fs_put :: "path \<Rightarrow> node \<Rightarrow> filesystem \<Rightarrow> filesystem" where
  "fs_put p n fs = fs_del p fs @ [(p, n)]"

definition children :: "filesystem \<Rightarrow> path \<Rightarrow> rstr list" where
  "children fs p = map (last \<circ> fst) (filter (\<lambda>e. fst e \<noteq> [] \<and> butlast (fst e) = p) fs)"

lemma map_of_filter_key:
  "map_of (filter (\<lambda>e. P (fst e)) xs) k = (if P k then map_of xs k else None)"
  by (induction xs) auto

lemma fs_get_del: "fs_get (fs_del p fs) q = (if q = p \<and> q \<noteq> [] then None else fs_get fs q)"
  using map_of_filter_key[of "\<lambda>x. x \<noteq> p" fs q]
  by (cases "q = p") (simp_all add: fs_get_def fs_del_def)

lemma fs_get_put:
  "fs_get (fs_put p n fs) q = (if q = p \<and> q \<noteq> [] then Some n else fs_get fs q)"
  using map_of_filter_key[of "\<lambda>x. x \<noteq> p" fs q]
  by (cases "q = p"; cases "map_of fs q")
    (simp_all add: fs_get_def fs_put_def fs_del_def map_add_def)

definition fs_wf :: "filesystem \<Rightarrow> bool" where
  "fs_wf fs = distinct (map fst fs)"

lemma fs_wf_del [simp]: "fs_wf fs \<Longrightarrow> fs_wf (fs_del p fs)"
  by (simp add: fs_wf_def fs_del_def distinct_map_filter)

lemma fs_wf_put [simp]: "fs_wf fs \<Longrightarrow> fs_wf (fs_put p n fs)"
  by (auto simp: fs_wf_def fs_put_def fs_del_def distinct_map_filter)

text \<open>
  Resolution of a path, following the links of every component (with the kernel's limit of 40
  links): the argument \<open>todo\<close> is what is left of the path.
\<close>

function walk :: "nat \<Rightarrow> filesystem \<Rightarrow> path \<Rightarrow> path \<Rightarrow> path option" where
  "walk links fs dir [] = Some dir"
| "walk links fs dir (c # todo) =
     (if c = ''.'' then walk links fs dir todo
      else if c = ''..'' then walk links fs (butlast dir) todo
      else case fs_get fs (dir @ [c]) of
        Some (Symlink absolute target) \<Rightarrow>
          (case links of
             0 \<Rightarrow> None
           | Suc n \<Rightarrow> walk n fs (if absolute then [] else dir) (target @ todo))
      | _ \<Rightarrow> walk links fs (dir @ [c]) todo)"
  by pat_completeness auto
termination
  by (relation "inv_image (less_than <*lex*> less_than) (\<lambda>(n, fs, dir, todo). (n, length todo))") auto

definition resolve :: "filesystem \<Rightarrow> path \<Rightarrow> path option" where
  "resolve fs p = walk 40 fs [] p"

text \<open>Resolution of everything but the last component, for the calls that act on links.\<close>

definition locate :: "filesystem \<Rightarrow> path \<Rightarrow> path option" where
  "locate fs p = map_option (\<lambda>dir. dir @ [last p]) (resolve fs (butlast p))"

section \<open>Errors of the kernel\<close>

definition enoent :: io_error where
  "enoent = IoError NotFoundKind (Some 2) ''No such file or directory (os error 2)''"
definition eexist :: io_error where
  "eexist = IoError OtherKind (Some 17) ''File exists (os error 17)''"
definition enotdir :: io_error where
  "enotdir = IoError OtherKind (Some 20) ''Not a directory (os error 20)''"
definition eisdir :: io_error where
  "eisdir = IoError OtherKind (Some 21) ''Is a directory (os error 21)''"
definition einval :: io_error where
  "einval = IoError OtherKind (Some 22) ''Invalid argument (os error 22)''"
definition eloop :: io_error where
  "eloop = IoError OtherKind (Some 40) ''Too many levels of symbolic links (os error 40)''"

section \<open>Calls\<close>

type_synonym 'a fs_call = "filesystem \<Rightarrow> (io_error + 'a) \<times> filesystem"

definition fs_io :: "env \<Rightarrow> path \<Rightarrow> 'a fs_call \<Rightarrow> 'a io" where
  "fs_io E p q = ext_call E (fs_fault E) (\<lambda>e. BirdConfigIo e (show_path p))
     (\<lambda>w. case q (w_fs w) of (r, fs) \<Rightarrow> (r, w\<lparr>w_fs := fs\<rparr>))"

text \<open>A node that exists, at its resolved path, or an error.\<close>

definition look :: "filesystem \<Rightarrow> path option \<Rightarrow> io_error + path \<times> node" where
  "look fs at =
     (case at of
        None \<Rightarrow> Inl eloop
      | Some p \<Rightarrow> (case fs_get fs p of None \<Rightarrow> Inl enoent | Some n \<Rightarrow> Inr (p, n)))"

text \<open>The path of a new entry: its parent must be a directory.\<close>

definition new_entry :: "filesystem \<Rightarrow> path option \<Rightarrow> io_error + path" where
  "new_entry fs at =
     (case at of
        None \<Rightarrow> Inl eloop
      | Some p \<Rightarrow>
          (case fs_get fs (butlast p) of
             None \<Rightarrow> Inl enoent
           | Some Dir \<Rightarrow> if fs_get fs p = None then Inr p else Inl eexist
           | Some _ \<Rightarrow> Inl enotdir))"

fun make_dirs :: "path list \<Rightarrow> unit fs_call" where
  "make_dirs [] fs = (Inr (), fs)"
| "make_dirs (p # ps) fs =
     (case resolve fs p of
        None \<Rightarrow> (Inl eloop, fs)
      | Some q \<Rightarrow>
          (case fs_get fs q of
             None \<Rightarrow> make_dirs ps (fs_put q Dir fs)
           | Some Dir \<Rightarrow> make_dirs ps fs
           | Some _ \<Rightarrow> (Inl eexist, fs)))"

definition create_dir_all :: "path \<Rightarrow> unit fs_call" where
  "create_dir_all p = make_dirs (tl (prefixes p))"

definition symlink_metadata :: "path \<Rightarrow> node fs_call" where
  "symlink_metadata p fs = (map_sum id snd (look fs (locate fs p)), fs)"

definition metadata :: "path \<Rightarrow> node fs_call" where
  "metadata p fs = (map_sum id snd (look fs (resolve fs p)), fs)"

definition create_dir :: "path \<Rightarrow> unit fs_call" where
  "create_dir p fs =
     (case new_entry fs (locate fs p) of Inl e \<Rightarrow> (Inl e, fs) | Inr q \<Rightarrow> (Inr (), fs_put q Dir fs))"

definition symlink :: "bool \<times> path \<Rightarrow> path \<Rightarrow> unit fs_call" where
  "symlink target p fs =
     (case new_entry fs (locate fs p) of
        Inl e \<Rightarrow> (Inl e, fs)
      | Inr q \<Rightarrow> (Inr (), fs_put q (Symlink (fst target) (snd target)) fs))"

definition read_link :: "path \<Rightarrow> (bool \<times> path) fs_call" where
  "read_link p fs =
     (case look fs (locate fs p) of
        Inl e \<Rightarrow> (Inl e, fs)
      | Inr (_, Symlink absolute target) \<Rightarrow> (Inr (absolute, target), fs)
      | Inr _ \<Rightarrow> (Inl einval, fs))"

text \<open>
  \<open>rename\<close> replaces a file or a link, and refuses to replace a directory. A directory moves with
  everything below it, to a free name only.
\<close>

definition move_tree :: "path \<Rightarrow> path \<Rightarrow> filesystem \<Rightarrow> filesystem" where
  "move_tree p q fs =
     map (\<lambda>(k, n). (if prefix p k then q @ drop (length p) k else k, n)) fs"

definition rename :: "path \<Rightarrow> path \<Rightarrow> unit fs_call" where
  "rename old new fs =
     (case look fs (locate fs old) of
        Inl e \<Rightarrow> (Inl e, fs)
      | Inr (p, n) \<Rightarrow>
          (case locate fs new of
             None \<Rightarrow> (Inl eloop, fs)
           | Some q \<Rightarrow>
               if fs_get fs (butlast q) \<noteq> Some Dir then (Inl enoent, fs)
               else if fs_get fs q = Some Dir then (Inl eisdir, fs)
               else if n = Dir then
                 (if fs_get fs q = None then (Inr (), move_tree p q fs) else (Inl enotdir, fs))
               else (Inr (), fs_put q n (fs_del p fs))))"

definition remove_file :: "path \<Rightarrow> unit fs_call" where
  "remove_file p fs =
     (case look fs (locate fs p) of
        Inl e \<Rightarrow> (Inl e, fs)
      | Inr (q, n) \<Rightarrow> if n = Dir then (Inl eisdir, fs) else (Inr (), fs_del q fs))"

definition remove_dir_all :: "path \<Rightarrow> unit fs_call" where
  "remove_dir_all p fs =
     (case look fs (locate fs p) of
        Inl e \<Rightarrow> (Inl e, fs)
      | Inr (q, Dir) \<Rightarrow> (Inr (), filter (\<lambda>e. \<not> prefix q (fst e)) fs)
      | Inr (q, _) \<Rightarrow> (Inl enotdir, fs))"

definition read_dir :: "path \<Rightarrow> rstr list fs_call" where
  "read_dir p fs =
     (case look fs (resolve fs p) of
        Inl e \<Rightarrow> (Inl e, fs)
      | Inr (q, Dir) \<Rightarrow> (Inr (children fs q), fs)
      | Inr _ \<Rightarrow> (Inl enotdir, fs))"

definition read_file :: "path \<Rightarrow> rstr fs_call" where
  "read_file p fs =
     (case look fs (resolve fs p) of
        Inl e \<Rightarrow> (Inl e, fs)
      | Inr (q, File content) \<Rightarrow> (Inr content, fs)
      | Inr _ \<Rightarrow> (Inl eisdir, fs))"

text \<open>\<open>open\<close> with \<open>create\<close> and \<open>truncate\<close>, then \<open>write_all\<close> on the open file.\<close>

definition open_truncate :: "path \<Rightarrow> unit fs_call" where
  "open_truncate p fs =
     (case resolve fs p of
        None \<Rightarrow> (Inl eloop, fs)
      | Some q \<Rightarrow>
          (case fs_get fs (butlast q) of
             None \<Rightarrow> (Inl enoent, fs)
           | Some Dir \<Rightarrow>
               if fs_get fs q = Some Dir then (Inl eisdir, fs) else (Inr (), fs_put q (File []) fs)
           | Some _ \<Rightarrow> (Inl enotdir, fs)))"

definition write_all :: "path \<Rightarrow> rstr \<Rightarrow> unit fs_call" where
  "write_all p content fs =
     (case resolve fs p of
        None \<Rightarrow> (Inr (), fs)
      | Some q \<Rightarrow>
          (case fs_get fs q of
             Some (File old) \<Rightarrow> (Inr (), fs_put q (File (old @ content)) fs)
           | _ \<Rightarrow> (Inr (), fs)))"

text \<open>\<open>flush\<close>, \<open>sync_all\<close>, \<open>set_permissions\<close> and \<open>next_entry\<close> change nothing that is modelled.\<close>

definition fs_touch :: "unit fs_call" where
  "fs_touch fs = (Inr (), fs)"

text \<open>\<open>File::open\<close> on a directory.\<close>

definition open_existing :: "path \<Rightarrow> unit fs_call" where
  "open_existing p fs = (map_sum id (\<lambda>_. ()) (look fs (resolve fs p)), fs)"

section \<open>Frames\<close>

definition beside_fs :: "(world \<Rightarrow> 'v) \<Rightarrow> bool" where
  "beside_fs v = (tick_free v \<and> (\<forall>w f l. v (w\<lparr>w_fs := f, w_bird_log := l\<rparr>) = v w))"

lemma beside_fs_views [simp]:
  "beside_fs db_view" "beside_fs kernel_view" "beside_fs nft_view" "beside_fs w_permits"
  by (simp_all add: beside_fs_def db_view_def kernel_view_def nft_view_def)

lemma beside_fs_update: "beside_fs v \<Longrightarrow> v (w\<lparr>w_fs := f\<rparr>) = v w"
proof -
  assume "beside_fs v"
  then have "v (w\<lparr>w_fs := f, w_bird_log := w_bird_log w\<rparr>) = v w" by (simp only: beside_fs_def)
  then show ?thesis by simp
qed

lemma keeps_fs_io:
  "quiet E \<Longrightarrow> beside_fs v \<Longrightarrow> keeps v (fs_io E p q)"
  unfolding fs_io_def
  by (rule keeps_ext_call) (simp_all add: beside_fs_update split: prod.split, simp add: beside_fs_def)

lemma preserves_fs_io:
  "stable E I \<Longrightarrow> about v I \<Longrightarrow> beside_fs v \<Longrightarrow> preserves I (fs_io E p q)"
  unfolding fs_io_def
  by (rule preserves_ext_call_view[where v = v]) (simp_all add: beside_fs_update split: prod.split)

lemma keeps_bird_log_fs_io: "quiet E \<Longrightarrow> keeps w_bird_log (fs_io E p q)"
  unfolding fs_io_def by (rule keeps_ext_call) (simp_all add: tick_free_def split: prod.split)

section \<open>Resolution in a directory without links\<close>

text \<open>\<open>plain_dir fs p\<close>: every prefix of \<open>p\<close> is a directory itself, and no component is dotted.\<close>

definition plain_name :: "rstr \<Rightarrow> bool" where
  "plain_name c = (c \<noteq> ''.'' \<and> c \<noteq> ''..'')"

definition plain_dir :: "filesystem \<Rightarrow> path \<Rightarrow> bool" where
  "plain_dir fs p = (list_all plain_name p \<and> (\<forall>q\<in>set (prefixes p). fs_get fs q = Some Dir))"

lemma plain_dir_Nil [simp]: "plain_dir fs []"
  by (simp add: plain_dir_def fs_get_def)

lemma plain_dir_snoc:
  "plain_dir fs (p @ [c]) \<longleftrightarrow> plain_dir fs p \<and> plain_name c \<and> fs_get fs (p @ [c]) = Some Dir"
  by (auto simp: plain_dir_def)

lemma plain_dir_get: "plain_dir fs p \<Longrightarrow> fs_get fs p = Some Dir"
  by (simp add: plain_dir_def)

lemma walk_plain:
  "plain_dir fs (dir @ p) \<Longrightarrow> walk k fs dir (p @ todo) = walk k fs (dir @ p) todo"
proof (induction p arbitrary: dir)
  case (Cons c p)
  have "plain_dir fs (dir @ [c])"
    using Cons.prems by (auto simp: plain_dir_def)
  then have "fs_get fs (dir @ [c]) = Some Dir" "c \<noteq> ''.''" "c \<noteq> ''..''"
    by (simp_all add: plain_dir_snoc plain_name_def)
  with Cons.IH[of "dir @ [c]"] Cons.prems show ?case by simp
qed simp

lemma resolve_plain: "plain_dir fs p \<Longrightarrow> resolve fs p = Some p"
  using walk_plain[of fs "[]" p 40 "[]"] by (simp add: resolve_def)

lemma locate_plain: "plain_dir fs p \<Longrightarrow> locate fs (p @ [c]) = Some (p @ [c])"
  by (simp add: locate_def resolve_plain)

lemma resolve_entry:
  "plain_dir fs p \<Longrightarrow> plain_name c \<Longrightarrow> (\<forall>a t. fs_get fs (p @ [c]) \<noteq> Some (Symlink a t)) \<Longrightarrow>
   resolve fs (p @ [c]) = Some (p @ [c])"
  using walk_plain[of fs "[]" p 40 "[c]"]
  by (simp add: resolve_def plain_name_def split: option.split node.split)

text \<open>Through a link in a plain directory to a plain directory.\<close>

lemma resolve_link:
  assumes "plain_dir fs root" "plain_name c" "fs_get fs (root @ [c]) = Some (Symlink False t)"
    "plain_dir fs (root @ t)"
  shows "resolve fs (root @ [c]) = Some (root @ t)"
    "plain_name d \<Longrightarrow> (\<forall>a s. fs_get fs (root @ t @ [d]) \<noteq> Some (Symlink a s)) \<Longrightarrow>
     resolve fs (root @ [c, d]) = Some (root @ t @ [d])"
proof -
  have link: "walk 40 fs [] (root @ c # todo) = walk 39 fs root (t @ todo)" for todo
    using walk_plain[of fs "[]" root 40 "c # todo"] assms(1-3)
    by (simp add: plain_name_def eval_nat_numeral)
  show "resolve fs (root @ [c]) = Some (root @ t)"
    using link[of "[]"] walk_plain[OF assms(4), of 39 "[]"] by (simp add: resolve_def)
  show "plain_name d \<Longrightarrow> (\<forall>a s. fs_get fs (root @ t @ [d]) \<noteq> Some (Symlink a s)) \<Longrightarrow>
     resolve fs (root @ [c, d]) = Some (root @ t @ [d])"
    using link[of "[d]"] walk_plain[OF assms(4), of 39 "[d]"]
    by (simp add: resolve_def plain_name_def split: option.split node.split)
qed

end
