(* ===== verification/Bird.thy ===== *)
theory Bird
  imports Files Persist
begin

text \<open>
  The BIRD half of \<open>src/manager.rs\<close>: rendering, the generations of configuration files, the
  switch of the \<open>current\<close> link, and the reload over BIRD's socket. A \<open>BTreeMap\<close> is an
  association list with ascending keys. \<open>w_bird_log\<close> records, for each \<open>configure soft\<close> that BIRD
  received, what \<open>current\<close> was at that moment.
\<close>

section \<open>The manager's configuration\<close>

record peer_manager =
  bird_conf_dir :: path
  bird_socket :: rstr
  local_wg_privkey :: rstr
  local_wg_pubkey :: rstr
  public_endpoint :: rstr
  local_asn :: u32

definition generations_path :: "peer_manager \<Rightarrow> path" where
  "generations_path m = bird_conf_dir m @ [''generations'']"

definition current_path :: "peer_manager \<Rightarrow> path" where
  "current_path m = bird_conf_dir m @ [''current'']"

section \<open>Sorted maps\<close>

fun bt_insert :: "rstr \<Rightarrow> 'a \<Rightarrow> (rstr \<times> 'a) list \<Rightarrow> (rstr \<times> 'a) list" where
  "bt_insert k v [] = [(k, v)]"
| "bt_insert k v ((k', v') # m) =
     (if k < k' then (k, v) # (k', v') # m
      else if k = k' then (k, v) # m
      else (k', v') # bt_insert k v m)"

section \<open>Rendering\<close>

definition render_peer_config :: "env \<Rightarrow> peer_manager \<Rightarrow> peer \<Rightarrow> rstr" where
  "render_peer_config E m p = render (template_trailer E)
     \<lparr>t_peer_id = p_peer_id p, t_peer_name = p_peer_name p, t_asn = p_asn p,
      t_local_asn = local_asn m, t_iface = p_iface_name p, t_local_ll_ip = p_local_ll_ip p,
      t_remote_ll_ip = p_remote_ll_ip p\<rparr>"

fun desired_configs ::
  "env \<Rightarrow> peer_manager \<Rightarrow> peer list \<Rightarrow> (rstr \<times> rstr) list \<Rightarrow> peer_error + (rstr \<times> rstr) list" where
  "desired_configs E m [] desired = Inr desired"
| "desired_configs E m (p # ps) desired =
     (if \<not> desired_status (p_status p) then desired_configs E m ps desired
      else if p_iface_name p \<noteq> ''wgp'' @ show_u32 (p_peer_id p)
      then Inl (Validation (''The database contains an invalid interface name for peer ''
                  @ show_u32 (p_peer_id p)))
      else desired_configs E m ps
             (bt_insert (p_iface_name p @ ''.conf'') (render_peer_config E m p) desired))"

section \<open>Files\<close>

definition not_found_io :: "peer_error \<Rightarrow> bool" where
  "not_found_io e = (case e of BirdConfigIo io _ \<Rightarrow> io_error_kind io = NotFoundKind | _ \<Rightarrow> False)"

definition read_nanos :: "env \<Rightarrow> nat io" where
  "read_nanos E = (\<lambda>w. (Inr (unique_suffix E w), w))"

definition sync_directory :: "env \<Rightarrow> path \<Rightarrow> unit io" where
  "sync_directory E p =
     and_then (fs_io E p (open_existing p)) (\<lambda>_. fs_io E p fs_touch)"

definition write_atomic :: "env \<Rightarrow> path \<Rightarrow> rstr \<Rightarrow> unit io" where
  "write_atomic E p content =
     and_then (read_nanos E) (\<lambda>suffix.
     let temporary = butlast p @ [''.'' @ last p @ ''.'' @ show_nat (process_id E) @ ''.''
                       @ show_nat suffix @ ''.tmp''];
         parent = butlast p in
     and_then (fs_io E parent (metadata parent)) (\<lambda>_.
     and_then (fs_io E temporary (open_truncate temporary)) (\<lambda>_.
     and_then (fs_io E temporary (write_all temporary content)) (\<lambda>_.
     and_then (fs_io E temporary fs_touch) (\<lambda>_.
     and_then (fs_io E temporary fs_touch) (\<lambda>_.
     and_then (fs_io E temporary fs_touch) (\<lambda>_.
     fs_io E p (rename temporary p))))))))"

definition remove_optional :: "env \<Rightarrow> path \<Rightarrow> unit io" where
  "remove_optional E p =
     and_then (attempt (fs_io E p (remove_file p))) (\<lambda>r.
     case r of
       Inr _ \<Rightarrow> ret ()
     | Inl e \<Rightarrow> if not_found_io e then ret () else throw e)"

definition atomic_switch_current :: "env \<Rightarrow> path \<Rightarrow> bool \<times> path \<Rightarrow> unit io" where
  "atomic_switch_current E root target =
     and_then (read_nanos E) (\<lambda>suffix.
     let current = root @ [''current''];
         temporary = root @ [''.current.'' @ show_nat suffix @ ''.tmp''] in
     and_then (fs_io E temporary (symlink target temporary)) (\<lambda>_.
     and_then (attempt (fs_io E current (rename temporary current))) (\<lambda>r.
     case r of
       Inl e \<Rightarrow>
         and_then (attempt (fs_io E temporary (remove_file temporary))) (\<lambda>_. throw e)
     | Inr _ \<Rightarrow> sync_directory E root)))"

definition switch_current :: "env \<Rightarrow> peer_manager \<Rightarrow> bool \<times> path \<Rightarrow> unit io" where
  "switch_current E m target = atomic_switch_current E (bird_conf_dir m) target"

fun collect_generation ::
  "env \<Rightarrow> path \<Rightarrow> rstr list \<Rightarrow> (rstr \<times> rstr) list \<Rightarrow> (rstr \<times> rstr) list io" where
  "collect_generation E gp [] actual = and_then (fs_io E gp fs_touch) (\<lambda>_. ret actual)"
| "collect_generation E gp (name # names) actual =
     and_then (fs_io E gp fs_touch) (\<lambda>_.
     if \<not> ends_with name ''.conf'' then collect_generation E gp names actual
     else and_then (fs_io E (gp @ [name]) (read_file (gp @ [name]))) (\<lambda>content.
          collect_generation E gp names (bt_insert name content actual)))"

definition generation_matches :: "env \<Rightarrow> path \<Rightarrow> (rstr \<times> rstr) list \<Rightarrow> bool io" where
  "generation_matches E gp desired =
     and_then (attempt (fs_io E gp (read_dir gp))) (\<lambda>r.
     case r of
       Inr names \<Rightarrow>
         and_then (collect_generation E gp names []) (\<lambda>actual. ret (actual = desired))
     | Inl e \<Rightarrow> if not_found_io e then ret False else throw e)"

definition current_generation_matches :: "env \<Rightarrow> peer_manager \<Rightarrow> (rstr \<times> rstr) list \<Rightarrow> bool io" where
  "current_generation_matches E m desired = generation_matches E (current_path m) desired"

definition ensure_bird_layout :: "env \<Rightarrow> peer_manager \<Rightarrow> unit io" where
  "ensure_bird_layout E m =
     (let empty = generations_path m @ [''empty''] in
      and_then (fs_io E empty (create_dir_all empty)) (\<lambda>_.
      and_then (attempt (fs_io E (current_path m) (symlink_metadata (current_path m)))) (\<lambda>r.
      case r of
        Inr _ \<Rightarrow> ret ()
      | Inl e \<Rightarrow>
          if not_found_io e then switch_current E m (False, [''generations'', ''empty''])
          else throw e)))"

fun remove_generations :: "env \<Rightarrow> path \<Rightarrow> rstr \<Rightarrow> rstr list \<Rightarrow> unit io" where
  "remove_generations E gens current_name [] = and_then (attempt (fs_io E gens fs_touch)) (\<lambda>_. ret ())"
| "remove_generations E gens current_name (name # names) =
     and_then (attempt (fs_io E gens fs_touch)) (\<lambda>r.
     case r of
       Inl _ \<Rightarrow> ret ()
     | Inr _ \<Rightarrow>
         if name = ''empty'' \<or> name = current_name \<or> \<not> starts_with name ''generation-''
         then remove_generations E gens current_name names
         else and_then (attempt (fs_io E (gens @ [name]) (remove_dir_all (gens @ [name])))) (\<lambda>_.
              remove_generations E gens current_name names))"

definition remove_old_generations :: "env \<Rightarrow> peer_manager \<Rightarrow> rstr \<Rightarrow> unit io" where
  "remove_old_generations E m current_name =
     and_then (attempt (fs_io E (generations_path m) (read_dir (generations_path m)))) (\<lambda>r.
     case r of
       Inl _ \<Rightarrow> ret ()
     | Inr names \<Rightarrow> remove_generations E (generations_path m) current_name names)"

section \<open>The conversation with BIRD\<close>

text \<open>A line with a four-character code and a space ends a reply; continuation lines have a \<open>-\<close>.\<close>

definition final_line :: "rstr \<Rightarrow> bool" where
  "final_line line = (length line \<ge> 5 \<and> line ! 4 = CHR '' '')"

text \<open>The banner: an error and the end of the stream look the same (\<open>unwrap_or(0)\<close>).\<close>

fun wait_banner :: "(rstr + rstr) list \<Rightarrow> (rstr + rstr) list option" where
  "wait_banner [] = None"
| "wait_banner (Inl e # ls) = None"
| "wait_banner (Inr line # ls) =
     (if line = [] then None else if final_line line then Some ls else wait_banner ls)"

fun read_reply :: "rstr \<Rightarrow> (rstr + rstr) list \<Rightarrow> peer_error + unit" where
  "read_reply output [] =
     Inl (BirdReload (''The BIRD socket closed early. Output: '' @ trim output))"
| "read_reply output (Inl e # ls) =
     Inl (BirdReload (''BIRD socket read failed: '' @ e @ ''. Output: '' @ output))"
| "read_reply output (Inr line # ls) =
     (if line = [] then Inl (BirdReload (''The BIRD socket closed early. Output: '' @ trim output))
      else if final_line line then
        (if starts_with line ''8'' \<or> starts_with line ''9''
         then Inl (BirdReload (trim (output @ line))) else Inr ())
      else read_reply (output @ line) ls)"

definition configure_received :: "peer_manager \<Rightarrow> world \<Rightarrow> world" where
  "configure_received m w =
     w\<lparr>w_bird_log := w_bird_log w @ [fs_get (w_fs w) (current_path m)]\<rparr>"

definition reload_bird_inner :: "env \<Rightarrow> peer_manager \<Rightarrow> unit io" where
  "reload_bird_inner E m w =
     (let w1 = await E w; s = bird_connect E (w_tick w) in
      case bs_connect s of
        Some source \<Rightarrow> (Inl (BirdConfigIo source (bird_socket m)), w1)
      | None \<Rightarrow>
          (case wait_banner (bs_lines s) of
             None \<Rightarrow>
               (Inl (BirdReload ''The BIRD socket closed before it sent the banner''), w1)
           | Some rest \<Rightarrow>
               (case bs_write s of
                  Some source \<Rightarrow> (Inl (BirdConfigIo source (bird_socket m)), w1)
                | None \<Rightarrow> (read_reply [] rest, configure_received m w1))))"

definition reload_bird :: "env \<Rightarrow> peer_manager \<Rightarrow> unit io" where
  "reload_bird E m w =
     (if mocked E ''MOCK_BIRD'' then (Inr (), w)
      else case reload_bird_inner E m w of (result, w1) \<Rightarrow>
        if bird_timeout E (w_tick w)
        then (Inl (BirdReload ''BIRD did not respond within 10 seconds''), w1)
        else (result, w1))"

section \<open>Synchronisation\<close>

text \<open>What follows a failed reload: the old generation, and a second reload whose result is ignored.\<close>

definition restore_generation ::
  "env \<Rightarrow> peer_manager \<Rightarrow> (bool \<times> path) option \<Rightarrow> peer_error \<Rightarrow> unit io" where
  "restore_generation E m old_target reload_error =
     and_then (attempt (case old_target of
         Some target \<Rightarrow> switch_current E m target
       | None \<Rightarrow> remove_optional E (current_path m))) (\<lambda>restore_result.
     case restore_result of
       Inl restore_error \<Rightarrow>
         throw (BirdReload (display_error reload_error
           @ ''. The previous generation could not be restored: '' @ display_error restore_error))
     | Inr _ \<Rightarrow> and_then (attempt (reload_bird E m)) (\<lambda>_. throw reload_error))"

definition write_generation ::
  "env \<Rightarrow> peer_manager \<Rightarrow> (rstr \<times> rstr) list \<Rightarrow> rstr io" where
  "write_generation E m desired =
     and_then (read_nanos E) (\<lambda>suffix.
     let generation_name = ''generation-'' @ show_nat suffix;
         generation_path = generations_path m @ [generation_name] in
     and_then (fs_io E generation_path (create_dir generation_path)) (\<lambda>_.
     and_then (for_io (\<lambda>(file_name, content). write_atomic E (generation_path @ [file_name]) content)
                desired) (\<lambda>_.
     and_then (sync_directory E generation_path) (\<lambda>_.
     ret generation_name))))"

definition install_generation :: "env \<Rightarrow> peer_manager \<Rightarrow> rstr \<Rightarrow> unit io" where
  "install_generation E m generation_name =
     and_then (attempt (fs_io E (current_path m) (read_link (current_path m)))) (\<lambda>old.
     let old_target = (case old of Inl _ \<Rightarrow> None | Inr target \<Rightarrow> Some target) in
     and_then (switch_current E m (False, [''generations'', generation_name])) (\<lambda>_.
     and_then (attempt (reload_bird E m)) (\<lambda>reload_result.
     case reload_result of
       Inl reload_error \<Rightarrow> restore_generation E m old_target reload_error
     | Inr _ \<Rightarrow> remove_old_generations E m generation_name)))"

text \<open>What \<open>sync_bird_configs_for\<close> does under its lock.\<close>

definition sync_bird_locked :: "env \<Rightarrow> peer_manager \<Rightarrow> peer list \<Rightarrow> bool \<Rightarrow> unit io" where
  "sync_bird_locked E m peers force_reload =
     and_then (ensure_bird_layout E m) (\<lambda>_.
     and_then (lift_res (desired_configs E m peers [])) (\<lambda>desired.
     and_then (current_generation_matches E m desired) (\<lambda>same.
     if same then (if force_reload then reload_bird E m else ret ())
     else
       and_then (write_generation E m desired) (\<lambda>generation_name.
       install_generation E m generation_name))))"

definition sync_bird_configs_for :: "env \<Rightarrow> peer_manager \<Rightarrow> peer list \<Rightarrow> bool \<Rightarrow> unit io" where
  "sync_bird_configs_for E m peers force_reload =
     with_lock E BirdLock (sync_bird_locked E m peers force_reload)"

definition sync_bird_configs :: "env \<Rightarrow> peer_manager \<Rightarrow> unit io" where
  "sync_bird_configs E m =
     and_then (list_peers E) (\<lambda>peers. sync_bird_configs_for E m peers False)"

section \<open>Frames\<close>

lemma keeps_read_nanos [frame_rules]: "keeps v (read_nanos E)"
  by (simp add: keeps_def read_nanos_def)

lemma preserves_read_nanos [frame_rules]: "preserves I (read_nanos E)"
  by (simp add: preserves_def read_nanos_def)

lemma keeps_let [frame_rules]: "(\<And>x. keeps v (f x)) \<Longrightarrow> keeps v (let x = e in f x)"
  by (simp add: Let_def)

lemma preserves_let [frame_rules]: "(\<And>x. preserves I (f x)) \<Longrightarrow> preserves I (let x = e in f x)"
  by (simp add: Let_def)

lemma reload_bird_world:
  "snd (reload_bird E m w) \<in> {w, await E w, configure_received m (await E w)}"
  by (auto simp: reload_bird_def reload_bird_inner_def Let_def split: option.split prod.split
      if_splits)

lemma keeps_reload_bird:
  assumes "quiet E" "beside_fs v"
  shows "keeps v (reload_bird E m)"
proof (rule keepsI)
  fix w
  have "v (await E w) = v w"
    using assms by (simp add: await_quiet beside_fs_def tick_free_def)
  moreover have "v (configure_received m u) = v u" for u
  proof -
    have "v (u\<lparr>w_fs := w_fs u, w_bird_log := l\<rparr>) = v u" for l
      using assms(2) by (simp only: beside_fs_def)
    then show ?thesis by (simp add: configure_received_def)
  qed
  ultimately show "v (snd (reload_bird E m w)) = v w" using reload_bird_world[of E m w] by auto
qed

lemma preserves_reload_bird:
  assumes "stable E I" "about v I" "beside_fs v"
  shows "preserves I (reload_bird E m)"
proof (rule preservesI)
  fix w assume "I w"
  then have "I (await E w)" using assms(1) by (simp add: stable_def)
  moreover have "I (configure_received m u) = I u" for u
  proof (rule aboutD[OF assms(2)])
    have "v (u\<lparr>w_fs := w_fs u, w_bird_log := l\<rparr>) = v u" for l
      using assms(3) by (simp only: beside_fs_def)
    then show "v (configure_received m u) = v u" by (simp add: configure_received_def)
  qed
  ultimately have "I x" if "x \<in> {w, await E w, configure_received m (await E w)}" for x
    using that \<open>I w\<close> by blast
  then show "I (snd (reload_bird E m w))" using reload_bird_world by blast
qed

lemma bird_keeps:
  assumes "quiet E" "beside_fs v"
  shows "lock_free v \<Longrightarrow> keeps v (sync_bird_configs_for E m peers force_reload)"
    "lock_free v \<Longrightarrow> beside_db v \<Longrightarrow> keeps v (sync_bird_configs E m)"
    "keeps v (sync_bird_locked E m peers force_reload)"
proof -
  have tf: "tick_free v" using assms(2) by (simp add: beside_fs_def)
  note rules = frame_rules keeps_fs_io[OF assms] keeps_reload_bird[OF assms] tf assms(1)
  have collect: "keeps v (collect_generation E gp names actual)" for gp names actual
    by (induction names arbitrary: actual) (auto intro!: rules)
  have old: "keeps v (remove_generations E gens c names)" for gens c names
    by (induction names) (auto intro!: rules)
  have sync: "keeps v (sync_directory E p)" for p unfolding sync_directory_def by (intro rules)
  have switch: "keeps v (switch_current E m t)" for t
    unfolding switch_current_def atomic_switch_current_def by (intro rules sync)
  have wa: "keeps v (write_atomic E p c)" for p c unfolding write_atomic_def by (intro rules)
  have opt: "keeps v (remove_optional E p)" for p unfolding remove_optional_def by (intro rules)
  show locked: "keeps v (sync_bird_locked E m peers force_reload)" for peers force_reload
    unfolding sync_bird_locked_def ensure_bird_layout_def current_generation_matches_def
      generation_matches_def write_generation_def install_generation_def restore_generation_def remove_old_generations_def
    by (intro rules collect old sync switch wa opt)
  show main: "lock_free v \<Longrightarrow> keeps v (sync_bird_configs_for E m peers force_reload)" for peers force_reload
    unfolding sync_bird_configs_for_def by (intro rules locked)
  show "lock_free v \<Longrightarrow> beside_db v \<Longrightarrow> keeps v (sync_bird_configs E m)"
    unfolding sync_bird_configs_def by (intro rules main)
qed

lemma bird_preserves:
  assumes "stable E I" "about v I" "beside_fs v"
  shows "lock_free v \<Longrightarrow> preserves I (sync_bird_configs_for E m peers force_reload)"
    "lock_free v \<Longrightarrow> preserves I (list_peers E) \<Longrightarrow> preserves I (sync_bird_configs E m)"
    "preserves I (sync_bird_locked E m peers force_reload)" "preserves I (restore_generation E m target err)"
proof -
  note rules = frame_rules preserves_fs_io[OF assms] preserves_reload_bird[OF assms] assms(1)
  have collect: "preserves I (collect_generation E gp names actual)" for gp names actual
    by (induction names arbitrary: actual) (auto intro!: rules)
  have old: "preserves I (remove_generations E gens c names)" for gens c names
    by (induction names) (auto intro!: rules)
  have sync: "preserves I (sync_directory E p)" for p
    unfolding sync_directory_def by (intro rules)
  have switch: "preserves I (switch_current E m t)" for t
    unfolding switch_current_def atomic_switch_current_def by (intro rules sync)
  have wa: "preserves I (write_atomic E p c)" for p c unfolding write_atomic_def by (intro rules)
  have opt: "preserves I (remove_optional E p)" for p unfolding remove_optional_def by (intro rules)
  show "preserves I (restore_generation E m target err)"
    unfolding restore_generation_def by (intro rules switch opt)
  show locked: "preserves I (sync_bird_locked E m peers force_reload)" for peers force_reload
    unfolding sync_bird_locked_def ensure_bird_layout_def current_generation_matches_def
      generation_matches_def write_generation_def install_generation_def restore_generation_def remove_old_generations_def
    by (intro rules collect old sync switch wa opt)
  show main: "lock_free v \<Longrightarrow> preserves I (sync_bird_configs_for E m peers force_reload)" for peers force_reload
    unfolding sync_bird_configs_for_def by (intro rules locked about_lock_free[OF assms(2)])
  show "lock_free v \<Longrightarrow> preserves I (list_peers E) \<Longrightarrow> preserves I (sync_bird_configs E m)"
    unfolding sync_bird_configs_def by (intro rules main)
qed

end
