(* ===== verification/Manager.thy ===== *)
theory Manager
  imports Netlink Nft Bird
begin

text \<open>
  \<open>PeerManager\<close> of \<open>src/manager.rs\<close>: the operations on peers, which coordinate the database, the
  kernel, BIRD and nftables, with their compensations, and the recovery at startup.
\<close>

section \<open>Addresses and endpoints\<close>

definition asn_link_local :: "u32 \<Rightarrow> ipv6_addr" where
  "asn_link_local asn =
     Ipv6Addr 0xfe80 0 0 0 0 0 (ucast (drop_bit 16 asn)) (ucast (and asn 0xffff))"

definition resolve_endpoint :: "env \<Rightarrow> rstr \<Rightarrow> socket_addr io" where
  "resolve_endpoint E endpoint w =
     ((case lookup_host E (w_tick w) endpoint of
         DnsTimeout \<Rightarrow> Inl (Validation (''DNS lookup timed out for endpoint '' @ endpoint))
       | DnsError \<Rightarrow> Inl (Validation (''DNS lookup failed for endpoint '' @ endpoint))
       | DnsAddresses [] \<Rightarrow>
           Inl (Validation (''DNS lookup returned no addresses for endpoint '' @ endpoint))
       | DnsAddresses (a # as) \<Rightarrow> Inr a), await E w)"

text \<open>The map of mutexes only ever grows, so a pair of ASN and name always has the same mutex.\<close>

definition operation_lock :: "u32 \<Rightarrow> rstr \<Rightarrow> lock_id" where
  "operation_lock asn peer_name = PeerLock asn peer_name"

definition found_or :: "bool \<Rightarrow> u32 \<Rightarrow> rstr \<Rightarrow> unit io" where
  "found_or found asn peer_name = (if found then ret () else throw (NotFound asn peer_name))"

section \<open>Reservation\<close>

definition build_peer ::
  "u32 \<Rightarrow> u32 \<Rightarrow> rstr \<Rightarrow> wg_pubkey \<Rightarrow> rstr option \<Rightarrow> ipv6_addr \<times> ipv6_addr \<Rightarrow> u16 \<Rightarrow> u16 \<Rightarrow> peer" where
  "build_peer peer_id asn peer_name pubkey endpoint link_local listen_port mtu =
     \<lparr>p_peer_id = peer_id, p_peer_name = peer_name, p_iface_name = ''wgp'' @ show_u32 peer_id,
      p_asn = asn, p_pubkey = pubkey, p_endpoint = endpoint, p_local_ll_ip = fst link_local,
      p_remote_ll_ip = snd link_local, p_status = Provisioning, p_listen_port = listen_port,
      p_mtu = mtu\<rparr>"

definition probe_port :: "u32 \<Rightarrow> u32 \<Rightarrow> u16" where
  "probe_port asn increment =
     (let preferred_offset = asn mod 10000; offset = (preferred_offset + increment) mod 10000
      in 20000 + ucast offset)"

fun reserve_loop ::
  "env \<Rightarrow> peer_manager \<Rightarrow> u32 \<Rightarrow> u32 \<Rightarrow> rstr \<Rightarrow> wg_pubkey \<Rightarrow> rstr option \<Rightarrow> ipv6_addr \<times> ipv6_addr
   \<Rightarrow> u16 \<Rightarrow> u32 list \<Rightarrow> peer io" where
  "reserve_loop E m peer_id asn peer_name pubkey endpoint link_local mtu [] =
     throw (Validation ''No WireGuard listen port is available from 20000 through 29999'')"
| "reserve_loop E m peer_id asn peer_name pubkey endpoint link_local mtu (increment # increments) =
     (let listen_port = probe_port asn increment in
      and_then (listen_port_in_use E listen_port None) (\<lambda>used.
      if used
      then reserve_loop E m peer_id asn peer_name pubkey endpoint link_local mtu increments
      else
        (let peer = build_peer peer_id asn peer_name pubkey endpoint link_local listen_port mtu;
             test = (asn = local_asn m) in
         and_then (db_reserve_peer E peer test) (\<lambda>reserved.
         if reserved then ret peer
         else and_then (peer_exists E asn peer_name) (\<lambda>exists.
           if exists then throw (AlreadyExists asn peer_name)
           else reserve_loop E m peer_id asn peer_name pubkey endpoint link_local mtu increments)))))"

definition increments :: "u32 list" where
  "increments = map of_nat [0 ..< 10000]"

definition reserve_peer ::
  "env \<Rightarrow> peer_manager \<Rightarrow> u32 \<Rightarrow> rstr \<Rightarrow> wg_pubkey \<Rightarrow> rstr option \<Rightarrow> (ipv6_addr \<times> ipv6_addr) option
   \<Rightarrow> u16 \<Rightarrow> peer io" where
  "reserve_peer E m asn peer_name pubkey endpoint link_local mtu =
     and_then (allocate_peer_id E) (\<lambda>peer_id.
     let link_local = (case link_local of
           None \<Rightarrow> (asn_link_local (local_asn m), asn_link_local asn) | Some pair \<Rightarrow> pair) in
     reserve_loop E m peer_id asn peer_name pubkey endpoint link_local mtu increments)"

section \<open>External state\<close>

definition apply_wireguard :: "env \<Rightarrow> peer_manager \<Rightarrow> peer \<Rightarrow> unit io" where
  "apply_wireguard E m p =
     and_then (ensure_wg_interface E (p_iface_name p) (p_peer_id p) (p_mtu p)) (\<lambda>_.
     and_then (case p_endpoint p of
         Some endpoint \<Rightarrow> and_then (resolve_endpoint E endpoint) (\<lambda>a. ret (Some a))
       | None \<Rightarrow> ret None) (\<lambda>endpoint.
     and_then (configure_peer E (p_iface_name p) (local_wg_privkey m) (p_listen_port p) (p_pubkey p)
                 endpoint) (\<lambda>_.
     configure_local_address E (p_iface_name p) (p_local_ll_ip p))))"

definition apply_peer :: "env \<Rightarrow> peer_manager \<Rightarrow> peer \<Rightarrow> unit io" where
  "apply_peer E m p =
     and_then (apply_wireguard E m p) (\<lambda>_. sync_bird_configs E m)"

definition remove_external_state :: "env \<Rightarrow> peer_manager \<Rightarrow> peer \<Rightarrow> unit io" where
  "remove_external_state E m p =
     and_then (sync_bird_configs E m) (\<lambda>_. delete_interface E (p_iface_name p))"

section \<open>Compensation\<close>

definition compensate_failed_create :: "env \<Rightarrow> peer_manager \<Rightarrow> peer \<Rightarrow> unit io" where
  "compensate_failed_create E m p =
     and_then (attempt (set_status E (p_peer_id p) Deleting)) (\<lambda>marked.
     and_then (attempt (remove_external_state E m p)) (\<lambda>removed.
     and_then (if is_ok removed then and_then (attempt (db_delete_peer E (p_peer_id p))) (\<lambda>_. ret ())
               else ret ()) (\<lambda>deleted.
     and_then (attempt (sync_nft_ports E)) (\<lambda>synced. ret ()))))"

definition compensate_failed_update :: "env \<Rightarrow> peer_manager \<Rightarrow> peer \<Rightarrow> unit io" where
  "compensate_failed_update E m old_peer =
     and_then (attempt (update_peer_desired E old_peer)) (\<lambda>restored.
     case restored of
       Inl _ \<Rightarrow> ret ()
     | Inr _ \<Rightarrow>
         and_then (attempt (apply_peer E m old_peer)) (\<lambda>applied.
         if is_ok applied
         then and_then (attempt (set_status E (p_peer_id old_peer) Active)) (\<lambda>_. ret ())
         else ret ()))"

section \<open>Operations\<close>

definition create_peer ::
  "env \<Rightarrow> peer_manager \<Rightarrow> u32 \<Rightarrow> rstr \<Rightarrow> wg_pubkey \<Rightarrow> rstr option \<Rightarrow> (ipv6_addr \<times> ipv6_addr) option
   \<Rightarrow> u16 option \<Rightarrow> peer io" where
  "create_peer E m asn peer_name pubkey endpoint link_local mtu =
     with_lock E (operation_lock asn peer_name) (
     and_then (peer_exists E asn peer_name) (\<lambda>exists.
     if exists then throw (AlreadyExists asn peer_name)
     else
       and_then (with_lock E PortLock (reserve_peer E m asn peer_name pubkey endpoint link_local
                   (case mtu of None \<Rightarrow> 1420 | Some v \<Rightarrow> v))) (\<lambda>peer.
       if asn = local_asn m then ret peer
       else
         and_then (attempt (apply_peer E m peer)) (\<lambda>applied.
         case applied of
           Inl error \<Rightarrow> and_then (compensate_failed_create E m peer) (\<lambda>_. throw error)
         | Inr _ \<Rightarrow>
         and_then (attempt (sync_nft_ports E)) (\<lambda>synced.
         case synced of
           Inl error \<Rightarrow> and_then (compensate_failed_create E m peer) (\<lambda>_. throw error)
         | Inr _ \<Rightarrow>
         and_then (attempt (set_status E (p_peer_id peer) Active)) (\<lambda>activated.
         case activated of
           Inl error \<Rightarrow> and_then (compensate_failed_create E m peer) (\<lambda>_. throw error)
         | Inr found \<Rightarrow>
             if found then ret (peer\<lparr>p_status := Active\<rparr>)
             else and_then (compensate_failed_create E m peer) (\<lambda>_.
                  throw (NotFound asn (p_peer_name peer))))))))) "

text \<open>The peer that an update asks for.\<close>

definition desired_peer ::
  "peer_manager \<Rightarrow> peer \<Rightarrow> wg_pubkey \<Rightarrow> rstr option option \<Rightarrow> (ipv6_addr \<times> ipv6_addr) option
   \<Rightarrow> u16 option option \<Rightarrow> u32 \<Rightarrow> peer" where
  "desired_peer m old_peer pubkey endpoint link_local mtu asn =
     old_peer\<lparr>p_pubkey := pubkey,
       p_endpoint := (case endpoint of None \<Rightarrow> p_endpoint old_peer | Some e \<Rightarrow> e),
       p_local_ll_ip := (case link_local of None \<Rightarrow> asn_link_local (local_asn m) | Some v \<Rightarrow> fst v),
       p_remote_ll_ip := (case link_local of None \<Rightarrow> asn_link_local asn | Some v \<Rightarrow> snd v),
       p_mtu := (case (case mtu of None \<Rightarrow> Some (p_mtu old_peer) | Some v \<Rightarrow> v) of
                   None \<Rightarrow> 1420 | Some v \<Rightarrow> v),
       p_status := Provisioning\<rparr>"

definition update_peer ::
  "env \<Rightarrow> peer_manager \<Rightarrow> u32 \<Rightarrow> rstr \<Rightarrow> wg_pubkey \<Rightarrow> rstr option option
   \<Rightarrow> (ipv6_addr \<times> ipv6_addr) option \<Rightarrow> u16 option option \<Rightarrow> peer io" where
  "update_peer E m asn peer_name pubkey endpoint link_local mtu =
     with_lock E (operation_lock asn peer_name) (
     and_then (get_peer E asn peer_name) (\<lambda>old.
     and_then (lift_res (ok_or (NotFound asn peer_name) old)) (\<lambda>old_peer.
     if p_status old_peer = Deleting then throw (NotFound asn peer_name)
     else
       (let desired = desired_peer m old_peer pubkey endpoint link_local mtu asn in
        and_then (update_peer_desired E desired) (\<lambda>found.
        and_then (found_or found asn peer_name) (\<lambda>_.
        and_then (attempt (apply_peer E m desired)) (\<lambda>applied.
        case applied of
          Inl error \<Rightarrow> and_then (compensate_failed_update E m old_peer) (\<lambda>_. throw error)
        | Inr _ \<Rightarrow>
            and_then (set_status E (p_peer_id desired) Active) (\<lambda>activated.
            and_then (found_or activated asn peer_name) (\<lambda>_.
            ret (desired\<lparr>p_status := Active\<rparr>)))))))))) "

text \<open>The compensation of a failed removal.\<close>

definition restore_deleted :: "env \<Rightarrow> peer_manager \<Rightarrow> peer \<Rightarrow> unit io" where
  "restore_deleted E m p =
     and_then (attempt (set_status E (p_peer_id p) Active)) (\<lambda>marked.
     if \<not> is_ok marked then ret ()
     else and_then (attempt (apply_peer E m p)) (\<lambda>applied.
       if \<not> is_ok applied then ret ()
       else and_then (attempt (sync_nft_ports E)) (\<lambda>_. ret ())))"

definition delete_peer :: "env \<Rightarrow> peer_manager \<Rightarrow> u32 \<Rightarrow> rstr \<Rightarrow> peer io" where
  "delete_peer E m asn peer_name =
     with_lock E (operation_lock asn peer_name) (
     and_then (get_peer E asn peer_name) (\<lambda>found.
     and_then (lift_res (ok_or (NotFound asn peer_name) found)) (\<lambda>peer.
     and_then (set_status E (p_peer_id peer) Deleting) (\<lambda>marked.
     and_then (found_or marked asn peer_name) (\<lambda>_.
     and_then (attempt (sync_nft_ports E)) (\<lambda>synced.
     case synced of
       Inl error \<Rightarrow>
         and_then (attempt (set_status E (p_peer_id peer) Active)) (\<lambda>_. throw error)
     | Inr _ \<Rightarrow>
     and_then (attempt (remove_external_state E m peer)) (\<lambda>removed.
     case removed of
       Inl error \<Rightarrow> and_then (restore_deleted E m peer) (\<lambda>_. throw error)
     | Inr _ \<Rightarrow>
         and_then (db_delete_peer E (p_peer_id peer)) (\<lambda>deleted.
         and_then (found_or deleted asn peer_name) (\<lambda>_. ret peer)))))))))"

definition manager_get_peer_infos_by_asn :: "env \<Rightarrow> u32 \<Rightarrow> peer_info list io" where
  "manager_get_peer_infos_by_asn E asn = get_peer_infos_by_asn E asn"

section \<open>Recovery\<close>

definition delete_unlisted :: "env \<Rightarrow> rstr list \<Rightarrow> rstr \<Rightarrow> unit io" where
  "delete_unlisted E desired_interfaces iface =
     (if iface \<notin> set desired_interfaces then delete_interface E iface else ret ())"

definition delete_changed :: "env \<Rightarrow> peer_change \<Rightarrow> unit io" where
  "delete_changed E change =
     (if ch_operation change \<noteq> ''DELETE'' then ret ()
      else and_then (get_peer_by_id E (p_peer_id (ch_peer change))) (\<lambda>existing.
        if existing = None
           \<and> p_iface_name (ch_peer change) = ''wgp'' @ show_u32 (p_peer_id (ch_peer change))
        then delete_interface E (p_iface_name (ch_peer change)) else ret ()))"

definition finish_delete :: "env \<Rightarrow> peer \<Rightarrow> unit io" where
  "finish_delete E p =
     and_then (db_delete_peer E (p_peer_id p)) (\<lambda>deleted.
     found_or deleted (p_asn p) (p_peer_name p))"

definition activate :: "env \<Rightarrow> peer \<Rightarrow> unit io" where
  "activate E p =
     with_lock E (operation_lock (p_asn p) (p_peer_name p)) (
     and_then (set_status E (p_peer_id p) Active) (\<lambda>found.
     found_or found (p_asn p) (p_peer_name p)))"

definition recover :: "env \<Rightarrow> peer_manager \<Rightarrow> unit io" where
  "recover E m =
     and_then (list_peers E) (\<lambda>peers.
     let desired = filter (\<lambda>p. desired_status (p_status p)) peers in
     and_then (for_io (apply_wireguard E m) desired) (\<lambda>_.
     and_then (sync_nft_ports_for E peers) (\<lambda>_.
     and_then (sync_bird_configs_for E m peers True) (\<lambda>_.
     and_then (for_io (\<lambda>p. with_lock E (operation_lock (p_asn p) (p_peer_name p)) (delete_interface E (p_iface_name p)))
                 (filter (\<lambda>p. p_status p = Deleting \<or> p_status p = Disabled) peers)) (\<lambda>_.
     and_then (list_managed_interfaces E) (\<lambda>names.
     and_then (for_io (delete_unlisted E (map p_iface_name desired)) names) (\<lambda>_.
     and_then (list_peer_changes E) (\<lambda>changes.
     and_then (for_io (delete_changed E) changes) (\<lambda>_.
     and_then (for_io (finish_delete E) (filter (\<lambda>p. p_status p = Deleting) peers)) (\<lambda>_.
     for_io (activate E) desired))))))))))"

section \<open>Durable changes\<close>

definition apply_peer_change :: "env \<Rightarrow> peer_manager \<Rightarrow> peer_change \<Rightarrow> unit io" where
  "apply_peer_change E m change =
     (let snapshot = ch_peer change in
      with_lock E (operation_lock (p_asn snapshot) (p_peer_name snapshot)) (
      and_then (get_peer_by_id E (p_peer_id snapshot)) (\<lambda>current.
      and_then
        (case current of
           Some p \<Rightarrow>
             if p_status p \<noteq> Deleting \<and> p_status p \<noteq> Disabled then
               and_then (apply_peer E m p) (\<lambda>_.
               if p_status p \<noteq> Active then
                 and_then (set_status E (p_peer_id p) Active) (\<lambda>found.
                 found_or found (p_asn p) (p_peer_name p))
               else ret ())
             else if p_status p = Deleting then
               and_then (remove_external_state E m p) (\<lambda>_. finish_delete E p)
             else remove_external_state E m p
         | None \<Rightarrow> remove_external_state E m snapshot) (\<lambda>_.
      sync_nft_ports E))))"

fun sync_changes :: "env \<Rightarrow> peer_manager \<Rightarrow> peer_change list \<Rightarrow> peer_error option \<Rightarrow> peer_error option io" where
  "sync_changes E m [] first_error = ret first_error"
| "sync_changes E m (change # changes) first_error =
     and_then (attempt (apply_peer_change E m change)) (\<lambda>applied.
     and_then
       (case applied of
          Inr _ \<Rightarrow>
            and_then (attempt (delete_peer_change E (ch_event_id change))) (\<lambda>deleted.
            case deleted of
              Inr _ \<Rightarrow> ret first_error
            | Inl error \<Rightarrow> ret (if first_error = None then Some error else first_error))
        | Inl error \<Rightarrow> ret (if first_error = None then Some error else first_error)) (\<lambda>first_error.
     sync_changes E m changes first_error))"

definition sync_pending_peer_changes :: "env \<Rightarrow> peer_manager \<Rightarrow> unit io" where
  "sync_pending_peer_changes E m =
     and_then (list_peer_changes E) (\<lambda>changes.
     and_then (sync_changes E m changes None) (\<lambda>first_error.
     case first_error of Some error \<Rightarrow> throw error | None \<Rightarrow> ret ()))"

section \<open>The tables' invariant survives every operation\<close>

lemma preserves_resolve_endpoint: "stable E I \<Longrightarrow> preserves I (resolve_endpoint E e)"
  by (simp add: preserves_def resolve_endpoint_def stable_def)

lemma preserves_found_or [frame_rules]: "preserves I (found_or b asn name)"
  by (simp add: found_or_def preserves_def)

lemma db_inv_lock_free [frame_rules]: "lock_free db_inv"
  by (rule about_lock_free[OF db_inv_about]) simp

lemma external_preserves [frame_rules]:
  assumes "stable E db_inv"
  shows "preserves db_inv (ensure_wg_interface E iface pid mtu)"
    "preserves db_inv (list_managed_interfaces E)"
    "preserves db_inv (configure_local_address E iface address)"
    "preserves db_inv (configure_peer E iface key port pubkey ep)"
    "preserves db_inv (listen_port_in_use E port exc)" "preserves db_inv (delete_interface E iface)"
    "preserves db_inv (sync_nft_ports_for E peers)" "preserves db_inv (sync_nft_ports E)"
    "preserves db_inv (sync_bird_configs_for E m peers fr)" "preserves db_inv (sync_bird_configs E m)"
    "preserves db_inv (resolve_endpoint E e)"
proof -
  show "preserves db_inv (ensure_wg_interface E iface pid mtu)"
    "preserves db_inv (list_managed_interfaces E)"
    "preserves db_inv (configure_local_address E iface address)"
    "preserves db_inv (configure_peer E iface key port pubkey ep)"
    "preserves db_inv (listen_port_in_use E port exc)" "preserves db_inv (delete_interface E iface)"
    by (intro netlink_preserves[OF assms db_inv_about] beside_kernel_views)+
  show "preserves db_inv (sync_nft_ports_for E peers)" "preserves db_inv (sync_nft_ports E)"
    by (intro nft_preserves[OF assms db_inv_about] beside_nft_views lock_free_views store_preserves_db_inv assms)+
  show "preserves db_inv (sync_bird_configs_for E m peers fr)" "preserves db_inv (sync_bird_configs E m)"
    by (intro bird_preserves[OF assms db_inv_about] beside_fs_views lock_free_views store_preserves_db_inv assms)+
  show "preserves db_inv (resolve_endpoint E e)" by (rule preserves_resolve_endpoint[OF assms])
qed

lemma apply_preserves [frame_rules]:
  assumes "stable E db_inv"
  shows "preserves db_inv (apply_wireguard E m p)" "preserves db_inv (apply_peer E m p)"
    "preserves db_inv (remove_external_state E m p)"
    "preserves db_inv (compensate_failed_create E m p)"
    "preserves db_inv (compensate_failed_update E m p)"
    "preserves db_inv (restore_deleted E m p)"
  unfolding apply_wireguard_def apply_peer_def remove_external_state_def
    compensate_failed_create_def compensate_failed_update_def restore_deleted_def
  by (intro frame_rules assms)+

lemma preserves_reserve_peer [frame_rules]:
  assumes "stable E db_inv"
  shows "preserves db_inv (reserve_peer E m asn name key ep ll mtu)"
proof -
  have "preserves db_inv (reserve_loop E m pid asn name key ep pair mtu is)" for pid pair "is"
    by (induction "is") (simp_all add: Let_def frame_rules, intro frame_rules assms, simp_all)
  then show ?thesis unfolding reserve_peer_def Let_def by (intro frame_rules assms)
qed

lemma manager_preserves:
  assumes "stable E db_inv"
  shows "preserves db_inv (create_peer E m asn name key ep ll mtu)"
    "preserves db_inv (update_peer E m asn name key uep ll umtu)"
    "preserves db_inv (delete_peer E m asn name)"
    "preserves db_inv (recover E m)" "preserves db_inv (apply_peer_change E m change)"
    "preserves db_inv (sync_pending_peer_changes E m)"
proof -
  show "preserves db_inv (create_peer E m asn name key ep ll mtu)"
    unfolding create_peer_def by (intro frame_rules assms)
  show "preserves db_inv (update_peer E m asn name key uep ll umtu)"
    unfolding update_peer_def Let_def by (intro frame_rules assms)
  show "preserves db_inv (delete_peer E m asn name)"
    unfolding delete_peer_def by (intro frame_rules assms)
  show "preserves db_inv (recover E m)"
    unfolding recover_def Let_def delete_unlisted_def delete_changed_def finish_delete_def activate_def
    by (intro frame_rules assms)
  have change: "preserves db_inv (apply_peer_change E m change)" for change
    unfolding apply_peer_change_def Let_def finish_delete_def by (intro frame_rules assms)
  then show "preserves db_inv (apply_peer_change E m change)" .
  have "preserves db_inv (sync_changes E m changes err)" for changes err
    by (induction changes arbitrary: err) (auto intro!: frame_rules assms change)
  then show "preserves db_inv (sync_pending_peer_changes E m)"
    unfolding sync_pending_peer_changes_def by (intro frame_rules assms)
qed

end
