(* ===== verification/Challenge.thy ===== *)
theory Challenge
  imports Persist
begin

text \<open>
  \<open>src/challenge.rs\<close>: the signing messages, the verification of a signature, the registry lookup,
  and \<open>RequestAuthorizer\<close>. The OpenPGP and SSH libraries, and the registry's HTTP answers, are
  parameters.
\<close>

section \<open>Signing messages\<close>

fun link_local_message :: "(ipv6_addr \<times> ipv6_addr) option \<Rightarrow> rstr" where
  "link_local_message (Some (local_ip, remote_ip)) =
     ''manual:'' @ show_ipv6 local_ip @ '':'' @ show_ipv6 remote_ip"
| "link_local_message None = ''auto''"

definition create_endpoint_message :: "rstr option \<Rightarrow> rstr" where
  "create_endpoint_message ep = (case ep of None \<Rightarrow> ''none'' | Some e \<Rightarrow> e)"

definition create_mtu_message :: "u16 option \<Rightarrow> rstr" where
  "create_mtu_message mtu = (case mtu of None \<Rightarrow> ''default'' | Some m \<Rightarrow> show_u16 m)"

definition build_create_message ::
  "u32 \<Rightarrow> rstr \<Rightarrow> wg_pubkey \<Rightarrow> rstr option \<Rightarrow> (ipv6_addr \<times> ipv6_addr) option \<Rightarrow> u16 option \<Rightarrow> rstr \<Rightarrow> int
   \<Rightarrow> rstr" where
  "build_create_message asn peer_name pubkey endpoint link_local mtu nonce expires_at =
     ''DN42-AUTOPEER-V3'' @ [LF] @ ''operation:create'' @ [LF] @ ''asn:'' @ show_u32 asn @ [LF]
     @ ''peer_name:'' @ peer_name @ [LF] @ ''pubkey:'' @ as_str pubkey @ [LF]
     @ ''endpoint:'' @ create_endpoint_message endpoint @ [LF]
     @ ''link_local:'' @ link_local_message link_local @ [LF]
     @ ''mtu:'' @ create_mtu_message mtu @ [LF]
     @ ''nonce:'' @ nonce @ [LF] @ ''expires_at:'' @ show_int expires_at"

definition update_endpoint_message :: "rstr option option \<Rightarrow> rstr" where
  "update_endpoint_message endpoint =
     (case endpoint of None \<Rightarrow> ''unchanged'' | Some None \<Rightarrow> ''clear'' | Some (Some v) \<Rightarrow> ''set:'' @ v)"

definition update_mtu_message :: "u16 option option \<Rightarrow> rstr" where
  "update_mtu_message mtu =
     (case mtu of None \<Rightarrow> ''unchanged'' | Some None \<Rightarrow> ''default''
      | Some (Some v) \<Rightarrow> ''set:'' @ show_u16 v)"

definition build_update_message ::
  "u32 \<Rightarrow> rstr \<Rightarrow> wg_pubkey \<Rightarrow> rstr option option \<Rightarrow> (ipv6_addr \<times> ipv6_addr) option
   \<Rightarrow> u16 option option \<Rightarrow> rstr \<Rightarrow> int \<Rightarrow> rstr" where
  "build_update_message asn peer_name pubkey endpoint link_local mtu nonce expires_at =
     ''DN42-AUTOPEER-V3'' @ [LF] @ ''operation:update'' @ [LF] @ ''asn:'' @ show_u32 asn @ [LF]
     @ ''peer_name:'' @ peer_name @ [LF] @ ''pubkey:'' @ as_str pubkey @ [LF]
     @ ''endpoint:'' @ update_endpoint_message endpoint @ [LF]
     @ ''link_local:'' @ link_local_message link_local @ [LF]
     @ ''mtu:'' @ update_mtu_message mtu @ [LF]
     @ ''nonce:'' @ nonce @ [LF] @ ''expires_at:'' @ show_int expires_at"

definition build_delete_message :: "u32 \<Rightarrow> rstr \<Rightarrow> rstr \<Rightarrow> int \<Rightarrow> rstr" where
  "build_delete_message asn peer_name nonce expires_at =
     ''DN42-AUTOPEER-V3'' @ [LF] @ ''operation:delete'' @ [LF] @ ''asn:'' @ show_u32 asn @ [LF]
     @ ''peer_name:'' @ peer_name @ [LF] @ ''nonce:'' @ nonce @ [LF]
     @ ''expires_at:'' @ show_int expires_at"

section \<open>Signatures\<close>

definition is_pgp_key :: "rstr \<Rightarrow> bool" where
  "is_pgp_key public_key = contains public_key ''BEGIN PGP PUBLIC KEY BLOCK''"

definition verify_signature :: "env \<Rightarrow> rstr \<Rightarrow> rstr \<Rightarrow> rstr \<Rightarrow> peer_error + unit" where
  "verify_signature E public_key signature expected_message =
     (if is_pgp_key public_key then
        res_bind (map_err (\<lambda>e. SignatureVerificationFailed (''Invalid PGP public key: '' @ e))
                    (pgp_public_key E public_key)) (\<lambda>key.
        res_bind (map_err (\<lambda>e. SignatureVerificationFailed (''Invalid PGP signature format: '' @ e))
                    (pgp_signature E signature)) (\<lambda>sig.
        case pgp_verify E key sig expected_message of
          Some e \<Rightarrow> Inl (SignatureVerificationFailed (''PGP signature verification failed: '' @ e))
        | None \<Rightarrow> Inr ()))
      else
        res_bind (map_err (\<lambda>e. SignatureVerificationFailed (''Invalid SSH public key: '' @ e))
                    (ssh_public_key E public_key)) (\<lambda>key.
        res_bind (map_err (\<lambda>e. SignatureVerificationFailed (''Invalid SSH signature format: '' @ e))
                    (ssh_signature E signature)) (\<lambda>sig.
        case ssh_verify E key ''dn42'' expected_message sig of
          Some e \<Rightarrow> Inl (SignatureVerificationFailed (''Signature verification failed: '' @ e))
        | None \<Rightarrow> Inr ())))"

section \<open>JSON\<close>

fun json_get :: "rstr \<Rightarrow> json \<Rightarrow> json option" where
  "json_get k (JObject kvs) = map_of kvs k"
| "json_get k _ = None"

fun json_array :: "json \<Rightarrow> json list option" where
  "json_array (JArray xs) = Some xs"
| "json_array _ = None"

fun json_str :: "json \<Rightarrow> rstr option" where
  "json_str (JString s) = Some s"
| "json_str _ = None"

definition object_attributes :: "rstr \<Rightarrow> json \<Rightarrow> json list option" where
  "object_attributes object_key j =
     Option.bind (json_get object_key j) (\<lambda>object.
     Option.bind (json_get ''Attributes'' object) json_array)"

text \<open>The value of a two-element attribute with the given name.\<close>

definition attribute_value :: "rstr \<Rightarrow> json \<Rightarrow> rstr option" where
  "attribute_value name attribute =
     Option.bind (json_array attribute) (\<lambda>parts.
     if length parts = 2 \<and> json_str (parts ! 0) = Some name then json_str (parts ! 1) else None)"

text \<open>
  \<open>value[start + 8..value.len() - 1]\<close>: Rust panics when the start is past the end, which is \<open>None\<close>
  in the outer option.
\<close>

definition slice :: "rstr \<Rightarrow> nat \<Rightarrow> nat \<Rightarrow> rstr option" where
  "slice s a b = (if a \<le> b \<and> b \<le> length s then Some (take (b - a) (drop a s)) else None)"

definition maintainer_of :: "rstr \<Rightarrow> rstr option option" where
  "maintainer_of v =
     (case find_sub v ''(mntner/'' of
        None \<Rightarrow> Some None
      | Some start \<Rightarrow>
          if ends_with v '')'' then map_option Some (slice v (start + 8) (length v - 1))
          else Some None)"

fun maintainers :: "json list \<Rightarrow> rstr list" where
  "maintainers [] = []"
| "maintainers (attribute # attributes) =
     (case attribute_value ''mnt-by'' attribute of
        None \<Rightarrow> maintainers attributes
      | Some v \<Rightarrow>
          (case maintainer_of v of
             Some (Some m) \<Rightarrow> m # maintainers attributes
           | _ \<Rightarrow> maintainers attributes))"

definition has_auth :: "rstr list \<Rightarrow> json list \<Rightarrow> bool" where
  "has_auth expected attributes =
     list_ex (\<lambda>a. case attribute_value ''auth'' a of
        None \<Rightarrow> False | Some v \<Rightarrow> list_ex (\<lambda>e. e = trim v) expected) attributes"

section \<open>The registry\<close>

definition to_ascii_uppercase :: "rstr \<Rightarrow> rstr" where
  "to_ascii_uppercase s =
     map (\<lambda>c. if is_ascii_lowercase c then char_of (byte c - 32) else c) s"

definition expected_auth_strings :: "env \<Rightarrow> rstr \<Rightarrow> rstr list" where
  "expected_auth_strings E expected_pubkey =
     trim expected_pubkey #
     (if is_pgp_key expected_pubkey then
        (case pgp_public_key E expected_pubkey of
           Inl _ \<Rightarrow> []
         | Inr key \<Rightarrow> [''pgp-fingerprint ''
               @ to_ascii_uppercase (hex_encode E (pgp_fingerprint E key))])
      else [])"

definition http_get :: "env \<Rightarrow> rstr \<Rightarrow> http_result io" where
  "http_get E url = (\<lambda>w. (Inr (registry_http E (w_tick w) url), await E w))"

definition error_status :: "nat \<Rightarrow> bool" where
  "error_status status = (400 \<le> status \<and> status < 600)"

definition success_status :: "nat \<Rightarrow> bool" where
  "success_status status = (200 \<le> status \<and> status < 300)"

definition aut_num_url :: "rstr \<Rightarrow> u32 \<Rightarrow> rstr" where
  "aut_num_url registry_url asn = registry_url @ ''/aut-num/AS'' @ show_u32 asn"

definition mntner_url :: "rstr \<Rightarrow> rstr \<Rightarrow> rstr" where
  "mntner_url registry_url maintainer = registry_url @ ''/mntner/'' @ maintainer"

text \<open>The maintainer's object in an answer, if it can be used; the loop skips the other answers.\<close>

definition mntner_attributes :: "rstr \<Rightarrow> http_result \<Rightarrow> json list option" where
  "mntner_attributes maintainer r =
     (case r of
        HttpError _ \<Rightarrow> None
      | HttpResponse status body \<Rightarrow>
          if \<not> success_status status then None
          else (case body of
                  Inl _ \<Rightarrow> None
                | Inr j \<Rightarrow> object_attributes (''mntner/'' @ maintainer) j))"

fun check_maintainers :: "env \<Rightarrow> rstr \<Rightarrow> rstr list \<Rightarrow> rstr list \<Rightarrow> bool io" where
  "check_maintainers E registry_url expected [] = ret False"
| "check_maintainers E registry_url expected (m # ms) =
     and_then (http_get E (mntner_url registry_url m)) (\<lambda>response.
     case mntner_attributes m response of
       None \<Rightarrow> check_maintainers E registry_url expected ms
     | Some attributes \<Rightarrow>
         if has_auth expected attributes then ret True
         else check_maintainers E registry_url expected ms)"

definition aut_num_attributes :: "u32 \<Rightarrow> http_result \<Rightarrow> json list option" where
  "aut_num_attributes asn r =
     (case r of
        HttpError _ \<Rightarrow> None
      | HttpResponse status body \<Rightarrow>
          if error_status status then None
          else (case body of
                  Inl _ \<Rightarrow> None
                | Inr j \<Rightarrow> object_attributes (''aut-num/AS'' @ show_u32 asn) j))"

text \<open>The result is \<open>None\<close> for an error, whose text the caller drops.\<close>

definition check_registry_for_asn_and_pubkey ::
  "env \<Rightarrow> rstr \<Rightarrow> u32 \<Rightarrow> rstr \<Rightarrow> bool option io" where
  "check_registry_for_asn_and_pubkey E registry_url asn expected_pubkey =
     (let expected = expected_auth_strings E expected_pubkey in
      and_then (http_get E (aut_num_url registry_url asn)) (\<lambda>response.
      case aut_num_attributes asn response of
        None \<Rightarrow> ret None
      | Some attributes \<Rightarrow>
          and_then (check_maintainers E registry_url expected (maintainers attributes)) (\<lambda>b.
          ret (Some b))))"

section \<open>RequestAuthorizer\<close>

record authorizer =
  registry_url :: rstr
  registry_timeout :: nat
  registry_limit :: nat

definition env_u64 :: "env \<Rightarrow> rstr \<Rightarrow> nat \<Rightarrow> peer_error + nat" where
  "env_u64 E name dflt =
     ok_or (Validation (name @ '' must be a positive integer''))
       (parse_unsigned (2 ^ 64 - 1)
          (case env_var E name of None \<Rightarrow> show_nat dflt | Some v \<Rightarrow> v))"

text \<open>\<open>RequestAuthorizer::new\<close>; \<open>client\<close> is the answer of the HTTP client's builder.\<close>

definition authorizer_new :: "env \<Rightarrow> rstr option \<Rightarrow> peer_error + authorizer" where
  "authorizer_new E client =
     res_bind (env_u64 E ''REGISTRY_TIMEOUT_SECS'' 10) (\<lambda>timeout_secs.
     res_bind (env_u64 E ''REGISTRY_MAX_CONCURRENT'' 16) (\<lambda>max_concurrent.
     if timeout_secs = 0
     then Inl (Validation ''REGISTRY_TIMEOUT_SECS must be greater than zero'')
     else if max_concurrent = 0
     then Inl (Validation ''REGISTRY_MAX_CONCURRENT must be greater than zero'')
     else case client of
       Some e \<Rightarrow> Inl (Validation (''Failed to create the registry client: '' @ e))
     | None \<Rightarrow> Inr
         \<lparr>registry_url = (case env_var E ''REGISTRY_API_URL'' of
            None \<Rightarrow> ''https://explorer.burble.com/api/registry'' | Some v \<Rightarrow> v),
          registry_timeout = timeout_secs, registry_limit = max_concurrent\<rparr>))"

fun issue_attempts :: "env \<Rightarrow> u32 \<Rightarrow> int \<Rightarrow> nat \<Rightarrow> (rstr \<times> int) io" where
  "issue_attempts E asn expires_at 0 =
     throw (UnauthorizedChallenge ''The server could not allocate a unique nonce'')"
| "issue_attempts E asn expires_at (Suc n) = (\<lambda>w.
     (let nonce = fresh_nonce E (w_tick w) in
      and_then (insert_nonce E asn nonce expires_at) (\<lambda>inserted.
      if inserted then ret (nonce, expires_at) else issue_attempts E asn expires_at n) w))"

definition issue_challenge :: "env \<Rightarrow> u32 \<Rightarrow> (rstr \<times> int) io" where
  "issue_challenge E asn =
     and_then (read_clock E) (\<lambda>now. issue_attempts E asn (now + 300) 4)"

text \<open>\<open>try_acquire\<close> takes a permit without waiting; the permit is dropped on every way out.\<close>

definition with_permit :: "'a io \<Rightarrow> 'a io" where
  "with_permit m w =
     (if w_permits w = 0
      then (Inl (RegistryUnavailable ''Too many registry checks are active''), w)
      else case m (w\<lparr>w_permits := w_permits w - 1\<rparr>) of
        (r, w') \<Rightarrow> (r, w'\<lparr>w_permits := w_permits w' + 1\<rparr>))"

definition registry_check :: "env \<Rightarrow> authorizer \<Rightarrow> u32 \<Rightarrow> rstr \<Rightarrow> bool io" where
  "registry_check E a asn public_key w =
     (case check_registry_for_asn_and_pubkey E (registry_url a) asn public_key w of
        (r, w') \<Rightarrow>
          if registry_timed_out E (w_tick w)
          then (Inl (RegistryUnavailable ''The registry check timed out''), w')
          else (case r of
                  Inr (Some b) \<Rightarrow> (Inr b, w')
                | _ \<Rightarrow> (Inl (RegistryUnavailable ''The registry request failed''), w')))"

definition authorize_request ::
  "env \<Rightarrow> authorizer \<Rightarrow> u32 \<Rightarrow> rstr \<Rightarrow> rstr \<Rightarrow> rstr \<Rightarrow> int \<Rightarrow> rstr \<Rightarrow> unit io" where
  "authorize_request E a asn public_key signature nonce expires_at expected_message =
     and_then (read_clock E) (\<lambda>now.
     if expires_at < now then throw (UnauthorizedChallenge ''The challenge expired'')
     else if debug_assertions E \<and> nonce = ''dummy_nonce'' then ret ()
     else and_then (lift_res (verify_signature E public_key signature expected_message)) (\<lambda>_.
       with_permit (
         and_then (consume_nonce E asn nonce expires_at) (\<lambda>consumed.
         if \<not> consumed
         then throw (UnauthorizedChallenge
                ''The challenge is expired, unknown, or already used'')
         else and_then (registry_check E a asn public_key) (\<lambda>is_authorized.
           if \<not> is_authorized then throw RegistryMismatch else ret ())))))"

section \<open>What a signature covers\<close>

text \<open>The three kinds of request, with everything that the code puts into the signed text.\<close>

datatype signed_request =
    CreateRequest u32 rstr wg_pubkey "rstr option" "(ipv6_addr \<times> ipv6_addr) option" "u16 option" rstr int
  | UpdateRequest u32 rstr wg_pubkey "rstr option option" "(ipv6_addr \<times> ipv6_addr) option"
      "u16 option option" rstr int
  | DeleteRequest u32 rstr rstr int

fun signing_message :: "signed_request \<Rightarrow> rstr" where
  "signing_message (CreateRequest asn name key ep ll mtu nonce t) =
     build_create_message asn name key ep ll mtu nonce t"
| "signing_message (UpdateRequest asn name key ep ll mtu nonce t) =
     build_update_message asn name key ep ll mtu nonce t"
| "signing_message (DeleteRequest asn name nonce t) = build_delete_message asn name nonce t"

text \<open>
  The fields that come from validated input: no field but the nonce holds a line feed, and an
  endpoint is never the word \<open>none\<close>, which stands for its absence.
\<close>

fun signable :: "signed_request \<Rightarrow> bool" where
  "signable (CreateRequest asn name key ep ll mtu nonce t) =
     (LF \<notin> set name \<and> LF \<notin> set (as_str key) \<and> (\<forall>e. ep = Some e \<longrightarrow> LF \<notin> set e \<and> e \<noteq> ''none''))"
| "signable (UpdateRequest asn name key ep ll mtu nonce t) =
     (LF \<notin> set name \<and> LF \<notin> set (as_str key) \<and> (\<forall>e. ep = Some (Some e) \<longrightarrow> LF \<notin> set e))"
| "signable (DeleteRequest asn name nonce t) = (LF \<notin> set name)"

text \<open>Equality of requests, except that link-local pairs are compared by their signed text.\<close>

fun same_request :: "signed_request \<Rightarrow> signed_request \<Rightarrow> bool" where
  "same_request (CreateRequest asn name key ep ll mtu nonce t)
     (CreateRequest asn' name' key' ep' ll' mtu' nonce' t') =
     (asn = asn' \<and> name = name' \<and> key = key' \<and> ep = ep'
      \<and> link_local_message ll = link_local_message ll' \<and> mtu = mtu' \<and> nonce = nonce' \<and> t = t')"
| "same_request (UpdateRequest asn name key ep ll mtu nonce t)
     (UpdateRequest asn' name' key' ep' ll' mtu' nonce' t') =
     (asn = asn' \<and> name = name' \<and> key = key' \<and> ep = ep'
      \<and> link_local_message ll = link_local_message ll' \<and> mtu = mtu' \<and> nonce = nonce' \<and> t = t')"
| "same_request (DeleteRequest asn name nonce t) (DeleteRequest asn' name' nonce' t') =
     (asn = asn' \<and> name = name' \<and> nonce = nonce' \<and> t = t')"
| "same_request _ _ = False"

lemma LF_not_link_local [text_simps]: "LF \<notin> set (link_local_message ll)"
  by (cases ll rule: link_local_message.cases) (auto simp: LF_not_show_ipv6)

lemma create_endpoint_inject:
  "\<forall>e. ep = Some e \<longrightarrow> LF \<notin> set e \<and> e \<noteq> ''none'' \<Longrightarrow> LF \<notin> set (create_endpoint_message ep)"
  "\<forall>e. ep = Some e \<longrightarrow> e \<noteq> ''none'' \<Longrightarrow> \<forall>e. ep' = Some e \<longrightarrow> e \<noteq> ''none'' \<Longrightarrow>
   create_endpoint_message ep = create_endpoint_message ep' \<longleftrightarrow> ep = ep'"
  by (auto simp: create_endpoint_message_def split: option.splits)

lemma show_u16_not_word: "show_u16 m \<noteq> CHR ''d'' # s" "CHR ''d'' # s \<noteq> show_u16 m"
proof -
  have "CHR ''d'' \<in> set (show_u16 m) \<Longrightarrow> False"
    using set_show_nat[of "CHR ''d''" "unat m"]
    by (simp add: show_u16_def is_ascii_digit_def byte_def)
  then show "show_u16 m \<noteq> CHR ''d'' # s" "CHR ''d'' # s \<noteq> show_u16 m"
    by (metis list.set_intros(1))+
qed

lemma create_mtu_inject:
  "LF \<notin> set (create_mtu_message mtu)"
  "create_mtu_message mtu = create_mtu_message mtu' \<longleftrightarrow> mtu = mtu'"
  by (auto simp: create_mtu_message_def text_simps show_u16_not_word split: option.splits)

lemma update_endpoint_inject:
  "\<forall>e. ep = Some (Some e) \<longrightarrow> LF \<notin> set e \<Longrightarrow> LF \<notin> set (update_endpoint_message ep)"
  "update_endpoint_message ep = update_endpoint_message ep' \<longleftrightarrow> ep = ep'"
  by (auto simp: update_endpoint_message_def split: option.splits)

lemma update_mtu_inject:
  "LF \<notin> set (update_mtu_message mtu)"
  "update_mtu_message mtu = update_mtu_message mtu' \<longleftrightarrow> mtu = mtu'"
  by (auto simp: update_mtu_message_def text_simps split: option.splits)

text \<open>The last two lines: the nonce may hold anything.\<close>

lemma nonce_lines_inject:
  "nonce @ LF # ''expires_at:'' @ show_int t = nonce' @ LF # ''expires_at:'' @ show_int t' \<longleftrightarrow>
     nonce = nonce' \<and> t = t'"
proof -
  have "LF \<notin> set (''expires_at:'' @ show_int t)" for t by (simp add: text_simps)
  from append_sep_inject_right[OF this this] show ?thesis by simp
qed

lemmas message_inject = append_sep_inject create_endpoint_inject create_mtu_inject
  update_endpoint_inject update_mtu_inject nonce_lines_inject[simplified] text_simps

lemma wg_pubkey_eq: "as_str k = as_str k' \<longleftrightarrow> k = k'"
  by (cases k; cases k') simp




section \<open>Authorization\<close>

text \<open>The registry confirms a key: an object of a maintainer of the AS lists it.\<close>

definition registry_confirms :: "env \<Rightarrow> rstr \<Rightarrow> u32 \<Rightarrow> rstr \<Rightarrow> bool" where
  "registry_confirms E url asn key =
     (\<exists>n attributes m n' attributes'.
        aut_num_attributes asn (registry_http E n (aut_num_url url asn)) = Some attributes \<and>
        m \<in> set (maintainers attributes) \<and>
        mntner_attributes m (registry_http E n' (mntner_url url m)) = Some attributes' \<and>
        has_auth (expected_auth_strings E key) attributes')"

lemma check_maintainers_sound:
  "check_maintainers E url expected ms w = (Inr True, w') \<Longrightarrow>
   \<exists>m\<in>set ms. \<exists>n attributes. mntner_attributes m (registry_http E n (mntner_url url m)) = Some attributes \<and>
     has_auth expected attributes"
proof (induction ms arbitrary: w)
  case (Cons m ms)
  let ?r = "registry_http E (w_tick w) (mntner_url url m)"
  show ?case
  proof (cases "\<exists>attributes. mntner_attributes m ?r = Some attributes \<and> has_auth expected attributes")
    case True
    then show ?thesis by (intro bexI[of _ m] exI[of _ "w_tick w"]) auto
  next
    case False
    then have "check_maintainers E url expected ms (await E w) = (Inr True, w')"
      using Cons.prems by (auto simp: and_then_def http_get_def split: option.splits if_splits)
    from Cons.IH[OF this] show ?thesis by (meson list.set_intros(2))
  qed
qed simp

lemma registry_check_sound:
  assumes "registry_check E a asn key w = (Inr True, w')"
  shows "registry_confirms E (registry_url a) asn key"
proof -
  obtain w1 where run: "check_registry_for_asn_and_pubkey E (registry_url a) asn key w
      = (Inr (Some True), w1)"
    using assms unfolding registry_check_def
    by (auto split: prod.splits if_splits sum.splits option.splits)
  let ?r = "registry_http E (w_tick w) (aut_num_url (registry_url a) asn)"
  obtain attributes where attributes: "aut_num_attributes asn ?r = Some attributes"
    and "check_maintainers E (registry_url a) (expected_auth_strings E key) (maintainers attributes)
      (await E w) = (Inr True, w1)"
    using run unfolding check_registry_for_asn_and_pubkey_def Let_def
    by (auto simp: and_then_def http_get_def split: option.splits prod.splits sum.splits)
  from check_maintainers_sound[OF this(2)] attributes show ?thesis
    unfolding registry_confirms_def by blast
qed

lemma with_permit_Inr:
  "with_permit m w = (Inr x, w') \<longleftrightarrow> w_permits w \<noteq> 0 \<and>
     (\<exists>w1. m (w\<lparr>w_permits := w_permits w - 1\<rparr>) = (Inr x, w1) \<and>
           w' = w1\<lparr>w_permits := w_permits w1 + 1\<rparr>)"
  by (auto simp: with_permit_def split: prod.splits)

lemma authorize_request_Inr:
  assumes "authorize_request E a asn key sig nonce t msg w = (Inr (), w')"
    "\<not> (debug_assertions E \<and> nonce = ''dummy_nonce'')"
  shows "clock E (w_tick w) \<le> t \<and> verify_signature E key sig msg = Inr () \<and> w_permits w \<noteq> 0 \<and>
    (\<exists>w1 w2. consume_nonce E asn nonce t (w\<lparr>w_permits := w_permits w - 1\<rparr>) = (Inr True, w1) \<and>
       registry_check E a asn key w1 = (Inr True, w2) \<and> w' = w2\<lparr>w_permits := w_permits w2 + 1\<rparr>)"
  using assms unfolding authorize_request_def
  by (auto simp: read_clock_and_then unix_timestamp_def and_then_Inr with_permit_Inr split: if_splits)

text \<open>What a granted authorization rests on.\<close>

definition authorized_by :: "env \<Rightarrow> rstr \<Rightarrow> u32 \<Rightarrow> rstr \<Rightarrow> rstr \<Rightarrow> rstr \<Rightarrow> int \<Rightarrow> rstr \<Rightarrow> bool" where
  "authorized_by E url asn key sig nonce t msg =
     (verify_signature E key sig msg = Inr ()
      \<and> (\<exists>w1 w2 now. db_step (ConsumeNonce nonce (uint asn) t now) w1 = (True, w2) \<and>
           (\<exists>n\<in>set (w_nonces w1). n_nonce n = nonce \<and> n_asn n = uint asn \<and> n_expires_at n = t \<and> now \<le> t))
      \<and> registry_confirms E url asn key)"

lemma authorize_request_sound:
  assumes "authorize_request E a asn key sig nonce t msg w = (Inr (), w')" "\<not> debug_assertions E"
  shows "clock E (w_tick w) \<le> t \<and> authorized_by E (registry_url a) asn key sig nonce t msg"
proof -
  obtain w1 w2 where sig: "clock E (w_tick w) \<le> t" "verify_signature E key sig msg = Inr ()"
    and consume: "consume_nonce E asn nonce t (w\<lparr>w_permits := w_permits w - 1\<rparr>) = (Inr True, w1)"
    and registry: "registry_check E a asn key w1 = (Inr True, w2)"
    using authorize_request_Inr[OF assms(1)] assms(2) by blast
  obtain u now where step: "db_step (ConsumeNonce nonce (uint asn) t now) u = (True, w1)"
    and ne: "filter (nonce_matches nonce (uint asn) t now) (w_nonces u) \<noteq> []"
    using consume_nonce_run[OF consume] by blast
  from ne obtain n where "n \<in> set (w_nonces u)" "nonce_matches nonce (uint asn) t now n"
    unfolding filter_empty_conv by blast
  then have "\<exists>n\<in>set (w_nonces u). n_nonce n = nonce \<and> n_asn n = uint asn \<and> n_expires_at n = t \<and> now \<le> t"
    unfolding nonce_matches_def by auto
  with sig step registry_check_sound[OF registry] show ?thesis
    unfolding authorized_by_def by blast
qed

lemma maintainer_split:
  assumes "find_sub v ''(mntner/'' = Some start" "ends_with v '')''"
  shows "\<exists>m. v = take start v @ ''(mntner/'' @ m @ '')'' \<and> start \<le> length v \<and>
    slice v (start + 8) (length v - 1) = Some m"
proof -
  obtain a b where v: "v = a @ ''(mntner/'' @ b" "length a = start"
    using find_sub_Some[OF assms(1)] by blast
  have last: "last v = CHR '')''" "v \<noteq> []" using assms(2) by (auto simp: ends_with_def suffix_def)
  have "b \<noteq> []"
  proof
    assume "b = []"
    then have "last v = CHR ''/''" unfolding v(1) by simp
    with last(1) show False by simp
  qed
  moreover from this have "last b = CHR '')''" using last(1) v(1) by simp
  ultimately have b: "b = butlast b @ '')''" by (metis append_butlast_last_id)
  then have "v = a @ ''(mntner/'' @ butlast b @ '')''" using v(1) by metis
  moreover from this have "slice v (start + 8) (length v - 1) = Some (butlast b)"
    using v(2) by (simp add: slice_def)
  ultimately show ?thesis using v(2) by (intro exI[of _ "butlast b"]) simp
qed


text \<open>
  C27. The slice that cuts a maintainer out of a \<open>mnt-by\<close> value is always within bounds, so no
  answer of the registry makes the handler panic; and it is what stands between the first
  \<open>(mntner/\<close> and the closing parenthesis at the end.
\<close>

theorem maintainer_slice_in_bounds:
  "maintainer_of v \<noteq> None \<and>
   (maintainer_of v = Some (Some m) \<longleftrightarrow>
      (\<exists>a. v = a @ ''(mntner/'' @ m @ '')'' \<and> find_sub v ''(mntner/'' = Some (length a)))"
proof (cases "find_sub v ''(mntner/''")
  case None
  then show ?thesis by (simp add: maintainer_of_def)
next
  case (Some start)
  show ?thesis
  proof (cases "ends_with v '')''")
    case False
    then have "v \<noteq> a @ ''(mntner/'' @ m @ '')''" for a
      by (metis append.assoc ends_with_def suffixI)
    with False Some show ?thesis by (simp add: maintainer_of_def)
  next
    case True
    from maintainer_split[OF Some True] obtain m' where v: "v = take start v @ ''(mntner/'' @ m' @ '')''"
      and start: "start \<le> length v" and sl: "slice v (start + 8) (length v - 1) = Some m'"
      by blast
    have "maintainer_of v = Some (Some m')" using Some True sl by (simp add: maintainer_of_def)
    moreover have "length (take start v) = start" using start by simp
    moreover have "m' = m" if "v = a @ ''(mntner/'' @ m @ '')''" "length a = start" for a
    proof -
      have "take start v = a" using that by simp
      then have "a @ ''(mntner/'' @ m' @ '')'' = a @ ''(mntner/'' @ m @ '')''"
        using v that(1) by argo
      then show ?thesis by simp
    qed
    ultimately show ?thesis using v Some
      by (auto intro!: exI[of _ "take start v"])
  qed
qed

section \<open>Frames\<close>

lemma keeps_http_get: "quiet E \<Longrightarrow> tick_free v \<Longrightarrow> keeps v (http_get E url)"
  by (simp add: keeps_def http_get_def await_quiet tick_free_def)

lemma keeps_registry_check:
  assumes "quiet E" "tick_free v"
  shows "keeps v (registry_check E a asn key)"
proof -
  have "keeps v (check_maintainers E url expected ms)" for url expected ms
    by (induction ms) (auto intro!: frame_rules keeps_http_get assms)
  then have inner: "keeps v (check_registry_for_asn_and_pubkey E url asn key)" for url
    unfolding check_registry_for_asn_and_pubkey_def Let_def
    by (intro frame_rules keeps_http_get assms)
  show ?thesis
    using inner[of "registry_url a"] unfolding keeps_def registry_check_def
    by (auto split: prod.split sum.split option.split) (metis snd_conv)+
qed

lemma preserves_http_get: "stable E I \<Longrightarrow> preserves I (http_get E url)"
  by (simp add: preserves_def http_get_def stable_def)

lemma preserves_registry_check:
  assumes "stable E I"
  shows "preserves I (registry_check E a asn key)"
proof -
  have "preserves I (check_maintainers E url expected ms)" for url expected ms
    by (induction ms) (auto intro!: frame_rules preserves_http_get assms)
  then have inner: "preserves I (check_registry_for_asn_and_pubkey E url asn key)" for url
    unfolding check_registry_for_asn_and_pubkey_def Let_def
    by (intro frame_rules preserves_http_get assms)
  show ?thesis
  proof (rule preservesI)
    fix w assume "I w"
    then have "I (snd (check_registry_for_asn_and_pubkey E (registry_url a) asn key w))"
      using inner by (simp add: preserves_def)
    then show "I (snd (registry_check E a asn key w))"
      unfolding registry_check_def by (auto split: prod.split sum.split option.split)
  qed
qed

text \<open>The semaphore is no part of the database, so the permit does not matter to its invariant.\<close>

lemma with_permit_world:
  "snd (with_permit m w) = (if w_permits w = 0 then w
     else (snd (m (w\<lparr>w_permits := w_permits w - 1\<rparr>)))
       \<lparr>w_permits := w_permits (snd (m (w\<lparr>w_permits := w_permits w - 1\<rparr>))) + 1\<rparr>)"
  by (simp add: with_permit_def split: prod.split)

lemma preserves_with_permit:
  assumes "about v I" "\<And>w n. v (w\<lparr>w_permits := n\<rparr>) = v w" "preserves I m"
  shows "preserves I (with_permit m)"
proof (rule preservesI)
  fix w assume "I w"
  have same: "I (u\<lparr>w_permits := n\<rparr>) = I u" for u n by (rule aboutD[OF assms(1) assms(2)])
  have "I (snd (m (w\<lparr>w_permits := w_permits w - 1\<rparr>)))"
    using assms(3) \<open>I w\<close> same[of _ w] unfolding preserves_def by blast
  with \<open>I w\<close> show "I (snd (with_permit m w))" by (simp add: with_permit_world same)
qed

lemma preserves_issue_challenge:
  assumes "stable E db_inv"
  shows "preserves db_inv (issue_challenge E asn)"
proof -
  have "preserves db_inv (issue_attempts E asn t n)" for t n
  proof (induction n)
    case (Suc n)
    have "preserves db_inv (and_then (insert_nonce E asn nonce t) (\<lambda>inserted.
        if inserted then ret (nonce, t) else issue_attempts E asn t n))" for nonce
      by (intro frame_rules assms Suc)
    then show ?case by (simp add: preserves_def Let_def)
  qed (auto intro: frame_rules)
  then show ?thesis unfolding issue_challenge_def by (intro frame_rules)
qed

lemma preserves_authorize_request:
  assumes "stable E db_inv"
  shows "preserves db_inv (authorize_request E a asn key sig nonce t msg)"
  unfolding authorize_request_def
  by (intro frame_rules assms preserves_with_permit[OF db_inv_about] preserves_registry_check)
    (simp add: db_view_def)

lemma keeps_with_permit:
  assumes "\<And>w n. v (w\<lparr>w_permits := n\<rparr>) = v w" "keeps v m"
  shows "keeps v (with_permit m)"
  using assms by (simp add: keeps_def with_permit_world)

lemma with_permit_keeps_permits:
  "keeps w_permits m \<Longrightarrow> keeps w_permits (with_permit m)"
  by (simp add: keeps_def with_permit_world)



text \<open>It touches nothing beside the nonces.\<close>

lemma authorize_keeps [frame_rules]:
  assumes "quiet E" "beside_db v" "\<And>w n. v (w\<lparr>w_permits := n\<rparr>) = v w"
  shows "keeps v (authorize_request E a asn key sig nonce t msg)"
  unfolding authorize_request_def
  using assms by (intro frame_rules keeps_with_permit keeps_registry_check) (simp_all add: beside_db_def)

section \<open>Completeness\<close>

text \<open>Consuming a live nonce succeeds when the database answers.\<close>

lemma consume_nonce_live:
  assumes "quiet E" "\<And>n. db_fault E n = NoFault" "nonces_distinct w"
    and row: "n \<in> set (w_nonces w)" "n_nonce n = nonce" "n_asn n = uint asn" "n_expires_at n = t"
    and time: "clock E (Suc (w_tick w)) \<le> t"
  shows "consume_nonce E asn nonce t w =
    (Inr True, w\<lparr>w_tick := w_tick w + 2,
                 w_nonces := filter (\<lambda>x. x \<noteq> n) (w_nonces w)\<rparr>)"
proof -
  let ?now = "clock E (Suc (w_tick w))"
  have "nonce_matches nonce (uint asn) t ?now x \<longleftrightarrow> x = n" if "x \<in> set (w_nonces w)" for x
  proof
    assume "nonce_matches nonce (uint asn) t ?now x"
    then have "n_nonce x = n_nonce n" using row(2) by (simp add: nonce_matches_def)
    with that row(1) assms(3) show "x = n"
      unfolding nonces_distinct_def distinct_map by (metis inj_onD)
  qed (use row time in \<open>simp add: nonce_matches_def\<close>)
  then have "filter (nonce_matches nonce (uint asn) t ?now) (w_nonces w) = filter (\<lambda>x. x = n) (w_nonces w)"
    "filter (\<lambda>x. \<not> nonce_matches nonce (uint asn) t ?now x) (w_nonces w)
      = filter (\<lambda>x. x \<noteq> n) (w_nonces w)"
    by (auto intro!: filter_cong)
  moreover have "length (filter (\<lambda>x. x = n) (w_nonces w)) = 1"
  proof -
    have "distinct (w_nonces w)" using assms(3) by (simp add: nonces_distinct_def distinct_map)
    then have "card (set (filter (\<lambda>x. x = n) (w_nonces w))) = length (filter (\<lambda>x. x = n) (w_nonces w))"
      by (intro distinct_card) simp
    moreover have "set (filter (\<lambda>x. x = n) (w_nonces w)) = {n}" using row(1) by auto
    ultimately show ?thesis by simp
  qed
  ultimately show ?thesis
    by (simp add: consume_nonce_def acquire_def execute_def and_then_def ext_call_def assms(1,2)
        await_quiet read_clock_def unix_timestamp_def sql_consume_nonce_def)
qed

text \<open>
  C22. A request that meets every condition is authorized: with a live nonce of this ASN, a
  signature that verifies, a free permit, a database that answers and a registry that confirms the
  key, \<open>authorize_request\<close> returns \<open>Ok\<close>, and the nonce is spent.
\<close>

theorem authorize_request_complete:
  assumes "quiet E" "\<not> debug_assertions E" "\<And>n. db_fault E n = NoFault"
    and "nonces_distinct w" "w_permits w \<noteq> 0"
    and row: "n \<in> set (w_nonces w)" "n_nonce n = nonce" "n_asn n = uint asn" "n_expires_at n = t"
    and time: "clock E (w_tick w) \<le> t" "clock E (Suc (w_tick w)) \<le> t"
    and "verify_signature E key sig msg = Inr ()"
    and "fst (registry_check E a asn key (w\<lparr>w_permits := w_permits w - 1, w_tick := w_tick w + 2,
        w_nonces := filter (\<lambda>x. x \<noteq> n) (w_nonces w)\<rparr>)) = Inr True"
  shows "fst (authorize_request E a asn key sig nonce t msg w) = Inr () \<and>
    \<not> nonce_live nonce (snd (authorize_request E a asn key sig nonce t msg w))"
proof -
  let ?w0 = "w\<lparr>w_permits := w_permits w - 1\<rparr>"
  let ?w1 = "?w0\<lparr>w_tick := w_tick w + 2, w_nonces := filter (\<lambda>x. x \<noteq> n) (w_nonces w)\<rparr>"
  have "nonces_distinct ?w0" using assms(4) by (simp add: nonces_distinct_def)
  from consume_nonce_live[OF assms(1,3) this, of n nonce asn t] row time
  have consume: "consume_nonce E asn nonce t ?w0 = (Inr True, ?w1)" by simp
  obtain w2 where check: "registry_check E a asn key ?w1 = (Inr True, w2)"
    using assms(13) by (cases "registry_check E a asn key ?w1") simp
  have run: "authorize_request E a asn key sig nonce t msg w
      = (Inr (), w2\<lparr>w_permits := w_permits w2 + 1\<rparr>)"
    unfolding authorize_request_def
    using time(1) assms(2,5,12) consume check
    by (simp add: read_clock_def unix_timestamp_def with_permit_def and_then_def)
  have "w_nonces w2 = filter (\<lambda>x. x \<noteq> n) (w_nonces w)"
    using keepsD[OF keeps_registry_check[OF assms(1), of w_nonces] check] by simp
  moreover have "x = n" if "x \<in> set (w_nonces w)" "n_nonce x = nonce" for x
    using that row(1,2) assms(4) unfolding nonces_distinct_def distinct_map by (metis inj_onD)
  ultimately have "\<not> nonce_live nonce w2" unfolding nonce_live_def by auto
  with run show ?thesis by (simp add: nonce_live_def)
qed

text \<open>A registry with one maintainer, for the examples; by default the kernel refuses every request.\<close>

definition sample_http :: "nat \<Rightarrow> rstr \<Rightarrow> http_result" where
  "sample_http n url =
     (if url = ''r/aut-num/AS7'' then HttpResponse 200 (Inr (JObject [(''aut-num/AS7'',
        JObject [(''Attributes'', JArray [JArray [JString ''mnt-by'', JString ''(mntner/M)'']])])]))
      else if url = ''r/mntner/M'' then HttpResponse 200 (Inr (JObject [(''mntner/M'',
        JObject [(''Attributes'', JArray [JArray [JString ''auth'', JString ''ssh-rsa K'']])])]))
      else HttpError ''unknown'')"

definition registry_with :: "(nat \<Rightarrow> io_error fault) \<Rightarrow> env" where
  "registry_with netlink = sample_env\<lparr>registry_http := sample_http, nl_fault := netlink\<rparr>"

abbreviation registry_env :: env where
  "registry_env \<equiv> registry_with (\<lambda>_. FailClean (IoError OtherKind None ''netlink is down''))"

definition sample_authorizer :: authorizer where
  "sample_authorizer = \<lparr>registry_url = ''r'', registry_timeout = 10, registry_limit = 16\<rparr>"

definition nonce_world :: world where
  "nonce_world = empty_world\<lparr>w_nonces := [\<lparr>n_nonce = ''n'', n_asn = 7, n_expires_at = 1200\<rparr>]\<rparr>"

lemma registry_env_simps [simp]:
  "debug_assertions (registry_with f) = False" "db_fault (registry_with f) n = NoFault"
  "clock (registry_with f) n = 1000" "registry_timed_out (registry_with f) n = False"
  "registry_http (registry_with f) n url = sample_http n url" "quiet (registry_with f)"
  "nl_fault (registry_with f) n = f n"
  "\<not> mocked (registry_with f) v"
  by (simp_all add: registry_with_def quiet_def mocked_def)

lemma sample_signature [simp]: "verify_signature (registry_with f) ''ssh-rsa K'' sig msg = Inr ()"
proof -
  have "\<not> is_pgp_key ''ssh-rsa K''"
    by (simp add: is_pgp_key_def contains_def find_sub.simps)
  then show ?thesis by (simp add: verify_signature_def registry_with_def sample_env_def)
qed

lemma sample_expected: "expected_auth_strings (registry_with f) ''ssh-rsa K'' = [''ssh-rsa K'']"
proof -
  have "\<not> is_pgp_key ''ssh-rsa K''" by (simp add: is_pgp_key_def contains_def find_sub.simps)
  moreover have "trim ''ssh-rsa K'' = ''ssh-rsa K''"
    by (rule trim_id) (simp_all add: graphic_def byte_def)
  ultimately show ?thesis by (simp add: expected_auth_strings_def)
qed

lemma sample_registry_check:
  "\<exists>w'. registry_check (registry_with f) sample_authorizer 7 ''ssh-rsa K'' w = (Inr True, w')"
proof -
  have seven: "show_u32 7 = ''7''"
    by (simp add: show_u32_def show_base_def to_digits.simps)
  have "maintainer_of ''(mntner/M)'' = Some (Some ''M'')"
    by (simp add: maintainer_of_def find_sub.simps ends_with_def slice_def suffix_def)
  moreover have "trim ''ssh-rsa K'' = ''ssh-rsa K''"
    by (rule trim_id) (simp_all add: graphic_def byte_def)
  ultimately show ?thesis
    by (simp add: registry_check_def check_registry_for_asn_and_pubkey_def sample_expected
        http_get_def and_then_def aut_num_url_def aut_num_attributes_def sample_http_def seven
        sample_authorizer_def error_status_def object_attributes_def attribute_value_def
        mntner_url_def mntner_attributes_def success_status_def has_auth_def)
qed

theorem authorize_request_complete_witness:
  "fst (authorize_request registry_env sample_authorizer 7 ''ssh-rsa K'' ''sig'' ''n'' 1200 ''msg''
     nonce_world) = Inr ()"
proof -
  have check: "fst (registry_check registry_env sample_authorizer 7 ''ssh-rsa K'' w) = Inr True" for w
    using sample_registry_check[of "\<lambda>_. FailClean (IoError OtherKind None ''netlink is down'')" w] by auto
  show ?thesis
    by (rule authorize_request_complete[of registry_env nonce_world
          "\<lparr>n_nonce = ''n'', n_asn = 7, n_expires_at = 1200\<rparr>", THEN conjunct1])
      (simp_all add: nonce_world_def empty_world_def nonces_distinct_def check)
qed

lemma sample_authorize:
  "\<exists>w1. authorize_request (registry_with f) sample_authorizer 7 ''ssh-rsa K'' sig ''n'' 1200 msg nonce_world
     = (Inr (), w1)"
proof -
  obtain w1 where w1: "registry_check (registry_with f) sample_authorizer 7 ''ssh-rsa K''
      (nonce_world\<lparr>w_permits := 127, w_tick := 2, w_nonces := []\<rparr>) = (Inr True, w1)"
    using sample_registry_check by blast
  have consume: "consume_nonce (registry_with f) 7 ''n'' 1200 (nonce_world\<lparr>w_permits := 127\<rparr>)
      = (Inr True, nonce_world\<lparr>w_permits := 127, w_tick := 2, w_nonces := []\<rparr>)"
    using consume_nonce_live[of "registry_with f" "nonce_world\<lparr>w_permits := 127\<rparr>"
        "\<lparr>n_nonce = ''n'', n_asn = 7, n_expires_at = 1200\<rparr>" "''n''" 7 1200]
    by (simp add: nonce_world_def empty_world_def nonces_distinct_def)
  show ?thesis
    using consume w1
    by (simp add: authorize_request_def read_clock_def unix_timestamp_def with_permit_def
        and_then_def nonce_world_def empty_world_def)
qed


section \<open>Consuming a nonce changes the nonces alone\<close>

definition beside_nonces :: "(world \<Rightarrow> 'v) \<Rightarrow> bool" where
  "beside_nonces v = (tick_free v \<and> (\<forall>w ns. v (w\<lparr>w_nonces := ns\<rparr>) = v w))"

lemma consume_nonce_keeps:
  "quiet E \<Longrightarrow> beside_nonces v \<Longrightarrow> keeps v (consume_nonce E asn nonce t)"
  unfolding consume_nonce_def
  by (intro frame_rules keeps_execute undisturbed_quiet) (simp_all add: beside_nonces_def sql_consume_nonce_def)

lemma authorize_keeps_beside_nonces:
  assumes "quiet E" "beside_nonces v" "\<And>w n. v (w\<lparr>w_permits := n\<rparr>) = v w"
  shows "keeps v (authorize_request E a asn key sig nonce t msg)"
  unfolding authorize_request_def
  using assms
  by (intro frame_rules keeps_with_permit keeps_registry_check consume_nonce_keeps)
    (simp_all add: beside_nonces_def)

end
