(* ===== verification/Handle.thy ===== *)
theory Handle
  imports Manager Challenge
begin

text \<open>
  \<open>src/handle.rs\<close>: the requests and responses of the API, the validation of their fields, and the
  five handlers. A \<open>WgPubKey\<close> only exists after its validation, which deserialization performs
  (\<open>pubkey_try_from\<close>). The \<open>url\<close> crate's parser is the parameter \<open>url_parse\<close>.
\<close>

section \<open>Requests and responses\<close>

record challenge =
  ch_auth :: rstr
  ch_signature :: rstr
  ch_nonce :: rstr
  ch_expires_at :: int

record create_peer_req =
  cr_asn :: u32
  cr_peer_name :: rstr
  cr_pubkey :: wg_pubkey
  cr_endpoint :: "rstr option"
  cr_manual_lla :: bool
  cr_local_ll_ip :: "rstr option"
  cr_remote_ll_ip :: "rstr option"
  cr_mtu :: "u16 option"
  cr_challenge :: challenge

record update_peer_req =
  up_asn :: u32
  up_peer_name :: rstr
  up_pubkey :: wg_pubkey
  up_endpoint :: "rstr option option"
  up_manual_lla :: bool
  up_local_ll_ip :: "rstr option"
  up_remote_ll_ip :: "rstr option"
  up_mtu :: "u16 option option"
  up_challenge :: challenge

record delete_peer_req =
  dl_asn :: u32
  dl_peer_name :: rstr
  dl_challenge :: challenge

record wg_config =
  your_assigned_ip :: rstr
  my_endpoint :: rstr
  my_pubkey :: rstr
  wg_allowed_ips :: rstr

record bgp_config =
  my_asn :: u32
  my_neighbor_ip :: rstr
  multiprotocol :: bool
  extended_next_hop :: bool

record peer_response =
  rs_status :: rstr
  rs_message :: rstr
  rs_peer_id :: u32
  rs_peer_name :: rstr
  rs_wg_config :: "wg_config option"
  rs_bgp_config :: "bgp_config option"

record app_state =
  st_manager :: peer_manager
  st_authorizer :: authorizer

section \<open>Validation\<close>

definition parse_peer_name :: "rstr \<Rightarrow> peer_error + rstr" where
  "parse_peer_name s =
     (let peer_name = trim s;
          valid_first = (case peer_name of [] \<Rightarrow> False
            | c # _ \<Rightarrow> is_ascii_lowercase c \<or> is_ascii_digit c);
          valid_rest = list_all (\<lambda>c. is_ascii_lowercase c \<or> is_ascii_digit c \<or> c = CHR ''-'')
            (tl peer_name)
      in if \<not> valid_first \<or> \<not> valid_rest \<or> length peer_name > 32
         then Inl (Validation ''peer_name must match [a-z0-9][a-z0-9-]{0,31}'')
         else Inr peer_name)"

definition endpoint_text :: "url_host \<Rightarrow> u16 \<Rightarrow> rstr" where
  "endpoint_text host port =
     (case host of
        HostDomain d \<Rightarrow> to_ascii_lowercase d @ '':'' @ show_u16 port
      | HostIpv4 a b \<Rightarrow> show_ipv4_octets a b @ '':'' @ show_u16 port
      | HostIpv6 a \<Rightarrow> ''['' @ show_ipv6 a @ '']:'' @ show_u16 port)"

definition parse_endpoint_value :: "env \<Rightarrow> rstr \<Rightarrow> peer_error + rstr" where
  "parse_endpoint_value E s =
     (let endpoint = trim s; bad = Validation ''The endpoint must use the HOST:PORT format'' in
      res_bind (ok_or bad (url_parse E (''udp://'' @ endpoint))) (\<lambda>u.
      if url_username u \<noteq> [] \<or> url_password u \<noteq> None \<or> url_path u \<noteq> []
         \<or> url_query u \<noteq> None \<or> url_fragment u \<noteq> None
      then Inl bad
      else
        res_bind (ok_or (Validation ''The endpoint must include a port'') (url_port u)) (\<lambda>port.
        res_bind (ok_or (Validation ''The endpoint must include an IP address or hostname'')
                    (url_host u)) (\<lambda>host.
        Inr (endpoint_text host port)))))"

definition parse_endpoint :: "env \<Rightarrow> rstr option \<Rightarrow> peer_error + rstr option" where
  "parse_endpoint E endpoint =
     (case endpoint of
        None \<Rightarrow> Inr None
      | Some v \<Rightarrow> res_bind (parse_endpoint_value E v) (\<lambda>x. Inr (Some x)))"

definition parse_link_local_address :: "rstr \<Rightarrow> rstr option \<Rightarrow> peer_error + ipv6_addr" where
  "parse_link_local_address name v =
     res_bind (ok_or (Validation (name @ '' is required when manual_lla=true'')) v) (\<lambda>s.
     res_bind (ok_or (Validation (name @ '' must be a valid IPv6 address'')) (parse_ipv6 (trim s)))
       (\<lambda>address.
     if \<not> is_unicast_link_local address
     then Inl (Validation (name @ '' must be an IPv6 link-local address''))
     else Inr address))"

definition parse_link_local ::
  "bool \<Rightarrow> rstr option \<Rightarrow> rstr option \<Rightarrow> peer_error + (ipv6_addr \<times> ipv6_addr) option" where
  "parse_link_local manual_lla local_ll_ip remote_ll_ip =
     (if \<not> manual_lla then
        (if local_ll_ip \<noteq> None \<or> remote_ll_ip \<noteq> None
         then Inl (Validation ''local_ll_ip and remote_ll_ip require manual_lla=true'')
         else Inr None)
      else
        res_bind (parse_link_local_address ''local_ll_ip'' local_ll_ip) (\<lambda>local_ip.
        res_bind (parse_link_local_address ''remote_ll_ip'' remote_ll_ip) (\<lambda>remote_ip.
        if local_ip = remote_ip
        then Inl (Validation ''local_ll_ip and remote_ll_ip must differ'')
        else Inr (Some (local_ip, remote_ip)))))"

text \<open>
  A field that is present, null or not, becomes \<open>Some\<close>; a missing field takes the default \<open>None\<close>.
\<close>

definition deserialize_present_option :: "'e + 'a option \<Rightarrow> 'e + 'a option option" where
  "deserialize_present_option r = map_sum id Some r"

section \<open>Handlers\<close>

definition authorize :: "env \<Rightarrow> app_state \<Rightarrow> u32 \<Rightarrow> challenge \<Rightarrow> rstr \<Rightarrow> unit io" where
  "authorize E st asn c message =
     authorize_request E (st_authorizer st) asn (ch_auth c) (ch_signature c) (ch_nonce c)
       (ch_expires_at c) message"

definition handle_create_challenge :: "env \<Rightarrow> app_state \<Rightarrow> u32 \<Rightarrow> (nat \<times> rstr \<times> int) io" where
  "handle_create_challenge E st asn =
     and_then (issue_challenge E asn) (\<lambda>(nonce, expires_at). ret (201, nonce, expires_at))"

definition handle_get_peers :: "env \<Rightarrow> app_state \<Rightarrow> u32 \<Rightarrow> peer_info list io" where
  "handle_get_peers E st asn = manager_get_peer_infos_by_asn E asn"

definition create_response :: "peer_manager \<Rightarrow> u32 \<Rightarrow> peer \<Rightarrow> peer_response" where
  "create_response m asn peer =
     (let test = (asn = local_asn m) in
      \<lparr>rs_status = (if test then ''test'' else ''success''),
       rs_message = (if test
         then ''Peer test passed. The database reservation was rolled back. No WireGuard, BIRD, or firewall configuration was applied.''
         else ''The server configured the peer in BIRD and the kernel''),
       rs_peer_id = p_peer_id peer, rs_peer_name = p_peer_name peer,
       rs_wg_config = Some
         \<lparr>your_assigned_ip = show_ipv6 (p_remote_ll_ip peer) @ ''/64'',
          my_endpoint = public_endpoint m @ '':'' @ show_u16 (p_listen_port peer),
          my_pubkey = local_wg_pubkey m, wg_allowed_ips = ''0.0.0.0/0, ::/0''\<rparr>,
       rs_bgp_config = Some
         \<lparr>my_asn = local_asn m, my_neighbor_ip = show_ipv6 (p_local_ll_ip peer),
          multiprotocol = True, extended_next_hop = True\<rparr>\<rparr>)"

definition handle_create_peer :: "env \<Rightarrow> app_state \<Rightarrow> create_peer_req \<Rightarrow> (nat \<times> peer_response) io" where
  "handle_create_peer E st req =
     and_then (lift_res (parse_peer_name (cr_peer_name req))) (\<lambda>peer_name.
     and_then (lift_res (parse_endpoint E (cr_endpoint req))) (\<lambda>endpoint.
     and_then (lift_res (parse_link_local (cr_manual_lla req) (cr_local_ll_ip req)
                 (cr_remote_ll_ip req))) (\<lambda>link_local.
     let message = build_create_message (cr_asn req) peer_name (cr_pubkey req) endpoint link_local
           (cr_mtu req) (ch_nonce (cr_challenge req)) (ch_expires_at (cr_challenge req)) in
     and_then (authorize E st (cr_asn req) (cr_challenge req) message) (\<lambda>_.
     and_then (create_peer E (st_manager st) (cr_asn req) peer_name (cr_pubkey req) endpoint
                 link_local (cr_mtu req)) (\<lambda>peer.
     ret (201, create_response (st_manager st) (cr_asn req) peer))))))"

definition plain_response :: "rstr \<Rightarrow> peer \<Rightarrow> peer_response" where
  "plain_response message peer =
     \<lparr>rs_status = ''success'', rs_message = message, rs_peer_id = p_peer_id peer,
      rs_peer_name = p_peer_name peer, rs_wg_config = None, rs_bgp_config = None\<rparr>"

definition handle_update_peer :: "env \<Rightarrow> app_state \<Rightarrow> update_peer_req \<Rightarrow> peer_response io" where
  "handle_update_peer E st req =
     and_then (lift_res (parse_peer_name (up_peer_name req))) (\<lambda>peer_name.
     and_then (lift_res (case up_endpoint req of
         None \<Rightarrow> Inr None
       | Some v \<Rightarrow> res_bind (parse_endpoint E v) (\<lambda>e. Inr (Some e)))) (\<lambda>endpoint.
     and_then (lift_res (parse_link_local (up_manual_lla req) (up_local_ll_ip req)
                 (up_remote_ll_ip req))) (\<lambda>link_local.
     let message = build_update_message (up_asn req) peer_name (up_pubkey req) endpoint link_local
           (up_mtu req) (ch_nonce (up_challenge req)) (ch_expires_at (up_challenge req)) in
     and_then (authorize E st (up_asn req) (up_challenge req) message) (\<lambda>_.
     and_then (update_peer E (st_manager st) (up_asn req) peer_name (up_pubkey req) endpoint
                 link_local (up_mtu req)) (\<lambda>peer.
     ret (plain_response ''The server updated the peer'' peer))))))"

definition handle_delete_peer :: "env \<Rightarrow> app_state \<Rightarrow> delete_peer_req \<Rightarrow> peer_response io" where
  "handle_delete_peer E st req =
     and_then (lift_res (parse_peer_name (dl_peer_name req))) (\<lambda>peer_name.
     let message = build_delete_message (dl_asn req) peer_name (ch_nonce (dl_challenge req))
           (ch_expires_at (dl_challenge req)) in
     and_then (authorize E st (dl_asn req) (dl_challenge req) message) (\<lambda>_.
     and_then (delete_peer E (st_manager st) (dl_asn req) peer_name) (\<lambda>peer.
     ret (plain_response ''The server removed the peer'' peer))))"

section \<open>Validated fields\<close>

definition name_char :: "char \<Rightarrow> bool" where
  "name_char c = (is_ascii_lowercase c \<or> is_ascii_digit c \<or> c = CHR ''-'')"

text \<open>\<open>[a-z0-9][a-z0-9-]{0,31}\<close>.\<close>

definition peer_name_ok :: "rstr \<Rightarrow> bool" where
  "peer_name_ok s = (s \<noteq> [] \<and> length s \<le> 32 \<and> list_all name_char s \<and> hd s \<noteq> CHR ''-'')"

lemma name_char_graphic: "name_char c \<Longrightarrow> graphic c"
  by (auto simp: name_char_def graphic_def is_ascii_lowercase_def is_ascii_digit_def byte_def)

lemma name_char_plain: "name_char c \<Longrightarrow> bird_plain c \<and> c \<noteq> LF \<and> byte c < 128"
  by (auto simp: name_char_def bird_plain_def is_ascii_control_def is_ascii_lowercase_def
      is_ascii_digit_def byte_def)

lemma parse_peer_name_iff: "parse_peer_name s = Inr n \<longleftrightarrow> n = trim s \<and> peer_name_ok (trim s)"
proof -
  have dash: "\<not> (is_ascii_lowercase (CHR ''-'') \<or> is_ascii_digit (CHR ''-''))"
    by (simp add: is_ascii_lowercase_def is_ascii_digit_def byte_def)
  show ?thesis
  proof (cases "trim s")
    case Nil
    then show ?thesis by (simp add: parse_peer_name_def peer_name_ok_def Let_def)
  next
    case (Cons c cs)
    have "(is_ascii_lowercase c \<or> is_ascii_digit c) = (name_char c \<and> c \<noteq> CHR ''-'')"
      using dash by (auto simp: name_char_def)
    then show ?thesis using Cons
      by (auto simp: parse_peer_name_def peer_name_ok_def Let_def name_char_def[symmetric])
  qed
qed

lemma peer_name_trim: "peer_name_ok n \<Longrightarrow> trim n = n"
proof (rule trim_id)
  assume ok: "peer_name_ok n"
  then have "n \<noteq> []" "\<forall>c\<in>set n. graphic c"
    using name_char_graphic by (auto simp: peer_name_ok_def list_all_iff)
  then show "n = [] \<or> graphic (hd n)" "n = [] \<or> graphic (last n)" by auto
qed

text \<open>
  A peer name that the API accepts is harmless everywhere it goes: validating it again gives
  the same name, it fits the \<open>VARCHAR(32)\<close> columns, the escaper leaves it as it is, and it holds no
  line feed that could forge a line of a signing message.
\<close>

theorem accepted_peer_name_is_safe:
  assumes "parse_peer_name s = Inr n"
  shows "peer_name_ok n \<and> parse_peer_name n = Inr n \<and> varchar 32 n = Some n
    \<and> write_escaped_str n = n \<and> LF \<notin> set n"
proof -
  have ok: "peer_name_ok n" using assms by (simp add: parse_peer_name_iff)
  then have chars: "\<forall>c\<in>set n. bird_plain c \<and> c \<noteq> LF \<and> byte c < 128"
    using name_char_plain by (auto simp: peer_name_ok_def list_all_iff)
  then have "char_count n \<le> 32" using ok by (simp add: char_count_ascii peer_name_ok_def)
  then show ?thesis
    using ok chars by (auto simp: parse_peer_name_iff peer_name_trim varchar_id escape_plain)
qed

theorem accepted_peer_name_is_safe_witness:
  "parse_peer_name ''fra1'' = Inr ''fra1'' \<and> write_escaped_str ''fra1'' = ''fra1''"
proof -
  have "parse_peer_name ''fra1'' = Inr ''fra1''"
    by (simp add: parse_peer_name_iff peer_name_trim peer_name_ok_def name_char_def
        is_ascii_lowercase_def is_ascii_digit_def byte_def)
  with accepted_peer_name_is_safe[OF this] show ?thesis by blast
qed

lemma link_local_address_iff:
  "parse_link_local_address name v = Inr a \<longleftrightarrow>
     (\<exists>s. v = Some s \<and> parse_ipv6 (trim s) = Some a \<and> is_unicast_link_local a)"
  by (auto simp: parse_link_local_address_def res_bind_Inr split: if_splits)

text \<open>
  Link-local addresses: without \<open>manual_lla\<close> the request must not name any and the pair is
  chosen automatically; with it both are required, parse, lie in \<open>fe80::/10\<close> and differ. Nothing
  else is accepted.
\<close>

theorem parse_link_local_spec:
  "parse_link_local manual l r = Inr pair \<longleftrightarrow>
     (if manual
      then \<exists>s t a b. l = Some s \<and> r = Some t \<and> parse_ipv6 (trim s) = Some a
             \<and> parse_ipv6 (trim t) = Some b \<and> is_unicast_link_local a \<and> is_unicast_link_local b
             \<and> a \<noteq> b \<and> pair = Some (a, b)
      else l = None \<and> r = None \<and> pair = None)"
  by (auto simp: parse_link_local_def res_bind_Inr link_local_address_iff split: if_splits)

text \<open>
  C31. Two different link-local pairs that the API accepts are signed with the same text: the
  separator of the pair is also the separator inside an address. A signature for one pair is
  valid for the other.
\<close>

theorem link_local_text_ambiguous:
  "\<exists>p q. p \<noteq> q
     \<and> parse_link_local True (Some ''fe80::1'') (Some ''fe80:a:fe80::b'') = Inr (Some p)
     \<and> parse_link_local True (Some ''fe80::1:fe80:a'') (Some ''fe80::b'') = Inr (Some q)
     \<and> build_create_message asn name key ep (Some p) mtu nonce t
       = build_create_message asn name key ep (Some q) mtu nonce t"
proof -
  let ?p = "(Ipv6Addr 0xfe80 0 0 0 0 0 0 1, Ipv6Addr 0xfe80 0xa 0xfe80 0 0 0 0 0xb)"
  let ?q = "(Ipv6Addr 0xfe80 0 0 0 0 1 0xfe80 0xa, Ipv6Addr 0xfe80 0 0 0 0 0 0 0xb)"
  have texts: "show_ipv6 (fst ?p) = ''fe80::1''" "show_ipv6 (snd ?p) = ''fe80:a:fe80::b''"
    "show_ipv6 (fst ?q) = ''fe80::1:fe80:a''" "show_ipv6 (snd ?q) = ''fe80::b''"
    by (simp_all add: show_ipv6_def Let_def fmt_subslice_def show_base_def to_digits.simps[of 16])
  have accepted: "parse_link_local True (Some (show_ipv6 (fst pq))) (Some (show_ipv6 (snd pq)))
      = Inr (Some pq)"
    if "is_unicast_link_local (fst pq)" "is_unicast_link_local (snd pq)" "fst pq \<noteq> snd pq"
      "trim (show_ipv6 (fst pq)) = show_ipv6 (fst pq)" "trim (show_ipv6 (snd pq)) = show_ipv6 (snd pq)"
    for pq
    using that by (simp add: parse_link_local_def parse_link_local_address_def ipv6_text.prs_shw)
  have trimmed: "trim x = x" if "x \<in> {''fe80::1'', ''fe80:a:fe80::b'', ''fe80::1:fe80:a'', ''fe80::b''}" for x
    by (rule trim_id) (use that in \<open>auto simp: graphic_def byte_def\<close>)
  have "parse_link_local True (Some ''fe80::1'') (Some ''fe80:a:fe80::b'') = Inr (Some ?p)"
    using accepted[of ?p] unfolding texts by (simp add: is_unicast_link_local_def trimmed)
  moreover have "parse_link_local True (Some ''fe80::1:fe80:a'') (Some ''fe80::b'') = Inr (Some ?q)"
    using accepted[of ?q] unfolding texts by (simp add: is_unicast_link_local_def trimmed)
  moreover have "link_local_message (Some ?p) = link_local_message (Some ?q)"
    using texts by simp
  then have "build_create_message asn name key ep (Some ?p) mtu nonce t
       = build_create_message asn name key ep (Some ?q) mtu nonce t"
    by (simp only: build_create_message_def)
  ultimately show ?thesis by (intro exI[of _ ?p] exI[of _ ?q]) simp
qed


section \<open>The signed form of a request\<close>

datatype api_request =
    CreateApi create_peer_req
  | UpdateApi update_peer_req
  | DeleteApi delete_peer_req

fun api_asn :: "api_request \<Rightarrow> u32" where
  "api_asn (CreateApi r) = cr_asn r"
| "api_asn (UpdateApi r) = up_asn r"
| "api_asn (DeleteApi r) = dl_asn r"

fun api_challenge :: "api_request \<Rightarrow> challenge" where
  "api_challenge (CreateApi r) = cr_challenge r"
| "api_challenge (UpdateApi r) = up_challenge r"
| "api_challenge (DeleteApi r) = dl_challenge r"

text \<open>The validated content of a request: what its signature must cover.\<close>

fun signed_form :: "env \<Rightarrow> api_request \<Rightarrow> peer_error + signed_request" where
  "signed_form E (CreateApi r) =
     res_bind (parse_peer_name (cr_peer_name r)) (\<lambda>name.
     res_bind (parse_endpoint E (cr_endpoint r)) (\<lambda>ep.
     res_bind (parse_link_local (cr_manual_lla r) (cr_local_ll_ip r) (cr_remote_ll_ip r)) (\<lambda>ll.
     Inr (CreateRequest (cr_asn r) name (cr_pubkey r) ep ll (cr_mtu r)
            (ch_nonce (cr_challenge r)) (ch_expires_at (cr_challenge r))))))"
| "signed_form E (UpdateApi r) =
     res_bind (parse_peer_name (up_peer_name r)) (\<lambda>name.
     res_bind (case up_endpoint r of None \<Rightarrow> Inr None
       | Some v \<Rightarrow> res_bind (parse_endpoint E v) (\<lambda>e. Inr (Some e))) (\<lambda>ep.
     res_bind (parse_link_local (up_manual_lla r) (up_local_ll_ip r) (up_remote_ll_ip r)) (\<lambda>ll.
     Inr (UpdateRequest (up_asn r) name (up_pubkey r) ep ll (up_mtu r)
            (ch_nonce (up_challenge r)) (ch_expires_at (up_challenge r))))))"
| "signed_form E (DeleteApi r) =
     res_bind (parse_peer_name (dl_peer_name r)) (\<lambda>name.
     Inr (DeleteRequest (dl_asn r) name (ch_nonce (dl_challenge r))
            (ch_expires_at (dl_challenge r))))"

text \<open>What the manager is told to do for a signed request.\<close>

fun perform :: "env \<Rightarrow> peer_manager \<Rightarrow> signed_request \<Rightarrow> peer io" where
  "perform E m (CreateRequest asn name key ep ll mtu nonce t) = create_peer E m asn name key ep ll mtu"
| "perform E m (UpdateRequest asn name key ep ll mtu nonce t) = update_peer E m asn name key ep ll mtu"
| "perform E m (DeleteRequest asn name nonce t) = delete_peer E m asn name"

fun respond :: "peer_manager \<Rightarrow> signed_request \<Rightarrow> peer \<Rightarrow> nat \<times> peer_response" where
  "respond m (CreateRequest asn name key ep ll mtu nonce t) p = (201, create_response m asn p)"
| "respond m (UpdateRequest asn name key ep ll mtu nonce t) p =
     (200, plain_response ''The server updated the peer'' p)"
| "respond m (DeleteRequest asn name nonce t) p =
     (200, plain_response ''The server removed the peer'' p)"

text \<open>The three handlers, with the status of their answer.\<close>

fun run_request :: "env \<Rightarrow> app_state \<Rightarrow> api_request \<Rightarrow> (nat \<times> peer_response) io" where
  "run_request E st (CreateApi r) = handle_create_peer E st r"
| "run_request E st (UpdateApi r) = and_then (handle_update_peer E st r) (\<lambda>x. ret (200, x))"
| "run_request E st (DeleteApi r) = and_then (handle_delete_peer E st r) (\<lambda>x. ret (200, x))"

text \<open>Every handler is: validate, authorize the signed form, perform it, answer.\<close>

lemma lift_res_bind: "lift_res (res_bind r f) = and_then (lift_res r) (\<lambda>x. lift_res (f x))"
  by (cases r) (simp_all add: fun_eq_iff and_then_def)

lemma lift_res_Inr: "lift_res (Inr x) = ret x"
  by (simp add: fun_eq_iff)

lemma run_request_shape:
  "run_request E st r =
     and_then (lift_res (signed_form E r)) (\<lambda>sr.
     and_then (authorize E st (api_asn r) (api_challenge r) (signing_message sr)) (\<lambda>_.
     and_then (perform E (st_manager st) sr) (\<lambda>p. ret (respond (st_manager st) sr p))))"
proof (cases r)
  case (CreateApi q)
  then show ?thesis
    by (simp add: handle_create_peer_def Let_def lift_res_bind lift_res_Inr and_then_assoc
        del: ret_simp)
next
  case (UpdateApi q)
  then show ?thesis
    by (simp add: handle_update_peer_def Let_def lift_res_bind lift_res_Inr and_then_assoc
        del: ret_simp)
next
  case (DeleteApi q)
  then show ?thesis
    by (simp add: handle_delete_peer_def Let_def lift_res_bind lift_res_Inr and_then_assoc
        del: ret_simp)
qed

text \<open>Everything but the nonces, the permits and the call counter.\<close>

definition service_view where
  "service_view w = (w_peers w, w_events w, w_peer_seq w, kernel_view w, bird_view w, nft_view w)"

lemma service_view_permits: "service_view (w\<lparr>w_permits := n\<rparr>) = service_view w"
  by (simp add: service_view_def kernel_view_def bird_view_def nft_view_def)

lemma service_view_beside_nonces: "beside_nonces service_view"
  by (simp add: beside_nonces_def tick_free_def service_view_def kernel_view_def bird_view_def
      nft_view_def)



definition sample_state :: app_state where
  "sample_state =
     \<lparr>st_manager = \<lparr>bird_conf_dir = [''bird''], bird_socket = ''bird.ctl'', local_wg_privkey = ''k'',
        local_wg_pubkey = ''K'', public_endpoint = ''h'', local_asn = 9\<rparr>,
      st_authorizer = sample_authorizer\<rparr>"

definition sample_create :: create_peer_req where
  "sample_create =
     \<lparr>cr_asn = 7, cr_peer_name = ''fra1'', cr_pubkey = p_pubkey sample_peer, cr_endpoint = None,
      cr_manual_lla = False, cr_local_ll_ip = None, cr_remote_ll_ip = None, cr_mtu = None,
      cr_challenge = \<lparr>ch_auth = ''ssh-rsa K'', ch_signature = ''sig'', ch_nonce = ''n'',
                       ch_expires_at = 1200\<rparr>\<rparr>"

lemma increments_first: "\<exists>incs. increments = 0 # incs"
proof -
  have "[0 ..< 10000] = 0 # [Suc 0 ..< 10000]" by (rule upt_conv_Cons) simp
  then have "increments = of_nat 0 # map of_nat [Suc 0 ..< 10000]"
    by (simp only: increments_def list.map)
  moreover have "of_nat 0 = (0 :: u32)" by simp
  ultimately show ?thesis by metis
qed

lemma sample_reservation_fails:
  assumes "w_peer_seq w = 0"
  shows "\<exists>e v. reserve_peer registry_env m 7 name key None None 1420 w = (Inl e, v) \<and> w_peer_seq v = 1"
proof -
  let ?E = registry_env
  obtain v1 where allocate: "allocate_peer_id ?E w = (Inr 1, v1)" "w_peer_seq v1 = 1"
    using assms
    by (simp add: allocate_peer_id_def acquire_def execute_def and_then_def ext_call_def
        sql_nextval_peer_id_def in_word_range_def await_quiet)
  obtain incs where incs: "increments = 0 # incs" using increments_first by blast
  have "\<exists>e v. listen_port_in_use ?E port None v1 = (Inl e, v) \<and> w_peer_seq v = 1" for port
    using allocate(2) by (simp add: listen_port_in_use_def device_list_def and_then_def ext_call_def await_quiet)
  then obtain e v where "listen_port_in_use ?E (probe_port 7 0) None v1 = (Inl e, v)" "w_peer_seq v = 1" by blast
  then show ?thesis
    unfolding reserve_peer_def Let_def and_then_run(1)[where m = "allocate_peer_id ?E", OF allocate(1)] incs
    by (simp add: Let_def and_then_run(2))
qed

lemma sample_create_allocates:
  assumes "w_peers w = []" "w_peer_seq w = 0"
  shows "w_peer_seq (snd (create_peer registry_env m 7 name key None None None w)) = 1"
proof -
  let ?E = registry_env
  let ?w = "note_lock (Acquired (operation_lock 7 name)) (await ?E w)"
  obtain v where exists: "peer_exists ?E 7 name ?w = (Inr False, v)" "w_peer_seq v = 0"
    using assms by (simp add: peer_exists_def acquire_def execute_def and_then_def ext_call_def sql_select_def await_quiet)
  have "w_peer_seq (note_lock (Acquired PortLock) (await ?E v)) = 0" using exists(2) by (simp add: await_quiet)
  from sample_reservation_fails[OF this] obtain e u where
    "reserve_peer ?E m 7 name key None None 1420 (note_lock (Acquired PortLock) (await ?E v)) = (Inl e, u)"
    "w_peer_seq u = 1" by blast
  then show ?thesis using exists(1) by (simp add: create_peer_def with_lock_def and_then_def)
qed



end
