(* ===== verification/Lifecycle.thy ===== *)
theory Lifecycle
  imports Manager
begin

text \<open>
  What the operations of \<open>PeerManager\<close> achieve. The theorems speak of one request that nobody
  interferes with (\<open>quiet\<close>), under any faults of the external calls; the database's
  invariant \<open>db_inv\<close> holds under interference too.
\<close>

section \<open>Automatic addresses and ports\<close>

lemma unat_ucast16: "unat (ucast (x :: u32) :: u16) = unat x mod 65536"
  by (simp add: unsigned_ucast_eq take_bit_eq_mod)

lemma unat_hi_half: "unat (ucast (drop_bit 16 (x :: u32)) :: u16) = unat x div 65536"
proof -
  have "unat x < 2 ^ 32" using unsigned_less[of x] by simp
  then have "unat x div 65536 < 65536" by simp
  then show ?thesis by (simp add: unat_ucast16 drop_bit_eq_div unat_div_distrib)
qed

lemma unat_lo_half: "unat (ucast (and (x :: u32) 0xffff) :: u16) = unat x mod 65536"
proof -
  have "and x 0xffff = take_bit 16 x" by (simp add: take_bit_eq_mask mask_eq_exp_minus_1)
  also have "\<dots> = x mod 65536" by (simp add: take_bit_eq_mod)
  finally show ?thesis by (simp add: unat_ucast16 unat_mod_distrib)
qed

text \<open>
  The automatic link-local addresses: every one lies in \<open>fe80::/10\<close>, and two ASNs never get
  the same one, so the two ends of an automatic session differ.
\<close>

theorem asn_link_local_injective:
  "is_unicast_link_local (asn_link_local asn)
   \<and> (asn_link_local asn = asn_link_local asn' \<longleftrightarrow> asn = asn')"
proof -
  have "asn = asn'" if "asn_link_local asn = asn_link_local asn'"
  proof -
    from that have "unat asn div 65536 = unat asn' div 65536" "unat asn mod 65536 = unat asn' mod 65536"
      using unat_hi_half[of asn] unat_hi_half[of asn'] unat_lo_half[of asn] unat_lo_half[of asn']
      by (simp_all only: asn_link_local_def ipv6_addr.inject)
    then have "unat asn = unat asn'" by (metis div_mult_mod_eq)
    then show ?thesis by (simp add: word_unat_eq_iff)
  qed
  then show ?thesis by (auto simp: asn_link_local_def is_unicast_link_local_def)
qed

lemma unat_probe_port:
  assumes "i < 10000"
  shows "unat (probe_port asn (of_nat i)) = 20000 + (unat asn mod 10000 + i) mod 10000"
proof -
  have i: "unat (of_nat i :: u32) = i" using assms by (simp add: unat_of_nat)
  have "unat (asn mod 10000 + of_nat i) = unat asn mod 10000 + i"
    using assms by (simp add: unat_word_ariths i)
  then have "unat ((asn mod 10000 + of_nat i) mod 10000) = (unat asn mod 10000 + i) mod 10000"
    by (simp add: unat_mod_distrib)
  moreover have "(unat asn mod 10000 + i) mod 10000 < 10000" by simp
  ultimately show ?thesis
    by (simp add: probe_port_def Let_def unat_word_ariths unat_ucast16)
qed

lemma mod_shift_surj:
  assumes "k < (n :: nat)"
  shows "\<exists>i<n. (p + i) mod n = k"
proof -
  let ?i = "(k + (n - p mod n)) mod n"
  have "0 < n" using assms by simp
  then have pn: "p mod n < n" by simp
  have "(p + ?i) mod n = (p mod n + (k + (n - p mod n))) mod n" by (simp add: mod_simps)
  also have "\<dots> = (k + n) mod n" using pn by simp
  finally have "(p + ?i) mod n = k" using assms by simp
  then show ?thesis using \<open>0 < n\<close> by (intro exI[of _ ?i]) simp
qed

lemma mod_shift_inj:
  assumes "i < n" "j < n" "(p + i) mod n = (p + j) mod (n :: nat)"
  shows "i = j"
proof -
  have le: "i = j" if "i \<le> j" "i < n" "j < n" "(p + i) mod n = (p + j) mod n" for i j
  proof -
    have "p + i \<le> p + j" using that(1) by simp
    from mod_eq_dvd_iff_nat[OF this, of n] have "n dvd (p + j) - (p + i)"
      using that(4) by metis
    then have "n dvd j - i" by (metis diff_add_inverse diff_cancel2 add.commute diff_diff_left)
    moreover have "j - i < n" using that by simp
    ultimately have "j - i = 0" using nat_dvd_not_less by blast
    with that show ?thesis by simp
  qed
  show ?thesis using le[of i j] le[of j i] assms by (cases "i \<le> j") auto
qed

lemma probe_port_reached:
  assumes "20000 \<le> unat port" "unat port \<le> 29999"
  shows "port \<in> probe_port asn ` set increments"
proof -
  have "unat port - 20000 < 10000" using assms(2) by simp
  from mod_shift_surj[OF this, of "unat asn mod 10000"]
  obtain i where i: "i < 10000" "(unat asn mod 10000 + i) mod 10000 = unat port - 20000" by blast
  then have "unat (probe_port asn (of_nat i)) = unat port" using unat_probe_port[OF i(1)] assms by simp
  then have "port = probe_port asn (of_nat i)" by (simp only: word_unat_eq_iff)
  moreover have "of_nat i \<in> set increments" using i(1) by (simp add: increments_def)
  ultimately show ?thesis by blast
qed

text \<open>
  C30. The port search starts at \<open>20000 + asn mod 10000\<close> and tries each port from 20000 through
  29999 exactly once: the arithmetic in \<open>u32\<close> and \<open>u16\<close> never wraps.
\<close>

theorem probe_ports_cover:
  "unat (probe_port asn 0) = 20000 + unat asn mod 10000
   \<and> distinct (map (probe_port asn) increments)
   \<and> set (map (probe_port asn) increments) = {p. 20000 \<le> unat p \<and> unat p \<le> 29999}"
proof (intro conjI)
  let ?f = "\<lambda>i. probe_port asn (of_nat i)"
  have probe: "map (probe_port asn) increments = map ?f [0 ..< 10000]"
    by (simp add: increments_def)
  show "unat (probe_port asn 0) = 20000 + unat asn mod 10000"
    using unat_probe_port[of 0 asn] by simp
  have "inj_on ?f {0 ..< 10000}"
  proof (rule inj_onI)
    fix i j assume ij: "i \<in> {0 ..< 10000}" "j \<in> {0 ..< 10000}" "?f i = ?f j"
    then have "(unat asn mod 10000 + i) mod 10000 = (unat asn mod 10000 + j) mod 10000"
      using unat_probe_port[of i asn] unat_probe_port[of j asn] by simp
    then show "i = j" using ij mod_shift_inj[of i 10000 j] by simp
  qed
  then show "distinct (map (probe_port asn) increments)"
    unfolding probe by (simp only: distinct_map distinct_upt set_upt simp_thms)
  show "set (map (probe_port asn) increments) = {p. 20000 \<le> unat p \<and> unat p \<le> 29999}"
    unfolding probe set_map set_upt
  proof (rule set_eqI, rule iffI)
    fix p assume "p \<in> ?f ` {0 ..< 10000}"
    then show "p \<in> {p. 20000 \<le> unat p \<and> unat p \<le> 29999}"
      using unat_probe_port[of _ asn] by force
  next
    fix p :: u16 assume "p \<in> {p. 20000 \<le> unat p \<and> unat p \<le> 29999}"
    then have "p \<in> probe_port asn ` set increments" by (intro probe_port_reached) simp_all
    then show "p \<in> ?f ` {0 ..< 10000}" by (simp add: increments_def image_image)
  qed
qed

section \<open>The peer test\<close>

text \<open>
  Everything that lasts: all but the call counter, the trace of locks and the two sequences, which
  PostgreSQL does not roll back.
\<close>

definition lasting where
  "lasting w = (w_peers w, w_nonces w, w_events w, w_notifies w, kernel_view w, bird_view w, nft_view w)"

lemma tick_free_lasting [simp]: "tick_free lasting"
  by (simp add: tick_free_def lasting_def kernel_view_def bird_view_def nft_view_def)

lemma lock_free_lasting [simp]: "lock_free lasting"
  by (simp add: lock_free_def lasting_def)

lemma lasting_sequences:
  "lasting (w\<lparr>w_event_seq := k\<rparr>) = lasting w" "lasting (w\<lparr>w_peer_seq := k\<rparr>) = lasting w"
  by (simp_all add: lasting_def kernel_view_def bird_view_def nft_view_def)

lemma rolled_back_keeps:
  assumes "quiet E"
  shows "keeps lasting (db_reserve_peer E p True)" "keeps lasting (allocate_peer_id E)"
    "keeps lasting (peer_exists E asn name)" "keeps lasting (listen_port_in_use E port exc)"
proof -
  have bgn: "keeps lasting (tx_begin E)" "keeps lasting (tx_rollback E)"
    unfolding tx_begin_def tx_rollback_def
    by (intro keeps_ext_call[OF assms] tx_call_keeps tick_free_lasting; simp)+
  have ex: "keeps lasting (tx_execute E q)" for q :: "nat statement"
    unfolding tx_execute_def
    by (rule tx_call_keeps) (simp_all add: lasting_sequences split: prod.split sum.split)
  show "keeps lasting (db_reserve_peer E p True)"
    unfolding db_reserve_peer_def by (simp, intro frame_rules undisturbed_quiet assms tick_free_lasting bgn ex)
  show "keeps lasting (allocate_peer_id E)"
    unfolding allocate_peer_id_def
    by (intro frame_rules keeps_execute undisturbed_quiet assms tick_free_lasting)
      (simp add: sql_nextval_peer_id_def lasting_sequences)
  show "keeps lasting (peer_exists E asn name)"
    unfolding peer_exists_def
    by (intro frame_rules keeps_execute undisturbed_quiet assms tick_free_lasting) (simp add: sql_select_def)
  show "keeps lasting (listen_port_in_use E port exc)"
    unfolding listen_port_in_use_def
    by (intro frame_rules keeps_any_device_uses keeps_nl_query assms tick_free_lasting)
qed

text \<open>
  C21. Peering with the service's own ASN is a test that leaves no trace: whatever it answers, no
  peer, nonce, event or notification is stored and neither the kernel, BIRD nor nftables is
  touched; only the sequences advance.
\<close>

theorem test_create_leaves_no_trace:
  assumes "quiet E" "asn = local_asn m"
  shows "lasting (snd (create_peer E m asn name key ep ll mtu w)) = lasting w"
proof -
  note rules = rolled_back_keeps[OF assms(1)] frame_rules assms(1) tick_free_lasting lock_free_lasting
  have test: "(asn = local_asn m) = True" using assms(2) by simp
  have loop: "keeps lasting (reserve_loop E m pid asn name key ep pair n is)" for pid pair n "is"
  proof (induction "is")
    case (Cons i "is")
    show ?case unfolding reserve_loop.simps Let_def test by (intro rules Cons.IH)
  qed (simp add: frame_rules)
  have "keeps lasting (create_peer E m asn name key ep ll mtu)"
    unfolding create_peer_def reserve_peer_def Let_def test if_True
    by (intro rules loop)
  then show ?thesis by (simp add: keeps_def)
qed

theorem test_create_leaves_no_trace_witness:
  "lasting (snd (create_peer sample_env
     \<lparr>bird_conf_dir = [], bird_socket = [], local_wg_privkey = [], local_wg_pubkey = [],
      public_endpoint = [], local_asn = 7\<rparr> 7 ''self'' (p_pubkey sample_peer) None None None empty_world))
   = lasting empty_world"
  by (rule test_create_leaves_no_trace) simp_all


section \<open>WireGuard\<close>

text \<open>Nothing was asked of the kernel in between: the views of two worlds agree.\<close>

lemma resolve_endpoint_view:
  "quiet E \<Longrightarrow> resolve_endpoint E e w = (r, w') \<Longrightarrow> kernel_view w' = kernel_view w"
  by (auto simp: resolve_endpoint_def await_quiet kernel_view_def)

definition resolved :: "env \<Rightarrow> rstr option \<Rightarrow> socket_addr option \<Rightarrow> bool" where
  "resolved E endpoint address =
     (case endpoint of
        None \<Rightarrow> address = None
      | Some e \<Rightarrow> \<exists>n a as. lookup_host E n e = DnsAddresses (a # as) \<and> address = Some a)"

lemma resolve_step:
  assumes "quiet E" "(case endpoint of
         Some e \<Rightarrow> and_then (resolve_endpoint E e) (\<lambda>a. ret (Some a))
       | None \<Rightarrow> ret None) w = (Inr address, w')"
  shows "resolved E endpoint address \<and> accepted E w w' []"
proof (cases endpoint)
  case None
  with assms(2) show ?thesis by (simp add: resolved_def accepted_refl)
next
  case (Some e)
  then obtain a where run: "resolve_endpoint E e w = (Inr a, w')" and "address = Some a"
    using assms(2) by (auto simp: and_then_Inr)
  moreover from run have "\<exists>as. lookup_host E (w_tick w) e = DnsAddresses (a # as)"
    by (auto simp: resolve_endpoint_def split: dns_result.splits list.splits)
  moreover have "accepted E w w' []"
    using resolve_endpoint_view[OF assms(1) run] by (rule accepted_refl)
  ultimately show ?thesis using Some by (auto simp: resolved_def)
qed

lemma apply_wireguard_run:
  assumes "quiet E" "\<not> mocked E ''MOCK_NETLINK''"
    and "apply_wireguard E m p w = (Inr (), w')"
  shows "\<exists>index index' priv_key peer_key address.
    accepted E w w'
      ((if find (has_name (p_iface_name p)) (k_links (w_kernel w)) = None
        then [AddWireguardLink (p_iface_name p)] else [])
       @ [set_link_request E index (p_peer_id p) (p_mtu p),
          device_request priv_key peer_key (p_iface_name p) (p_listen_port p) address,
          ReplaceAddress index' (IpV6 (p_local_ll_ip p)) 64])
    \<and> key_from_base64 E (local_wg_privkey m) = Some priv_key
    \<and> key_from_base64 E (as_str (p_pubkey p)) = Some peer_key
    \<and> resolved E (p_endpoint p) address"
proof -
  obtain u1 u2 w1 address w2 w3 where
    w1: "ensure_wg_interface E (p_iface_name p) (p_peer_id p) (p_mtu p) w = (Inr u1, w1)"
    and w2: "(case p_endpoint p of
         Some e \<Rightarrow> and_then (resolve_endpoint E e) (\<lambda>a. ret (Some a))
       | None \<Rightarrow> ret None) w1 = (Inr address, w2)"
    and w3: "configure_peer E (p_iface_name p) (local_wg_privkey m) (p_listen_port p) (p_pubkey p)
        address w2 = (Inr u2, w3)"
    and w4: "configure_local_address E (p_iface_name p) (p_local_ll_ip p) w3 = (Inr (), w')"
    using assms(3) unfolding apply_wireguard_def by (auto simp only: and_then_Inr)
  let ?add = "if find (has_name (p_iface_name p)) (k_links (w_kernel w)) = None
        then [AddWireguardLink (p_iface_name p)] else []"
  obtain l :: link where a1: "accepted E w w1 (?add @ [set_link_request E (lk_index l) (p_peer_id p) (p_mtu p)])"
    using ensure_wg_interface_ok[OF assms(1,2), of "p_iface_name p" "p_peer_id p" "p_mtu p" w w1] w1
    unfolding Let_def by auto
  have a2: "accepted E w1 w2 []" and res: "resolved E (p_endpoint p) address"
    using resolve_step[OF assms(1) w2] by simp_all
  obtain priv_key peer_key where keys: "key_from_base64 E (local_wg_privkey m) = Some priv_key"
      "key_from_base64 E (as_str (p_pubkey p)) = Some peer_key"
    and a3: "accepted E w2 w3
      [device_request priv_key peer_key (p_iface_name p) (p_listen_port p) address]"
    using configure_peer_ok[OF assms(1,2), of "p_iface_name p" "local_wg_privkey m"
        "p_listen_port p" "p_pubkey p" address w2 w3] w3 by auto
  obtain l' :: link where a4: "accepted E w3 w' [ReplaceAddress (lk_index l') (IpV6 (p_local_ll_ip p)) 64]"
    using configure_local_address_ok[OF assms(1,2) w4] by auto
  have "accepted E w w' (?add @ [set_link_request E (lk_index l) (p_peer_id p) (p_mtu p),
          device_request priv_key peer_key (p_iface_name p) (p_listen_port p) address,
          ReplaceAddress (lk_index l') (IpV6 (p_local_ll_ip p)) 64])"
    using accepted_trans[OF accepted_trans[OF accepted_trans[OF a1 a2] a3] a4] by simp
  with keys res show ?thesis by blast
qed

text \<open>
  Configuring a peer asks the kernel for exactly these changes, in this order: the link when
  it was missing; its MTU, its alias with the peer's id, the disabled reverse-path filter and the
  up state; the device with our key, the peer's port and this one WireGuard peer, which replaces
  every older one, with the resolved endpoint and the fixed allowed addresses; and the local address.
\<close>

theorem apply_wireguard_requests:
  assumes "quiet E" "\<not> mocked E ''MOCK_NETLINK''"
    and "apply_wireguard E m p w = (Inr (), w')"
  shows "\<exists>index index' priv_key peer_key address.
    accepted E w w'
      ((if find (has_name (p_iface_name p)) (k_links (w_kernel w)) = None
        then [AddWireguardLink (p_iface_name p)] else [])
       @ [set_link_request E index (p_peer_id p) (p_mtu p),
          device_request priv_key peer_key (p_iface_name p) (p_listen_port p) address,
          ReplaceAddress index' (IpV6 (p_local_ll_ip p)) 64])
    \<and> key_from_base64 E (local_wg_privkey m) = Some priv_key
    \<and> key_from_base64 E (as_str (p_pubkey p)) = Some peer_key
    \<and> resolved E (p_endpoint p) address"
  using assms by (rule apply_wireguard_run)

text \<open>The example runs on the documented kernel: the link is created with index 1.\<close>

lemma sample_apply_wireguard:
  "\<exists>w'. apply_wireguard sample_env
     \<lparr>bird_conf_dir = [], bird_socket = [], local_wg_privkey = [], local_wg_pubkey = [],
      public_endpoint = [], local_asn = 7\<rparr> sample_peer empty_world = (Inr (), w')"
  by (simp add: apply_wireguard_def ensure_wg_interface_def new_connection_def find_link_def
      dump_links_def nl_send_def configure_peer_def configure_local_address_def and_then_def
      ext_call_def Let_def empty_world_def sample_peer_def accept_request_def has_name_def
      parse_interface_name_def scan_for_link_ok(1)[of _ "[_]", simplified] ok_or_def)

theorem apply_wireguard_requests_witness:
  "\<exists>w' reqs. accepted sample_env empty_world w' reqs \<and> reqs \<noteq> []
     \<and> hd reqs = AddWireguardLink ''wgp5''"
proof -
  obtain w' where run: "apply_wireguard sample_env
     \<lparr>bird_conf_dir = [], bird_socket = [], local_wg_privkey = [], local_wg_pubkey = [],
      public_endpoint = [], local_asn = 7\<rparr> sample_peer empty_world = (Inr (), w')"
    using sample_apply_wireguard by blast
  from apply_wireguard_requests[OF _ _ run] show ?thesis
    by (fastforce simp: empty_world_def sample_peer_def)
qed


end
