(* ===== verification/Triples.thy ===== *)
theory Triples
  imports Files
begin

text \<open>
  Assertions before and after an operation: \<open>triple P m Q F\<close> says that \<open>m\<close>, started where \<open>P\<close>
  holds, ends with \<open>Q x\<close> when it returns \<open>Ok(x)\<close> and with \<open>F e\<close> when it returns \<open>Err(e)\<close>. The rules
  follow the constructs of the monad; the one for file-system calls covers the faults of the call,
  clean and dirty.
\<close>

definition triple ::
  "(world \<Rightarrow> bool) \<Rightarrow> 'a io \<Rightarrow> ('a \<Rightarrow> world \<Rightarrow> bool) \<Rightarrow> (peer_error \<Rightarrow> world \<Rightarrow> bool) \<Rightarrow> bool" where
  "triple P m Q F = (\<forall>w. P w \<longrightarrow> (case m w of (Inl e, w') \<Rightarrow> F e w' | (Inr x, w') \<Rightarrow> Q x w'))"

named_theorems triple_rules "rules that take a triple apart"

lemma tripleI:
  "(\<And>w x w'. P w \<Longrightarrow> m w = (Inr x, w') \<Longrightarrow> Q x w') \<Longrightarrow>
   (\<And>w e w'. P w \<Longrightarrow> m w = (Inl e, w') \<Longrightarrow> F e w') \<Longrightarrow> triple P m Q F"
  by (auto simp: triple_def split: prod.split sum.split)

lemma triple_Inr: "triple P m Q F \<Longrightarrow> P w \<Longrightarrow> m w = (Inr x, w') \<Longrightarrow> Q x w'"
  by (fastforce simp: triple_def)

lemma triple_Inl: "triple P m Q F \<Longrightarrow> P w \<Longrightarrow> m w = (Inl e, w') \<Longrightarrow> F e w'"
  by (fastforce simp: triple_def)

lemma triple_weaken:
  "triple P m Q F \<Longrightarrow> (\<And>w. P' w \<Longrightarrow> P w) \<Longrightarrow> (\<And>x w. Q x w \<Longrightarrow> Q' x w) \<Longrightarrow>
   (\<And>e w. F e w \<Longrightarrow> F' e w) \<Longrightarrow> triple P' m Q' F'"
  by (rule tripleI) (blast dest: triple_Inr triple_Inl)+

lemma triple_false: "(\<And>w. \<not> P w) \<Longrightarrow> triple P m Q F"
  by (simp add: triple_def)

lemma triple_pre: "(\<And>w. P w \<Longrightarrow> triple (\<lambda>v. v = w) m Q F) \<Longrightarrow> triple P m Q F"
  by (simp add: triple_def)

lemma triple_ret [triple_rules]: "(\<And>w. P w \<Longrightarrow> Q x w) \<Longrightarrow> triple P (ret x) Q F"
  by (simp add: triple_def)

lemma triple_throw [triple_rules]: "(\<And>w. P w \<Longrightarrow> F e w) \<Longrightarrow> triple P (throw e) Q F"
  by (simp add: triple_def)

lemma triple_and_then:
  "triple P m R F \<Longrightarrow> (\<And>x. triple (R x) (f x) Q F) \<Longrightarrow> triple P (and_then m f) Q F"
  by (rule tripleI) (auto simp: and_then_Inr and_then_Inl dest: triple_Inr triple_Inl)

lemma triple_attempt:
  assumes "triple P m (\<lambda>x. Q (Inr x)) (\<lambda>e. Q (Inl e))"
  shows "triple P (attempt m) Q F"
proof (rule tripleI)
  fix w r w' assume "P w" "attempt m w = (Inr r, w')"
  then show "Q r w'"
    using triple_Inr[OF assms] triple_Inl[OF assms] by (cases r) auto
qed simp

lemma triple_for_io:
  assumes "\<And>pre x post. xs = pre @ x # post \<Longrightarrow> triple (I pre) (f x) (\<lambda>_. I (pre @ [x])) F"
  shows "triple (I []) (for_io f xs) (\<lambda>_. I xs) F"
proof -
  have "xs = pre @ ys \<Longrightarrow> triple (I pre) (for_io f ys) (\<lambda>_. I xs) F" for pre ys
  proof (induction ys arbitrary: pre)
    case (Cons y ys)
    show ?case
      unfolding for_io.simps
      by (rule triple_and_then[OF assms[OF Cons.prems]]) (rule Cons.IH, simp add: Cons.prems)
  qed (simp add: triple_def)
  from this[of "[]" xs] show ?thesis by simp
qed

section \<open>Assertions about BIRD's files\<close>

text \<open>
  They speak of a task that holds \<open>bird_sync_lock\<close>. Other tasks respect the lock when they leave the
  files, and what BIRD is told, alone as long as it is held.
\<close>

definition holds_bird :: "world \<Rightarrow> bool" where
  "holds_bird w = (BirdLock \<in> set (locks_held (w_locks w)))"

definition respects_bird_lock :: "env \<Rightarrow> bool" where
  "respects_bird_lock E = (\<forall>n w. holds_bird w \<longrightarrow> bird_view (interfere E n w) = bird_view w)"

lemma quiet_respects: "quiet E \<Longrightarrow> respects_bird_lock E"
  by (simp add: quiet_def respects_bird_lock_def)

lemma await_bird:
  assumes "respects_bird_lock E" "holds_bird w"
  shows "w_fs (await E w) = w_fs w \<and> w_bird_log (await E w) = w_bird_log w \<and> holds_bird (await E w)"
proof -
  have "holds_bird (w\<lparr>w_tick := Suc (w_tick w)\<rparr>)" using assms(2) by (simp add: holds_bird_def)
  then have "bird_view (interfere E (w_tick w) (w\<lparr>w_tick := Suc (w_tick w)\<rparr>)) = bird_view (w\<lparr>w_tick := Suc (w_tick w)\<rparr>)"
    using assms(1) unfolding respects_bird_lock_def by blast
  then show ?thesis using assms(2) by (simp add: await_def bird_view_def holds_bird_def)
qed

definition on_bird :: "(filesystem \<Rightarrow> node option list \<Rightarrow> bool) \<Rightarrow> world \<Rightarrow> bool" where
  "on_bird P w = (holds_bird w \<and> P (w_fs w) (w_bird_log w))"

lemma on_bird_await: "respects_bird_lock E \<Longrightarrow> on_bird P w \<Longrightarrow> on_bird P (await E w)"
  using await_bird by (simp add: on_bird_def)

text \<open>
  A failing device reports an input/output error, not that a path does not exist: \<open>ENOENT\<close> comes
  from looking the path up.
\<close>

definition honest_faults :: "env \<Rightarrow> bool" where
  "honest_faults E = (\<forall>n e. (fs_fault E n = FailClean e \<or> fs_fault E n = FailDirty e) \<longrightarrow>
     io_error_kind e \<noteq> NotFoundKind)"

lemma triple_fs_io:
  assumes "respects_bird_lock E"
    and ok: "\<And>fs l x fs'. P fs l \<Longrightarrow> q fs = (Inr x, fs') \<Longrightarrow> Q x fs' l"
    and err: "\<And>fs l e fs'. P fs l \<Longrightarrow> q fs = (Inl e, fs') \<Longrightarrow> F (BirdConfigIo e (show_path p)) fs' l"
    and fault: "\<And>fs l e. P fs l \<Longrightarrow> io_error_kind e \<noteq> NotFoundKind \<or> \<not> honest_faults E \<Longrightarrow>
      F (BirdConfigIo e (show_path p)) fs l \<and> F (BirdConfigIo e (show_path p)) (snd (q fs)) l"
  shows "triple (on_bird P) (fs_io E p q) (\<lambda>x. on_bird (Q x)) (\<lambda>e. on_bird (F e))"
proof (rule tripleI)
  fix w x w' assume "on_bird P w" "fs_io E p q w = (Inr x, w')"
  then have "on_bird P (await E w)" "\<exists>fs'. q (w_fs (await E w)) = (Inr x, fs') \<and> w' = (await E w)\<lparr>w_fs := fs'\<rparr>"
    using on_bird_await[OF assms(1)] by (auto simp: fs_io_def ext_call_Inr split: prod.splits)
  then show "on_bird (Q x) w'" using ok by (auto simp: on_bird_def holds_bird_def)
next
  fix w e w' assume P: "on_bird P w" and run: "fs_io E p q w = (Inl e, w')"
  let ?q = "\<lambda>w. case q (w_fs w) of (r, fs) \<Rightarrow> (r, w\<lparr>w_fs := fs\<rparr>)"
  have held: "holds_bird (await E w)" and P': "P (w_fs (await E w)) (w_bird_log (await E w))"
    using on_bird_await[OF assms(1) P] by (simp_all add: on_bird_def)
  note defs = fs_io_def ext_call_def Let_def on_bird_def
  show "on_bird (F e) w'"
  proof (cases "fs_fault E (w_tick w)")
    case NoFault
    obtain r fs' where q: "q (w_fs (await E w)) = (r, fs')" by (cases "q (w_fs (await E w))")
    then show ?thesis using run NoFault err[OF P'] held unfolding defs
      by (cases r) (auto simp: map_err_def holds_bird_def)
  next
    case (FailClean d)
    then have "io_error_kind d \<noteq> NotFoundKind \<or> \<not> honest_faults E"
      unfolding honest_faults_def by blast
    from fault[OF P' this] show ?thesis using run FailClean held unfolding defs by auto
  next
    case (FailDirty d)
    then have "io_error_kind d \<noteq> NotFoundKind \<or> \<not> honest_faults E"
      unfolding honest_faults_def by blast
    from fault[OF P' this] show ?thesis using run FailDirty held unfolding defs
      by (auto simp: holds_bird_def split: prod.splits)
  qed
qed

text \<open>The section that holds the lock; what is claimed at its ends does not mention it.\<close>

lemma triple_with_bird_lock:
  assumes "\<And>w. P w \<Longrightarrow> P' (w_fs (await E w)) (w_bird_log (await E w))"
    and "triple (on_bird P') m (\<lambda>x. on_bird (Q x)) (\<lambda>e. on_bird (F e))"
  shows "triple P (with_lock E BirdLock m) (\<lambda>x w. Q x (w_fs w) (w_bird_log w)) (\<lambda>e w. F e (w_fs w) (w_bird_log w))"
proof -
  have enter: "on_bird P' (note_lock (Acquired BirdLock) (await E w))" if "P w" for w
    using assms(1)[OF that] by (simp add: on_bird_def holds_bird_def)
  show ?thesis
  proof (rule tripleI)
    fix w x w' assume "P w" "with_lock E BirdLock m w = (Inr x, w')"
    then show "Q x (w_fs w') (w_bird_log w')"
      using triple_Inr[OF assms(2) enter] by (auto simp: with_lock_run on_bird_def)
  next
    fix w e w' assume "P w" "with_lock E BirdLock m w = (Inl e, w')"
    then show "F e (w_fs w') (w_bird_log w')"
      using triple_Inl[OF assms(2) enter] by (auto simp: with_lock_run on_bird_def)
  qed
qed

end
