(* ===== verification/BirdSync.thy ===== *)
theory BirdSync
  imports Bird Triples
begin

text \<open>
  What the synchronisation with BIRD achieves: the \<open>current\<close> link always leads to a complete
  generation of configuration files, a synchronisation that succeeds makes it the generation of the
  wanted peers and BIRD has read it, and one that fails at any call leaves the old or the new one.
\<close>

section \<open>The directory that the service owns\<close>

abbreviation gens :: "path \<Rightarrow> path" where
  "gens root \<equiv> root @ [''generations'']"

abbreviation gen :: "path \<Rightarrow> rstr \<Rightarrow> path" where
  "gen root g \<equiv> root @ [''generations'', g]"

definition links_to :: "path \<Rightarrow> filesystem \<Rightarrow> rstr \<Rightarrow> bool" where
  "links_to root fs t =
     (fs_get fs (root @ [''current'']) = Some (Symlink False [''generations'', t]))"

text \<open>A directory whose \<open>.conf\<close> files are exactly \<open>files\<close>.\<close>

definition gen_serves :: "filesystem \<Rightarrow> path \<Rightarrow> (rstr \<Rightarrow> rstr option) \<Rightarrow> bool" where
  "gen_serves fs d files =
     (fs_get fs d = Some Dir \<and>
      (\<forall>c. ends_with c ''.conf'' \<longrightarrow> fs_get fs (d @ [c]) = map_option File (files c)))"

text \<open>The \<open>current\<close> link leads to a generation with exactly these files.\<close>

definition serves :: "path \<Rightarrow> filesystem \<Rightarrow> (rstr \<Rightarrow> rstr option) \<Rightarrow> bool" where
  "serves root fs files =
     (\<exists>t. links_to root fs t \<and> plain_name t \<and> gen_serves fs (gen root t) files)"

text \<open>
  The layout of the directory: every entry has its parent, there is no link on the way to the
  directory or below \<open>generations\<close>, and \<open>current\<close> is a link into \<open>generations\<close> or missing.
\<close>

definition fs_tree :: "filesystem \<Rightarrow> bool" where
  "fs_tree fs = (\<forall>p. p \<noteq> [] \<and> fs_get fs p \<noteq> None \<longrightarrow> fs_get fs (butlast p) = Some Dir)"

definition bird_layout :: "path \<Rightarrow> filesystem \<Rightarrow> bool" where
  "bird_layout root fs =
     (plain_dir fs root \<and> fs_tree fs \<and> fs_get fs (gens root) \<in> {None, Some Dir} \<and>
      (\<forall>p a t. p \<noteq> [] \<longrightarrow> fs_get fs (root @ ''generations'' # p) \<noteq> Some (Symlink a t)) \<and>
      (fs_get fs (root @ [''current'']) = None \<or> (\<exists>t. links_to root fs t \<and> plain_name t)))"

lemma bird_layoutD:
  assumes "bird_layout root fs"
  shows "plain_dir fs root" "fs_tree fs" "fs_get fs (gens root) = None \<or> fs_get fs (gens root) = Some Dir"
    "p \<noteq> [] \<Longrightarrow> fs_get fs (root @ ''generations'' # p) \<noteq> Some (Symlink a t)"
    "fs_get fs (root @ [''current'']) = Some n \<Longrightarrow>
      \<exists>t. n = Symlink False [''generations'', t] \<and> plain_name t"
  using assms by (auto simp: bird_layout_def links_to_def)

lemma fs_get_tree_removed:
  "fs_get (filter (\<lambda>e. \<not> prefix q (fst e)) fs) x = (if x \<noteq> [] \<and> prefix q x then None else fs_get fs x)"
  using map_of_filter_key[of "\<lambda>k. \<not> prefix q k" fs x] by (auto simp: fs_get_def)

lemma butlast_neq: "p \<noteq> [] \<Longrightarrow> butlast p \<noteq> p"
  by (metis append_butlast_last_id append_self_conv not_Cons_self2)

lemma fs_tree_put:
  assumes "fs_tree fs" "p \<noteq> []" "fs_get fs (butlast p) = Some Dir"
    and "n = Dir \<or> fs_get fs p \<noteq> Some Dir"
  shows "fs_tree (fs_put p n fs)"
  unfolding fs_tree_def
proof (intro allI impI)
  fix q assume q: "q \<noteq> [] \<and> fs_get (fs_put p n fs) q \<noteq> None"
  show "fs_get (fs_put p n fs) (butlast q) = Some Dir"
  proof (cases "q = p")
    case True
    then show ?thesis using assms(2,3) butlast_neq[of p] by (simp add: fs_get_put)
  next
    case False
    with q assms(1) have "fs_get fs (butlast q) = Some Dir"
      by (simp add: fs_get_put fs_tree_def)
    then show ?thesis using assms(4) by (auto simp: fs_get_put)
  qed
qed

lemma fs_tree_del:
  assumes "fs_tree fs" "fs_get fs p \<noteq> Some Dir"
  shows "fs_tree (fs_del p fs)"
  using assms unfolding fs_tree_def fs_get_del by (metis option.distinct(1))

lemma fs_tree_remove: "fs_tree fs \<Longrightarrow> fs_tree (filter (\<lambda>e. \<not> prefix q (fst e)) fs)"
  unfolding fs_tree_def fs_get_tree_removed
  by (metis append_butlast_last_id option.distinct(1) prefix_order.order_trans prefixI)

lemma plain_dir_put: "plain_dir fs r \<Longrightarrow> x \<noteq> [] \<Longrightarrow> plain_dir (fs_put (r @ x) n fs) r"
  unfolding plain_dir_def by (auto simp: fs_get_put prefix_def)

lemma plain_dir_del: "plain_dir fs r \<Longrightarrow> x \<noteq> [] \<Longrightarrow> plain_dir (fs_del (r @ x) fs) r"
  unfolding plain_dir_def by (auto simp: fs_get_del prefix_def)

lemma layout_put:
  assumes L: "bird_layout root fs" and x: "x \<noteq> []"
    and parent: "fs_get fs (butlast (root @ x)) = Some Dir"
    and n: "n = Dir \<or> fs_get fs (root @ x) \<noteq> Some Dir"
    and g: "x = [''generations''] \<Longrightarrow> n = Dir"
    and below: "\<And>y a t. x = ''generations'' # y \<Longrightarrow> n \<noteq> Symlink a t"
    and c: "x = [''current''] \<Longrightarrow> \<exists>t. n = Symlink False [''generations'', t] \<and> plain_name t"
  shows "bird_layout root (fs_put (root @ x) n fs)"
proof -
  have "plain_dir (fs_put (root @ x) n fs) root"
    using plain_dir_put[OF bird_layoutD(1)[OF L] x] .
  moreover have "fs_tree (fs_put (root @ x) n fs)"
    using fs_tree_put[OF bird_layoutD(2)[OF L] _ parent n] x by simp
  moreover have "fs_get (fs_put (root @ x) n fs) (gens root) \<in> {None, Some Dir}"
    using bird_layoutD(3)[OF L] g by (auto simp: fs_get_put)
  moreover have "fs_get (fs_put (root @ x) n fs) (root @ ''generations'' # p) \<noteq> Some (Symlink a t)"
    if "p \<noteq> []" for p a t
    using bird_layoutD(4)[OF L that, of a t] below[of p a t] by (auto simp: fs_get_put)
  moreover have "fs_get (fs_put (root @ x) n fs) (root @ [''current'']) = None \<or>
      (\<exists>t. links_to root (fs_put (root @ x) n fs) t \<and> plain_name t)"
    using L c by (auto simp: fs_get_put links_to_def bird_layout_def)
  ultimately show ?thesis unfolding bird_layout_def by blast
qed

lemma layout_del:
  assumes L: "bird_layout root fs" and x: "x \<noteq> []" and "fs_get fs (root @ x) \<noteq> Some Dir"
  shows "bird_layout root (fs_del (root @ x) fs)"
  using assms plain_dir_del[OF bird_layoutD(1)[OF L] x] fs_tree_del[OF bird_layoutD(2)[OF L] assms(3)]
  unfolding bird_layout_def links_to_def by (auto simp: fs_get_del)

lemma layout_remove:
  assumes L: "bird_layout root fs"
  shows "bird_layout root (filter (\<lambda>e. \<not> prefix (gen root g) (fst e)) fs)"
proof -
  let ?fs = "filter (\<lambda>e. \<not> prefix (gen root g) (fst e)) fs"
  have "plain_dir ?fs root"
    using bird_layoutD(1)[OF L] unfolding plain_dir_def fs_get_tree_removed
    by (auto dest!: prefix_length_le)
  then show ?thesis
    using fs_tree_remove[OF bird_layoutD(2)[OF L]] L
    unfolding bird_layout_def links_to_def fs_get_tree_removed
    by (auto dest: prefix_length_le)
qed


section \<open>The calls in a plain directory\<close>

lemma plain_gens:
  "bird_layout root fs \<Longrightarrow> fs_get fs (gens root) = Some Dir \<Longrightarrow> plain_dir fs (gens root)"
  by (simp add: plain_dir_snoc bird_layoutD(1) plain_name_def)

lemma plain_gen:
  assumes "bird_layout root fs" "fs_get fs (gens root) = Some Dir" "plain_name g"
    "fs_get fs (gen root g) = Some Dir"
  shows "plain_dir fs (gen root g)"
  using plain_dir_snoc[of fs "gens root" g] plain_gens[OF assms(1,2)] assms(3,4) by simp

lemma gens_above:
  assumes "bird_layout root fs" "fs_get fs (gen root g) \<noteq> None"
  shows "fs_get fs (gens root) = Some Dir"
proof -
  have "fs_get fs (butlast (gen root g)) = Some Dir"
    using bird_layoutD(2)[OF assms(1)] assms(2) unfolding fs_tree_def by blast
  then show ?thesis by (simp add: butlast_append)
qed

lemma create_dir_run:
  "plain_dir fs d \<Longrightarrow> create_dir (d @ [c]) fs =
     (if fs_get fs (d @ [c]) = None then (Inr (), fs_put (d @ [c]) Dir fs) else (Inl eexist, fs))"
  by (simp add: create_dir_def new_entry_def locate_plain plain_dir_get)

lemma symlink_run:
  "plain_dir fs d \<Longrightarrow> symlink (a, t) (d @ [c]) fs =
     (if fs_get fs (d @ [c]) = None then (Inr (), fs_put (d @ [c]) (Symlink a t) fs)
      else (Inl eexist, fs))"
  by (simp add: symlink_def new_entry_def locate_plain plain_dir_get)

lemma open_truncate_run:
  "plain_dir fs d \<Longrightarrow> plain_name c \<Longrightarrow> (\<forall>a t. fs_get fs (d @ [c]) \<noteq> Some (Symlink a t)) \<Longrightarrow>
   open_truncate (d @ [c]) fs =
     (if fs_get fs (d @ [c]) = Some Dir then (Inl eisdir, fs)
      else (Inr (), fs_put (d @ [c]) (File []) fs))"
  by (simp add: open_truncate_def resolve_entry plain_dir_get)

lemma write_all_run:
  "plain_dir fs d \<Longrightarrow> plain_name c \<Longrightarrow> fs_get fs (d @ [c]) = Some (File old) \<Longrightarrow>
   write_all (d @ [c]) content fs = (Inr (), fs_put (d @ [c]) (File (old @ content)) fs)"
  by (simp add: write_all_def resolve_entry)

lemma rename_run:
  "plain_dir fs d \<Longrightarrow> fs_get fs (d @ [a]) = Some n \<Longrightarrow> n \<noteq> Dir \<Longrightarrow>
   rename (d @ [a]) (d @ [b]) fs =
     (if fs_get fs (d @ [b]) = Some Dir then (Inl eisdir, fs)
      else (Inr (), fs_put (d @ [b]) n (fs_del (d @ [a]) fs)))"
  by (simp add: rename_def look_def locate_plain plain_dir_get)

lemma remove_file_run:
  "plain_dir fs d \<Longrightarrow> snd (remove_file (d @ [c]) fs) =
     (if fs_get fs (d @ [c]) \<in> {None, Some Dir} then fs else fs_del (d @ [c]) fs)"
  by (auto simp: remove_file_def look_def locate_plain split: option.split)

lemma remove_dir_all_run:
  "plain_dir fs d \<Longrightarrow> snd (remove_dir_all (d @ [c]) fs) =
     (if fs_get fs (d @ [c]) = Some Dir then filter (\<lambda>e. \<not> prefix (d @ [c]) (fst e)) fs else fs)"
  by (auto simp: remove_dir_all_def look_def locate_plain split: option.split node.split)

lemma calls_that_only_look [simp]:
  "snd (symlink_metadata p fs) = fs" "snd (metadata p fs) = fs" "snd (read_link p fs) = fs"
  "snd (read_dir p fs) = fs" "snd (read_file p fs) = fs" "snd (open_existing p fs) = fs"
  "snd (fs_touch fs) = fs"
  by (auto simp: symlink_metadata_def metadata_def read_link_def read_dir_def read_file_def
      open_existing_def fs_touch_def split: sum.split prod.split node.split)

section \<open>A generation that stays in place\<close>

text \<open>The layout, and a generation (when one is named) that \<open>current\<close> leads to.\<close>

definition kept :: "path \<Rightarrow> (rstr \<times> (rstr \<Rightarrow> rstr option)) option \<Rightarrow> filesystem \<Rightarrow> bool" where
  "kept root old fs =
     (bird_layout root fs \<and>
      (case old of
         None \<Rightarrow> True
       | Some (t, files) \<Rightarrow> links_to root fs t \<and> plain_name t \<and> gen_serves fs (gen root t) files))"

lemma kept_put:
  assumes K: "kept root old fs" and x: "x \<noteq> []" "x \<noteq> [''current'']"
    and parent: "fs_get fs (butlast (root @ x)) = Some Dir"
    and n: "n = Dir \<or> fs_get fs (root @ x) \<noteq> Some Dir"
    and g: "x = [''generations''] \<Longrightarrow> n = Dir"
    and below: "\<And>y a t. x = ''generations'' # y \<Longrightarrow> n \<noteq> Symlink a t"
    and other: "\<And>t files. old = Some (t, files) \<Longrightarrow>
      (x = [''generations'', t] \<longrightarrow> n = Dir) \<and> (\<forall>c. x \<noteq> [''generations'', t, c])"
  shows "kept root old (fs_put (root @ x) n fs)"
proof -
  have "bird_layout root (fs_put (root @ x) n fs)"
    using K x by (intro layout_put parent n g below) (simp_all add: kept_def)
  moreover have "links_to root (fs_put (root @ x) n fs) t \<and> gen_serves (fs_put (root @ x) n fs) (gen root t) files"
    if "old = Some (t, files)" for t files
    using K other[OF that] that x
    by (auto simp: kept_def links_to_def gen_serves_def fs_get_put)
  ultimately show ?thesis using K by (auto simp: kept_def split: option.splits)
qed

lemma kept_del:
  assumes K: "kept root old fs" and x: "x \<noteq> []" "x \<noteq> [''current'']"
    and n: "fs_get fs (root @ x) \<noteq> Some Dir"
    and other: "\<And>t files c. old = Some (t, files) \<Longrightarrow> x \<noteq> [''generations'', t, c]"
  shows "kept root old (fs_del (root @ x) fs)"
proof -
  have "bird_layout root (fs_del (root @ x) fs)"
    using K x n by (intro layout_del) (simp_all add: kept_def)
  moreover have "links_to root (fs_del (root @ x) fs) t \<and> gen_serves (fs_del (root @ x) fs) (gen root t) files"
    if "old = Some (t, files)" for t files
    using K other[OF that] that x n
    by (auto simp: kept_def links_to_def gen_serves_def fs_get_del)
  ultimately show ?thesis using K by (auto simp: kept_def split: option.splits)
qed

lemma kept_layout: "kept root old fs \<Longrightarrow> bird_layout root fs"
  by (simp add: kept_def)



section \<open>The switch of the link\<close>

abbreviation bst :: "(filesystem \<Rightarrow> bool) \<Rightarrow> node option list \<Rightarrow> world \<Rightarrow> bool" where
  "bst P l0 \<equiv> on_bird (\<lambda>fs l. P fs \<and> l = l0)"

lemma fs_step:
  assumes "respects_bird_lock E" "\<And>fs x fs'. P fs \<Longrightarrow> q fs = (Inr x, fs') \<Longrightarrow> Q x fs'"
    and "\<And>fs. P fs \<Longrightarrow> J fs \<and> J (snd (q fs))"
  shows "triple (bst P l0) (fs_io E p q) (\<lambda>x. bst (Q x) l0) (\<lambda>e. bst J l0)"
proof (rule triple_fs_io[OF assms(1)])
  fix fs l e fs' assume P: "P fs \<and> l = l0" and q: "q fs = (Inl e, fs')"
  from assms(3)[of fs] P q show "J fs' \<and> l = l0" by simp
qed (use assms(2,3) in blast)+

lemma triple_read_nanos [triple_rules]: "(\<And>n w. P w \<Longrightarrow> Q n w) \<Longrightarrow> triple P (read_nanos E) Q F"
  by (simp add: triple_def read_nanos_def)

lemma triple_look:
  assumes "respects_bird_lock E" "\<And>fs. snd (q fs) = fs" "\<And>fs. P fs \<Longrightarrow> J fs"
  shows "triple (bst P l0) (fs_io E p q) (\<lambda>_. bst P l0) (\<lambda>e. bst J l0)"
proof (rule fs_step[OF assms(1)])
  fix fs x fs' assume "P fs" "q fs = (Inr x, fs')"
  with assms(2)[of fs] show "P fs'" by simp
qed (simp add: assms(2,3))

lemma triple_sync_directory:
  assumes "respects_bird_lock E" "\<And>fs. P fs \<Longrightarrow> J fs"
  shows "triple (bst P l0) (sync_directory E p) (\<lambda>_. bst P l0) (\<lambda>e. bst J l0)"
  unfolding sync_directory_def
  by (rule triple_and_then[OF triple_look[OF assms(1)] triple_look[OF assms(1)]])
    (simp_all add: assms(2))

definition under_gens :: "path \<Rightarrow> filesystem \<Rightarrow> path \<Rightarrow> node option" where
  "under_gens root fs x = fs_get fs (root @ ''generations'' # x)"

lemma gen_serves_under:
  "gen_serves fs (gen root t) files =
     (under_gens root fs [t] = Some Dir \<and>
      (\<forall>c. ends_with c ''.conf'' \<longrightarrow> under_gens root fs [t, c] = map_option File (files c)))"
  by (simp add: gen_serves_def under_gens_def)

definition switching :: "path \<Rightarrow> (path \<Rightarrow> node option) \<Rightarrow> node option set \<Rightarrow> filesystem \<Rightarrow> bool" where
  "switching root U nodes fs =
     (bird_layout root fs \<and> under_gens root fs = U \<and> fs_get fs (root @ [''current'']) \<in> nodes)"

lemma switching_put:
  assumes "switching root U nodes fs" "c \<noteq> ''generations''" "c \<noteq> ''current''"
    "fs_get fs (root @ [c]) \<noteq> Some Dir"
  shows "switching root U nodes (fs_put (root @ [c]) n fs)"
proof -
  have "bird_layout root (fs_put (root @ [c]) n fs)"
    using assms by (intro layout_put)
      (simp_all add: switching_def butlast_append plain_dir_get[OF bird_layoutD(1)])
  then show ?thesis using assms by (simp add: switching_def under_gens_def fs_get_put fun_eq_iff)
qed

lemma switching_del:
  assumes "switching root U nodes fs" "c \<noteq> ''generations''" "c \<noteq> ''current''"
    "fs_get fs (root @ [c]) \<noteq> Some Dir"
  shows "switching root U nodes (fs_del (root @ [c]) fs)"
  using assms layout_del[of root fs "[c]"]
  by (simp add: switching_def under_gens_def fs_get_del fun_eq_iff)

lemma switching_link:
  assumes "switching root U nodes fs" "plain_name g"
  shows "switching root U {Some (Symlink False [''generations'', g])}
    (fs_put (root @ [''current'']) (Symlink False [''generations'', g]) fs)"
proof -
  have L: "bird_layout root fs" using assms(1) by (simp add: switching_def)
  have "fs_get fs (root @ [''current'']) \<noteq> Some Dir" using bird_layoutD(5)[OF L] by auto
  then have "bird_layout root (fs_put (root @ [''current'']) (Symlink False [''generations'', g]) fs)"
    using assms(2) by (intro layout_put L)
      (simp_all add: butlast_append plain_dir_get[OF bird_layoutD(1)[OF L]])
  then show ?thesis using assms by (simp add: switching_def under_gens_def fs_get_put fun_eq_iff)
qed

lemma remove_temporary:
  assumes "respects_bird_lock E" "c \<noteq> ''generations''" "c \<noteq> ''current''"
  shows "triple (bst (switching root U nodes) l0)
    (attempt (fs_io E (root @ [c]) (remove_file (root @ [c])))) (\<lambda>_. bst (switching root U nodes) l0) F"
proof (rule triple_attempt, rule fs_step[OF assms(1)])
  fix fs assume S: "switching root U nodes fs"
  then have "plain_dir fs root" by (simp add: switching_def bird_layoutD(1))
  from remove_file_run[OF this, of c]
  show "switching root U nodes fs \<and> switching root U nodes (snd (remove_file (root @ [c]) fs))"
    using S switching_del[OF S assms(2,3)] by auto
  fix x fs' assume "remove_file (root @ [c]) fs = (Inr x, fs')"
  with \<open>switching root U nodes fs \<and> switching root U nodes (snd (remove_file (root @ [c]) fs))\<close>
  show "switching root U nodes fs'" by simp
qed

lemma switching_more: "switching root U nodes fs \<Longrightarrow> nodes \<subseteq> nodes' \<Longrightarrow> switching root U nodes' fs"
  by (auto simp: switching_def)

text \<open>The link under its temporary name \<open>c\<close>, and its renaming.\<close>

lemma temporary_link:
  assumes "respects_bird_lock E" "c \<noteq> ''generations''" "c \<noteq> ''current''"
  shows "triple (bst (switching root U nodes) l0)
    (fs_io E (root @ [c]) (symlink (False, t) (root @ [c])))
    (\<lambda>_. bst (\<lambda>fs. switching root U nodes fs \<and> fs_get fs (root @ [c]) = Some (Symlink False t)) l0)
    (\<lambda>e. bst (switching root U nodes) l0)"
proof (rule fs_step[OF assms(1)])
  fix fs assume S: "switching root U nodes fs"
  let ?fs = "fs_put (root @ [c]) (Symlink False t) fs"
  have run: "symlink (False, t) (root @ [c]) fs =
      (if fs_get fs (root @ [c]) = None then (Inr (), ?fs) else (Inl eexist, fs))"
    using symlink_run[of fs root] S by (simp add: switching_def bird_layoutD(1))
  have put: "fs_get fs (root @ [c]) = None \<Longrightarrow>
      switching root U nodes ?fs \<and> fs_get ?fs (root @ [c]) = Some (Symlink False t)"
    using switching_put[OF S assms(2,3)] by (simp add: fs_get_put)
  then show "switching root U nodes fs \<and> switching root U nodes (snd (symlink (False, t) (root @ [c]) fs))"
    using S by (simp add: run)
  fix x fs' assume "symlink (False, t) (root @ [c]) fs = (Inr x, fs')"
  then show "switching root U nodes fs' \<and> fs_get fs' (root @ [c]) = Some (Symlink False t)"
    using put by (simp add: run split: if_splits)
qed

lemma rename_link:
  assumes "respects_bird_lock E" "c \<noteq> ''generations''" "c \<noteq> ''current''" "plain_name g"
  defines "link \<equiv> Symlink False [''generations'', g]"
  shows "triple (bst (\<lambda>fs. switching root U nodes fs \<and> fs_get fs (root @ [c]) = Some link) l0)
    (fs_io E (root @ [''current'']) (rename (root @ [c]) (root @ [''current''])))
    (\<lambda>_. bst (switching root U {Some link}) l0) (\<lambda>e. bst (switching root U (insert (Some link) nodes)) l0)"
proof (rule fs_step[OF assms(1)])
  fix fs assume M: "switching root U nodes fs \<and> fs_get fs (root @ [c]) = Some link"
  let ?fs = "fs_put (root @ [''current'']) link (fs_del (root @ [c]) fs)"
  have L: "bird_layout root fs" using M by (simp add: switching_def)
  then have "fs_get fs (root @ [''current'']) \<noteq> Some Dir" using bird_layoutD(5) by fastforce
  then have run: "rename (root @ [c]) (root @ [''current'']) fs = (Inr (), ?fs)"
    using rename_run[OF bird_layoutD(1)[OF L], of c link] M by (simp add: link_def)
  have "switching root U nodes (fs_del (root @ [c]) fs)"
    using M assms(2,3) by (intro switching_del) (simp_all add: link_def)
  from switching_link[OF this assms(4)] have S: "switching root U {Some link} ?fs"
    by (simp add: link_def)
  show "switching root U (insert (Some link) nodes) fs
      \<and> switching root U (insert (Some link) nodes) (snd (rename (root @ [c]) (root @ [''current'']) fs))"
    using switching_more[OF conjunct1[OF M]] switching_more[OF S] by (simp add: run subset_insertI)
  fix x fs' assume "rename (root @ [c]) (root @ [''current'']) fs = (Inr x, fs')"
  then show "switching root U {Some link} fs'" using S by (simp add: run)
qed

lemma triple_switch:
  assumes "respects_bird_lock E" "plain_name g"
  defines "link \<equiv> Symlink False [''generations'', g]"
  shows "triple (bst (switching root U nodes) l0)
    (atomic_switch_current E root (False, [''generations'', g]))
    (\<lambda>_. bst (switching root U {Some link}) l0) (\<lambda>e. bst (switching root U (insert (Some link) nodes)) l0)"
proof -
  let ?J = "switching root U (insert (Some link) nodes)"
  have J: "switching root U nodes fs \<Longrightarrow> ?J fs" "switching root U {Some link} fs \<Longrightarrow> ?J fs" for fs
    by (auto elim!: switching_more)
  have body: "triple (bst (switching root U nodes) l0)
      (and_then (fs_io E (root @ [c]) (symlink (False, [''generations'', g]) (root @ [c]))) (\<lambda>_.
       and_then (attempt (fs_io E (root @ [''current'']) (rename (root @ [c]) (root @ [''current''])))) (\<lambda>r.
       case r of
         Inl e \<Rightarrow> and_then (attempt (fs_io E (root @ [c]) (remove_file (root @ [c])))) (\<lambda>_. throw e)
       | Inr _ \<Rightarrow> sync_directory E root)))
      (\<lambda>_. bst (switching root U {Some link}) l0) (\<lambda>e. bst ?J l0)"
    if c: "c \<noteq> ''generations''" "c \<noteq> ''current''" for c
  proof (rule triple_and_then)
    show "triple (bst (switching root U nodes) l0)
        (fs_io E (root @ [c]) (symlink (False, [''generations'', g]) (root @ [c])))
        (\<lambda>_. bst (\<lambda>fs. switching root U nodes fs \<and> fs_get fs (root @ [c]) = Some link) l0) (\<lambda>e. bst ?J l0)"
      using J(1) unfolding link_def
      by (intro triple_weaken[OF temporary_link[OF assms(1) c, of root U nodes l0]]) (simp_all add: on_bird_def)
    let ?R = "\<lambda>r :: peer_error + unit. bst (case r of Inl e \<Rightarrow> ?J | Inr _ \<Rightarrow> switching root U {Some link}) l0"
    have ren: "triple (bst (\<lambda>fs. switching root U nodes fs \<and> fs_get fs (root @ [c]) = Some link) l0)
        (attempt (fs_io E (root @ [''current'']) (rename (root @ [c]) (root @ [''current''])))) ?R (\<lambda>e. bst ?J l0)"
      using rename_link[OF assms(1) c assms(2)] by (intro triple_attempt) (simp add: link_def)
    have rest: "triple (?R r)
        (case r of
           Inl e \<Rightarrow> and_then (attempt (fs_io E (root @ [c]) (remove_file (root @ [c])))) (\<lambda>_. throw e)
         | Inr _ \<Rightarrow> sync_directory E root)
        (\<lambda>_. bst (switching root U {Some link}) l0) (\<lambda>e. bst ?J l0)" for r
    proof (cases r)
      case (Inl e)
      have "triple (bst ?J l0)
          (and_then (attempt (fs_io E (root @ [c]) (remove_file (root @ [c])))) (\<lambda>_. throw e))
          (\<lambda>_. bst (switching root U {Some link}) l0) (\<lambda>e. bst ?J l0)"
        by (rule triple_and_then[OF remove_temporary[OF assms(1) c]]) (simp add: triple_throw)
      with Inl show ?thesis by simp
    next
      case (Inr u)
      then show ?thesis using triple_sync_directory[OF assms(1)] J by simp
    qed
    show "triple (bst (\<lambda>fs. switching root U nodes fs \<and> fs_get fs (root @ [c]) = Some link) l0)
       (and_then (attempt (fs_io E (root @ [''current'']) (rename (root @ [c]) (root @ [''current''])))) (\<lambda>r.
       case r of
         Inl e \<Rightarrow> and_then (attempt (fs_io E (root @ [c]) (remove_file (root @ [c])))) (\<lambda>_. throw e)
       | Inr _ \<Rightarrow> sync_directory E root))
      (\<lambda>_. bst (switching root U {Some link}) l0) (\<lambda>e. bst ?J l0)" for x :: unit
      by (rule triple_and_then[OF ren rest])
  qed
  show ?thesis unfolding atomic_switch_current_def Let_def
    by (rule triple_and_then[OF triple_read_nanos body]) simp_all
qed


section \<open>The layout\<close>

definition ready :: "path \<Rightarrow> (rstr \<times> (rstr \<Rightarrow> rstr option)) option \<Rightarrow> filesystem \<Rightarrow> bool" where
  "ready root old fs = (kept root old fs \<and> fs_get fs (gens root) = Some Dir)"

lemma readyD:
  assumes "ready root old fs"
  shows "kept root old fs" "bird_layout root fs" "plain_dir fs root" "plain_dir fs (gens root)"
    "fs_get fs (gens root) = Some Dir"
  using assms plain_gens[of root fs] by (simp_all add: ready_def kept_def bird_layoutD(1))

lemma make_dirs_skip:
  "(\<And>p. p \<in> set ps \<Longrightarrow> plain_dir fs p) \<Longrightarrow> make_dirs (ps @ qs) fs = make_dirs qs fs"
  by (induction ps) (simp_all add: resolve_plain plain_dir_get)

lemma create_dir_all_run:
  assumes "plain_dir fs root"
  shows "create_dir_all (root @ [a, b]) fs = make_dirs [root @ [a], root @ [a, b]] fs"
proof -
  have "plain_dir fs p" if "p \<in> set (tl (prefixes root))" for p
  proof -
    have p: "prefix p root" using list.set_sel(2)[of "prefixes root" p] that by simp
    then have "list_all plain_name p" "\<forall>q\<in>set (prefixes p). fs_get fs q = Some Dir"
      using assms by (auto simp: plain_dir_def list_all_iff dest: set_mono_prefix prefix_order.trans)
    then show ?thesis by (simp add: plain_dir_def)
  qed
  moreover have "prefixes (root @ [a, b]) = prefixes root @ [root @ [a], root @ [a, b]]"
    using prefixes_snoc[of "root @ [a]" b] by simp
  ultimately show ?thesis
    unfolding create_dir_all_def by (simp add: make_dirs_skip)
qed

lemma create_layout:
  assumes K: "kept root old fs"
  shows "kept root old (snd (create_dir_all (root @ [''generations'', ''empty'']) fs))"
    and "create_dir_all (root @ [''generations'', ''empty'']) fs = (Inr u, fs') \<Longrightarrow> ready root old fs'"
proof -
  have L: "bird_layout root fs" using K by (simp add: kept_def)
  define fs1 where "fs1 = (if fs_get fs (gens root) = None then fs_put (gens root) Dir fs else fs)"
  have r: "resolve fs (gens root) = Some (gens root)"
    using bird_layoutD(3)[OF L] by (intro resolve_entry bird_layoutD(1)[OF L]) (auto simp: plain_name_def)
  have R1: "ready root old fs1"
  proof (cases "fs_get fs (gens root) = None")
    case True
    then have "kept root old (fs_put (gens root) Dir fs)"
      by (intro kept_put[OF K])
        (simp_all add: butlast_append plain_dir_get[OF bird_layoutD(1)[OF L]])
    with True show ?thesis by (simp add: ready_def fs1_def fs_get_put)
  next
    case False
    then show ?thesis using K bird_layoutD(3)[OF L] by (auto simp: ready_def fs1_def)
  qed
  have e: "resolve fs1 (gen root ''empty'') = Some (gen root ''empty'')"
    using resolve_entry[OF readyD(4)[OF R1], of "''empty''"] bird_layoutD(4)[OF readyD(2)[OF R1]]
    by (simp add: plain_name_def)
  have run: "create_dir_all (gen root ''empty'') fs = make_dirs [gen root ''empty''] fs1"
    unfolding create_dir_all_run[OF bird_layoutD(1)[OF L]]
    using bird_layoutD(3)[OF L] by (auto simp: r fs1_def)
  have put: "ready root old (fs_put (gen root ''empty'') Dir fs1)" if "fs_get fs1 (gen root ''empty'') = None"
  proof -
    have "kept root old (fs_put (root @ [''generations'', ''empty'']) Dir fs1)"
      using that R1 by (intro kept_put readyD(1)) (simp_all add: butlast_append readyD(5))
    then show ?thesis by (simp add: ready_def fs_get_put readyD(5)[OF R1])
  qed
  show "kept root old (snd (create_dir_all (gen root ''empty'') fs))"
    using readyD(1)[OF R1] readyD(1)[OF put] by (simp add: run e split: option.split node.split)
  show "create_dir_all (gen root ''empty'') fs = (Inr u, fs') \<Longrightarrow> ready root old fs'"
    using R1 put by (auto simp: run e split: option.splits node.splits)
qed

lemma symlink_metadata_current:
  "links_to root fs t \<Longrightarrow> plain_dir fs root \<Longrightarrow>
   symlink_metadata (root @ [''current'']) fs = (Inr (Symlink False [''generations'', t]), fs)"
  by (simp add: symlink_metadata_def look_def locate_plain links_to_def)

lemma triple_ensure_bird_layout:
  assumes "respects_bird_lock E" "old = None \<or> honest_faults E"
  shows "triple (bst (kept (bird_conf_dir m) old) l0) (ensure_bird_layout E m)
    (\<lambda>_. bst (ready (bird_conf_dir m) old) l0) (\<lambda>e. bst (kept (bird_conf_dir m) old) l0)"
proof -
  let ?root = "bird_conf_dir m" and ?empty = "bird_conf_dir m @ [''generations'', ''empty'']"
  let ?K = "kept ?root old" and ?R = "ready ?root old"
  have RK: "?R fs \<Longrightarrow> ?K fs" for fs by (rule readyD(1))
  have 1: "triple (bst ?K l0) (fs_io E ?empty (create_dir_all ?empty)) (\<lambda>_. bst ?R l0) (\<lambda>e. bst ?K l0)"
    by (rule fs_step[OF assms(1)]) (auto simp: create_layout)
  let ?M = "\<lambda>r. on_bird (\<lambda>fs l. ?R fs \<and> l = l0 \<and>
      (case r of Inl e \<Rightarrow> not_found_io e \<longrightarrow> old = None | Inr n \<Rightarrow> True))"
  have 2: "triple (bst ?R l0)
      (attempt (fs_io E (?root @ [''current'']) (symlink_metadata (?root @ [''current'']))))
      ?M (\<lambda>e. bst ?K l0)"
  proof (rule triple_attempt, rule triple_weaken[OF triple_fs_io[OF assms(1), where
          P = "\<lambda>fs l. ?R fs \<and> l = l0" and Q = "\<lambda>x fs l. ?R fs \<and> l = l0" and
          F = "\<lambda>e fs l. ?R fs \<and> l = l0 \<and> (not_found_io e \<longrightarrow> old = None)"]])
    fix fs l e fs' assume P: "?R fs \<and> l = l0"
      and run: "symlink_metadata (?root @ [''current'']) fs = (Inl e, fs')"
    have "old = None"
    proof (rule ccontr)
      assume "old \<noteq> None"
      then obtain t where "links_to ?root fs t"
        using P by (auto simp: ready_def kept_def split: option.splits)
      from symlink_metadata_current[OF this readyD(3)] P run show False by auto
    qed
    moreover have "fs' = fs" using calls_that_only_look(1)[of "?root @ [''current'']" fs] run by simp
    ultimately show "?R fs' \<and> l = l0 \<and> (not_found_io (BirdConfigIo e (show_path (?root @ [''current'']))) \<longrightarrow> old = None)"
      using P by simp
  next
    fix fs l x fs' assume P: "?R fs \<and> l = l0"
      and run: "symlink_metadata (?root @ [''current'']) fs = (Inr x, fs')"
    have "fs' = fs" using calls_that_only_look(1)[of "?root @ [''current'']" fs] run by simp
    with P show "?R fs' \<and> l = l0" by simp
  qed (use assms(2) in \<open>auto simp: not_found_io_def on_bird_def\<close>)
  have sw: "triple (bst ?R l0) (switch_current E m (False, [''generations'', ''empty'']))
      (\<lambda>_. bst ?R l0) (\<lambda>e. bst ?K l0)" if "old = None"
  proof (rule triple_pre)
    fix w assume R: "bst ?R l0 w"
    let ?U = "under_gens ?root (w_fs w)"
    have U: "?U [] = Some Dir" using R readyD(5) unfolding on_bird_def under_gens_def by blast
    have out: "?R fs" if "switching ?root ?U ns fs" for fs ns
    proof -
      have "under_gens ?root fs [] = ?U []" using that unfolding switching_def by metis
      then show ?thesis
        using that U \<open>old = None\<close> by (simp add: switching_def ready_def kept_def under_gens_def)
    qed
    have pre: "switching ?root ?U UNIV (w_fs w)" 
      using R readyD(2) unfolding on_bird_def switching_def by blast
    have "plain_name ''empty''" by (simp add: plain_name_def)
    from triple_switch[OF assms(1) this, of ?root ?U UNIV l0]
    show "triple (\<lambda>v. v = w) (switch_current E m (False, [''generations'', ''empty'']))
      (\<lambda>_. bst ?R l0) (\<lambda>e. bst ?K l0)"
      unfolding switch_current_def
      by (rule triple_weaken) (use R pre out RK[OF out] in \<open>auto simp: on_bird_def\<close>)
  qed
  have 3: "triple (?M r)
      (case r of
        Inr _ \<Rightarrow> ret ()
      | Inl e \<Rightarrow>
          if not_found_io e then switch_current E m (False, [''generations'', ''empty''])
          else throw e) (\<lambda>_. bst ?R l0) (\<lambda>e. bst ?K l0)" for r :: "peer_error + node"
  proof (cases r)
    case (Inl e)
    show ?thesis
    proof (cases "not_found_io e \<and> old = None")
      case True
      with Inl show ?thesis using sw by simp
    next
      case False
      then show ?thesis using Inl RK by (auto simp: triple_def on_bird_def)
    qed
  qed (simp add: triple_def on_bird_def)
  show ?thesis
    unfolding ensure_bird_layout_def Let_def generations_path_def current_path_def
    using triple_and_then[OF 1 triple_and_then[OF 2 3]] by simp
qed



section \<open>The comparison with the current generation\<close>

lemma children_iff: "c \<in> set (children fs d) \<longleftrightarrow> fs_get fs (d @ [c]) \<noteq> None"
proof -
  have "c \<in> set (children fs d) \<longleftrightarrow> d @ [c] \<in> fst ` set fs"
  proof
    assume "c \<in> set (children fs d)"
    then obtain p n where "(p, n) \<in> set fs" "p \<noteq> []" "butlast p = d" "c = last p"
      by (auto simp: children_def)
    moreover from this have "p = d @ [c]" by (metis append_butlast_last_id)
    ultimately show "d @ [c] \<in> fst ` set fs" by force
  next
    assume "d @ [c] \<in> fst ` set fs"
    then show "c \<in> set (children fs d)" by (force simp: children_def image_iff)
  qed
  also have "\<dots> \<longleftrightarrow> map_of fs (d @ [c]) \<noteq> None"
    by (simp add: map_of_eq_None_iff)
  finally show ?thesis by (simp add: fs_get_def)
qed

lemma map_of_bt_insert [simp]: "map_of (bt_insert k v m) = (map_of m)(k \<mapsto> v)"
  by (induction m rule: bt_insert.induct) auto

lemma resolve_current:
  assumes L: "bird_layout root fs" and G: "fs_get fs (gens root) = Some Dir"
    and t: "links_to root fs t" "plain_name t"
  shows "resolve fs (root @ [''current'']) = Some (gen root t)"
    and "fs_get fs (gen root t) = Some Dir \<Longrightarrow> plain_name c \<Longrightarrow>
      resolve fs (root @ [''current'', c]) = Some (gen root t @ [c])"
proof -
  have no_link: "fs_get fs (root @ ''generations'' # p) \<noteq> Some (Symlink a s)" if "p \<noteq> []" for p a s
    using bird_layoutD(4)[OF L that] .
  have "walk 40 fs [] (root @ ''current'' # todo) = walk 39 fs root (''generations'' # t # todo)" for todo
    using walk_plain[of fs "[]" root 40 "''current'' # todo"] bird_layoutD(1)[OF L] t(1)
    by (simp add: links_to_def eval_nat_numeral)
  also have "walk 39 fs root (''generations'' # t # todo) = walk 39 fs (gens root) (t # todo)" for todo
    using walk_plain[of fs root "[''generations'']" 39 "t # todo"] plain_gens[OF L G] by simp
  also have "walk 39 fs (gens root) (t # todo) = walk 39 fs (gen root t) todo" for todo
    using no_link[of "[t]"] t(2) by (auto simp: plain_name_def split: option.split node.split)
  finally have step: "walk 40 fs [] (root @ ''current'' # todo) = walk 39 fs (gen root t) todo" for todo .
  show "resolve fs (root @ [''current'']) = Some (gen root t)"
    using step[of "[]"] by (simp add: resolve_def)
  show "resolve fs (root @ [''current'', c]) = Some (gen root t @ [c])" if "plain_name c"
    using step[of "[c]"] no_link[of "[t, c]"] that
    by (auto simp: resolve_def plain_name_def split: option.split node.split)
qed

lemma conf_plain: "ends_with c ''.conf'' \<Longrightarrow> plain_name c"
  by (auto simp: ends_with_def plain_name_def suffix_def)

lemma collected_one_more:
  assumes "\<forall>c. if c \<in> set names \<and> P c then g c = map_option File (a c)
      else a c = (acc(name \<mapsto> x)) c" "P name" "g name = Some (File x)"
  shows "\<forall>c. if c \<in> set (name # names) \<and> P c then g c = map_option File (a c) else a c = acc c"
proof
  fix c
  show "if c \<in> set (name # names) \<and> P c then g c = map_option File (a c) else a c = acc c"
    using spec[OF assms(1), of c] assms(2,3) by (cases "c = name") (auto split: if_splits)
qed

lemma triple_collect_generation:
  assumes "respects_bird_lock E" and L: "bird_layout root fs0" "fs_get fs0 (gens root) = Some Dir"
    and t: "links_to root fs0 t" "plain_name t" "fs_get fs0 (gen root t) = Some Dir"
  shows "triple (bst (\<lambda>fs. fs = fs0) l0)
    (collect_generation E (root @ [''current'']) names acc)
    (\<lambda>actual. on_bird (\<lambda>fs l. fs = fs0 \<and> l = l0 \<and> (\<forall>c.
       if c \<in> set names \<and> ends_with c ''.conf''
       then fs_get fs0 (gen root t @ [c]) = map_option File (map_of actual c)
       else map_of actual c = map_of acc c)))
    (\<lambda>e. bst (\<lambda>fs. fs = fs0) l0)"
proof (induction names arbitrary: acc)
  case Nil
  show ?case unfolding collect_generation.simps
    by (rule triple_and_then[OF triple_look[OF assms(1)]]) (simp_all add: triple_def on_bird_def)
next
  case (Cons name names)
  show ?case
  proof (cases "ends_with name ''.conf''")
    case False
    have touch: "triple (bst (\<lambda>fs. fs = fs0) l0) (fs_io E (root @ [''current'']) fs_touch)
        (\<lambda>_. bst (\<lambda>fs. fs = fs0) l0) (\<lambda>e. bst (\<lambda>fs. fs = fs0) l0)"
      by (rule triple_look[OF assms(1)]) simp_all
    have skip: "collect_generation E (root @ [''current'']) (name # names) acc =
        and_then (fs_io E (root @ [''current'']) fs_touch)
          (\<lambda>_. collect_generation E (root @ [''current'']) names acc)"
      using False by simp
    show ?thesis
      unfolding skip by (rule triple_weaken[OF triple_and_then[OF touch Cons.IH[of acc]]])
        (use False in \<open>auto simp: on_bird_def split: if_splits\<close>)
  next
    case True
    let ?p = "(root @ [''current'']) @ [name]"
    have 1: "triple (bst (\<lambda>fs. fs = fs0) l0) (fs_io E (root @ [''current'']) fs_touch)
        (\<lambda>_. bst (\<lambda>fs. fs = fs0) l0) (\<lambda>e. bst (\<lambda>fs. fs = fs0) l0)"
      by (rule triple_look[OF assms(1)]) simp_all
    have 2: "triple (bst (\<lambda>fs. fs = fs0) l0) (fs_io E ?p (read_file ?p))
        (\<lambda>x. bst (\<lambda>fs. fs = fs0 \<and> fs_get fs0 (gen root t @ [name]) = Some (File x)) l0)
        (\<lambda>e. bst (\<lambda>fs. fs = fs0) l0)"
    proof (rule fs_step[OF assms(1)])
      fix fs x fs' assume "fs = fs0" "read_file ?p fs = (Inr x, fs')"
      then show "fs' = fs0 \<and> fs_get fs0 (gen root t @ [name]) = Some (File x)"
        using resolve_current(2)[OF L t(1,2,3) conf_plain[OF True]]
        by (auto simp: read_file_def look_def split: option.splits node.splits)
    qed simp
    have 3: "triple (bst (\<lambda>fs. fs = fs0 \<and> fs_get fs0 (gen root t @ [name]) = Some (File x)) l0)
        (collect_generation E (root @ [''current'']) names (bt_insert name x acc))
        (\<lambda>actual. on_bird (\<lambda>fs l. fs = fs0 \<and> l = l0 \<and> (\<forall>c.
          if c \<in> set (name # names) \<and> ends_with c ''.conf''
          then fs_get fs0 (gen root t @ [c]) = map_option File (map_of actual c)
          else map_of actual c = map_of acc c)))
        (\<lambda>e. bst (\<lambda>fs. fs = fs0) l0)" for x
    proof (cases "fs_get fs0 (gen root t @ [name]) = Some (File x)")
      case present: True
      note step = collected_one_more[where P = "\<lambda>c. ends_with c ''.conf''" and
          g = "\<lambda>c. fs_get fs0 (gen root t @ [c])", OF _ True present]
      show ?thesis
        by (rule triple_weaken[OF Cons.IH[of "bt_insert name x acc"]], simp add: on_bird_def,
            unfold on_bird_def map_of_bt_insert, use step in blast, blast)
    qed (rule triple_false, simp add: on_bird_def)
    show ?thesis
      unfolding collect_generation.simps using True triple_and_then[OF 1 triple_and_then[OF 2 3]] by simp
  qed
qed

lemma triple_generation_matches:
  assumes "respects_bird_lock E"
  shows "triple (bst (ready (bird_conf_dir m) old) l0) (current_generation_matches E m desired)
    (\<lambda>same. bst (\<lambda>fs. ready (bird_conf_dir m) old fs \<and>
       (same \<longrightarrow> serves (bird_conf_dir m) fs (map_of desired))) l0)
    (\<lambda>e. bst (kept (bird_conf_dir m) old) l0)"
proof (rule triple_pre)
  let ?root = "bird_conf_dir m" and ?cur = "bird_conf_dir m @ [''current'']"
  let ?K = "\<lambda>e :: peer_error. bst (kept ?root old) l0"
  let ?Q = "\<lambda>same. bst (\<lambda>fs. ready ?root old fs \<and> (same \<longrightarrow> serves ?root fs (map_of desired))) l0"
  fix w assume w: "bst (ready ?root old) l0 w"
  define fs0 where "fs0 = w_fs w"
  have R: "ready ?root old fs0" using w by (simp add: on_bird_def fs0_def)
  have weak: "bst (\<lambda>fs. fs = fs0) l0 v \<Longrightarrow> bst (kept ?root old) l0 v" for v
    using readyD(1)[OF R] by (simp add: on_bird_def)
  let ?D = "\<lambda>names. \<exists>t. links_to ?root fs0 t \<and> plain_name t
      \<and> fs_get fs0 (gen ?root t) = Some Dir \<and> names = children fs0 (gen ?root t)"
  have 0: "triple (bst (\<lambda>fs. fs = fs0) l0) (fs_io E ?cur (read_dir ?cur))
      (\<lambda>names. bst (\<lambda>fs. fs = fs0 \<and> ?D names) l0) (\<lambda>e. bst (\<lambda>fs. fs = fs0) l0)"
  proof (rule fs_step[OF assms])
      fix fs names fs' assume fs: "fs = fs0" and run: "read_dir ?cur fs = (Inr names, fs')"
      have "fs_get fs0 ?cur \<noteq> None"
      proof
        assume none: "fs_get fs0 ?cur = None"
        then have "resolve fs0 ?cur = Some ?cur"
          by (intro resolve_entry readyD(3)[OF R]) (simp_all add: plain_name_def)
        with none run fs show False by (simp add: read_dir_def look_def)
      qed
      then obtain t where t: "links_to ?root fs0 t" "plain_name t"
        using readyD(2)[OF R] by (auto simp: bird_layout_def)
      then have "resolve fs0 ?cur = Some (gen ?root t)"
        by (rule resolve_current(1)[OF readyD(2,5)[OF R]])
      with run fs have "fs' = fs0 \<and> fs_get fs0 (gen ?root t) = Some Dir \<and> names = children fs0 (gen ?root t)"
        by (auto simp: read_dir_def look_def split: option.splits node.splits)
      with t show "fs' = fs0 \<and> ?D names" by blast
  qed simp
  have 1: "triple (\<lambda>v. v = w) (attempt (fs_io E ?cur (read_dir ?cur)))
      (\<lambda>r. bst (\<lambda>fs. fs = fs0 \<and> (case r of Inl _ \<Rightarrow> True | Inr names \<Rightarrow> ?D names)) l0) ?K"
    by (rule triple_attempt, rule triple_weaken[OF 0]) (use w in \<open>auto simp: on_bird_def fs0_def\<close>)
  have 2: "triple (bst (\<lambda>fs. fs = fs0 \<and> (case r of Inl _ \<Rightarrow> True | Inr names \<Rightarrow> ?D names)) l0)
      (case r of
        Inr names \<Rightarrow> and_then (collect_generation E ?cur names []) (\<lambda>actual. ret (actual = desired))
      | Inl e \<Rightarrow> if not_found_io e then ret False else throw e) ?Q ?K" for r
  proof (cases r)
    case (Inl e)
    then show ?thesis using R readyD(1)[OF R] by (auto simp: triple_def on_bird_def)
  next
    case (Inr names)
    show ?thesis
    proof (cases "?D names")
      case True
      then obtain t where t: "links_to ?root fs0 t" "plain_name t" "fs_get fs0 (gen ?root t) = Some Dir"
        and names: "names = children fs0 (gen ?root t)" by blast
      have fin: "serves ?root fs0 (map_of actual)"
        if "\<forall>c. if c \<in> set names \<and> ends_with c ''.conf''
          then fs_get fs0 (gen ?root t @ [c]) = map_option File (map_of actual c)
          else map_of actual c = map_of [] c" for actual
      proof -
        have "fs_get fs0 (gen ?root t @ [c]) = map_option File (map_of actual c)"
          if "ends_with c ''.conf''" for c
          using \<open>\<forall>c. _ c\<close>[THEN spec[of _ c]] that names children_iff[of c fs0 "gen ?root t"]
          by (auto split: if_splits)
        then show ?thesis using t unfolding serves_def gen_serves_def by blast
      qed
      note c = triple_collect_generation[OF assms readyD(2,5)[OF R] t, of l0 names "[]"]
      have "triple (bst (\<lambda>fs. fs = fs0) l0)
          (and_then (collect_generation E ?cur names []) (\<lambda>actual. ret (actual = desired))) ?Q ?K"
        by (rule triple_and_then[OF triple_weaken[OF c _ _ weak]], assumption, assumption, assumption,
            rule triple_ret)
          (use R fin in \<open>auto simp: on_bird_def\<close>)
      then show ?thesis unfolding Inr sum.case by (rule triple_weaken) (auto simp: on_bird_def)
    qed (rule triple_false, auto simp: Inr on_bird_def)
  qed
  show "triple (\<lambda>v. v = w) (current_generation_matches E m desired) ?Q ?K"
    unfolding current_generation_matches_def generation_matches_def current_path_def
    by (rule triple_and_then[OF 1 2])
qed



section \<open>A new generation\<close>

text \<open>Another generation \<open>g\<close> with the files written so far, beside the one that is kept.\<close>

definition building ::
  "path \<Rightarrow> (rstr \<times> (rstr \<Rightarrow> rstr option)) option \<Rightarrow> rstr \<Rightarrow> (rstr \<Rightarrow> rstr option) \<Rightarrow> filesystem \<Rightarrow> bool" where
  "building root old g files fs =
     (ready root old fs \<and> plain_name g \<and> (\<forall>t old_files. old = Some (t, old_files) \<longrightarrow> t \<noteq> g) \<and>
      gen_serves fs (gen root g) files)"

lemma buildingD:
  assumes "building root old g files fs"
  shows "ready root old fs" "plain_dir fs (gen root g)"
    "fs_get fs (gen root g @ [c]) \<noteq> Some (Symlink a t)"
proof -
  show R: "ready root old fs" using assms by (simp add: building_def)
  show "plain_dir fs (gen root g)"
    using plain_gen[OF readyD(2,5)[OF R]] assms by (simp add: building_def gen_serves_def)
  show "fs_get fs (gen root g @ [c]) \<noteq> Some (Symlink a t)"
    using bird_layoutD(4)[OF readyD(2)[OF R], of "[g, c]"] by simp
qed

lemma building_put:
  assumes B: "building root old g files fs" and "fs_get fs (gen root g @ [c]) \<noteq> Some Dir"
  shows "building root old g (if ends_with c ''.conf'' then files(c \<mapsto> x) else files)
    (fs_put (gen root g @ [c]) (File x) fs)"
proof -
  have "kept root old (fs_put (root @ [''generations'', g, c]) (File x) fs)"
    using assms by (intro kept_put)
      (auto simp: building_def ready_def gen_serves_def butlast_append)
  then show ?thesis
    using B by (auto simp: building_def ready_def gen_serves_def fs_get_put)
qed

lemma building_del:
  assumes B: "building root old g files fs" and "fs_get fs (gen root g @ [c]) \<noteq> Some Dir"
    and "\<not> ends_with c ''.conf''"
  shows "building root old g files (fs_del (gen root g @ [c]) fs)"
proof -
  have "kept root old (fs_del (root @ [''generations'', g, c]) fs)"
    using assms by (intro kept_del) (auto simp: building_def ready_def)
  then show ?thesis
    using B assms(3) by (auto simp: building_def ready_def gen_serves_def fs_get_del)
qed

lemma triple_open_truncate:
  assumes "respects_bird_lock E" "plain_name c" "\<not> ends_with c ''.conf''"
  shows "triple (bst (building root old g files) l0)
    (fs_io E (gen root g @ [c]) (open_truncate (gen root g @ [c])))
    (\<lambda>_. bst (\<lambda>fs. building root old g files fs \<and> fs_get fs (gen root g @ [c]) = Some (File [])) l0)
    (\<lambda>e. bst (kept root old) l0)"
proof (rule fs_step[OF assms(1)])
  fix fs assume B: "building root old g files fs"
  let ?p = "gen root g @ [c]"
  have run: "open_truncate ?p fs = (if fs_get fs ?p = Some Dir then (Inl eisdir, fs)
      else (Inr (), fs_put ?p (File []) fs))"
    using buildingD(3)[OF B] by (intro open_truncate_run buildingD(2)[OF B] assms(2)) blast
  have put: "fs_get fs ?p \<noteq> Some Dir \<Longrightarrow> building root old g files (fs_put ?p (File []) fs)"
    using building_put[OF B, of c] assms(3) by simp
  then show "kept root old fs \<and> kept root old (snd (open_truncate ?p fs))"
    unfolding run using B by (auto simp: building_def ready_def)
  fix x fs' assume "open_truncate ?p fs = (Inr x, fs')"
  then show "building root old g files fs' \<and> fs_get fs' ?p = Some (File [])"
    unfolding run using put by (auto simp: fs_get_put split: if_splits)
qed

lemma triple_write_all:
  assumes "respects_bird_lock E" "plain_name c" "\<not> ends_with c ''.conf''"
  shows "triple
    (bst (\<lambda>fs. building root old g files fs \<and> fs_get fs (gen root g @ [c]) = Some (File [])) l0)
    (fs_io E (gen root g @ [c]) (write_all (gen root g @ [c]) content))
    (\<lambda>_. bst (\<lambda>fs. building root old g files fs \<and> fs_get fs (gen root g @ [c]) = Some (File content)) l0)
    (\<lambda>e. bst (kept root old) l0)"
proof (rule fs_step[OF assms(1)])
  let ?p = "gen root g @ [c]"
  fix fs assume B: "building root old g files fs \<and> fs_get fs ?p = Some (File [])"
  have run: "write_all ?p content fs = (Inr (), fs_put ?p (File content) fs)"
    using write_all_run[OF buildingD(2)[OF conjunct1[OF B]] assms(2) conjunct2[OF B]] by simp
  have put: "building root old g files (fs_put ?p (File content) fs)"
    using building_put[of root old g files fs c] B assms(3) by simp
  then show "kept root old fs \<and> kept root old (snd (write_all ?p content fs))"
    unfolding run using B by (simp add: building_def ready_def)
  fix x fs' assume "write_all ?p content fs = (Inr x, fs')"
  then show "building root old g files fs' \<and> fs_get fs' ?p = Some (File content)"
    unfolding run using put by (auto simp: fs_get_put)
qed

lemma triple_rename_file:
  assumes "respects_bird_lock E" "\<not> ends_with c ''.conf''" "ends_with name ''.conf''"
  shows "triple
    (bst (\<lambda>fs. building root old g files fs \<and> fs_get fs (gen root g @ [c]) = Some (File content)) l0)
    (fs_io E (gen root g @ [name]) (rename (gen root g @ [c]) (gen root g @ [name])))
    (\<lambda>_. bst (building root old g (files(name \<mapsto> content))) l0) (\<lambda>e. bst (kept root old) l0)"
proof (rule fs_step[OF assms(1)])
  let ?p = "gen root g @ [c]" and ?q = "gen root g @ [name]"
  fix fs assume B: "building root old g files fs \<and> fs_get fs ?p = Some (File content)"
  let ?fs = "fs_put ?q (File content) (fs_del ?p fs)"
  have run: "rename ?p ?q fs = (if fs_get fs ?q = Some Dir then (Inl eisdir, fs) else (Inr (), ?fs))"
    using rename_run[OF buildingD(2)[OF conjunct1[OF B]] conjunct2[OF B]] by simp
  have "building root old g files (fs_del ?p fs)"
    using building_del[of root old g files fs c] B assms(2) by simp
  from building_put[OF this, of name]
  have put: "fs_get fs ?q \<noteq> Some Dir \<Longrightarrow> building root old g (files(name \<mapsto> content)) ?fs"
    using assms(3) by (simp add: fs_get_del)
  then show "kept root old fs \<and> kept root old (snd (rename ?p ?q fs))"
    unfolding run using B by (auto simp: building_def ready_def)
  fix x fs' assume "rename ?p ?q fs = (Inr x, fs')"
  then show "building root old g (files(name \<mapsto> content)) fs'"
    unfolding run using put by (auto split: if_splits)
qed

lemma temporary_name:
  "\<not> ends_with (''.'' @ x @ ''.tmp'') ''.conf''" "plain_name (''.'' @ x @ ''.tmp'')"
proof -
  have "last (''.'' @ x @ ''.tmp'') = CHR ''p''" by simp
  moreover have "ends_with y ''.conf'' \<Longrightarrow> last y = CHR ''f''" for y
    by (auto simp: ends_with_def suffix_def)
  ultimately show "\<not> ends_with (''.'' @ x @ ''.tmp'') ''.conf''" by fastforce
  show "plain_name (''.'' @ x @ ''.tmp'')" by (cases x) (auto simp: plain_name_def)
qed

lemma triple_write_atomic:
  assumes "respects_bird_lock E" "ends_with name ''.conf''"
  shows "triple (bst (building root old g files) l0) (write_atomic E (gen root g @ [name]) content)
    (\<lambda>_. bst (building root old g (files(name \<mapsto> content))) l0) (\<lambda>e. bst (kept root old) l0)"
proof -
  have K: "building root old g files fs \<Longrightarrow> kept root old fs" for fs
    by (simp add: building_def ready_def)
  have body: "triple (bst (building root old g files) l0)
     (let temporary = butlast (gen root g @ [name]) @ [c]; parent = butlast (gen root g @ [name]) in
      and_then (fs_io E parent (metadata parent)) (\<lambda>_.
      and_then (fs_io E temporary (open_truncate temporary)) (\<lambda>_.
      and_then (fs_io E temporary (write_all temporary content)) (\<lambda>_.
      and_then (fs_io E temporary fs_touch) (\<lambda>_.
      and_then (fs_io E temporary fs_touch) (\<lambda>_.
      and_then (fs_io E temporary fs_touch) (\<lambda>_.
      fs_io E (gen root g @ [name]) (rename temporary (gen root g @ [name])))))))))
      (\<lambda>_. bst (building root old g (files(name \<mapsto> content))) l0) (\<lambda>e. bst (kept root old) l0)"
    if "plain_name c" "\<not> ends_with c ''.conf''" for c
    unfolding Let_def butlast_snoc
    by (intro triple_and_then[OF triple_look triple_and_then[OF triple_open_truncate
          triple_and_then[OF triple_write_all triple_and_then[OF triple_look triple_and_then[OF
          triple_look triple_and_then[OF triple_look triple_rename_file]]]]]]
          assms that) (simp_all add: K)
  have name: "''.'' @ name @ ''.'' @ show_nat pid @ ''.'' @ show_nat n @ ''.tmp''
      = ''.'' @ (name @ ''.'' @ show_nat pid @ ''.'' @ show_nat n) @ ''.tmp''" for pid n
    by simp
  show ?thesis
    unfolding write_atomic_def last_snoc name
    by (rule triple_and_then[OF triple_read_nanos body[OF temporary_name(2,1)]])
qed

lemma triple_write_generation:
  assumes "respects_bird_lock E" "\<And>name content. (name, content) \<in> set desired \<Longrightarrow> ends_with name ''.conf''"
    and "distinct (map fst desired)"
  shows "triple (bst (ready (bird_conf_dir m) old) l0) (write_generation E m desired)
    (\<lambda>g. bst (building (bird_conf_dir m) old g (map_of desired)) l0)
    (\<lambda>e. bst (kept (bird_conf_dir m) old) l0)"
proof -
  let ?root = "bird_conf_dir m" and ?K = "\<lambda>e :: peer_error. bst (kept (bird_conf_dir m) old) l0"
  have 1: "triple (bst (ready ?root old) l0) (fs_io E (gen ?root g) (create_dir (gen ?root g)))
      (\<lambda>_. bst (building ?root old g (map_of [])) l0) ?K" if "plain_name g" for g
  proof (rule fs_step[OF assms(1)])
    fix fs assume R: "ready ?root old fs"
    let ?fs = "fs_put (gen ?root g) Dir fs"
    have run: "create_dir (gen ?root g) fs =
        (if fs_get fs (gen ?root g) = None then (Inr (), ?fs) else (Inl eexist, fs))"
      using create_dir_run[OF readyD(4)[OF R], of g] by simp
    have put: "building ?root old g (map_of []) ?fs" if none: "fs_get fs (gen ?root g) = None"
    proof -
      have "kept ?root old (fs_put (?root @ [''generations'', g]) Dir fs)"
        using none R by (intro kept_put readyD(1)) (simp_all add: butlast_append readyD(5))
      moreover have "t \<noteq> g" if "old = Some (t, files)" for t files
        using none readyD(1)[OF R] that by (auto simp: kept_def gen_serves_def)
      moreover have "fs_get fs (gen ?root g @ [c]) = None" for c
      proof (rule ccontr)
        assume "fs_get fs (gen ?root g @ [c]) \<noteq> None"
        then have "fs_get fs (butlast (gen ?root g @ [c])) = Some Dir"
          using bird_layoutD(2)[OF readyD(2)[OF R]] unfolding fs_tree_def by blast
        with none show False by (simp only: butlast_snoc option.distinct)
      qed
      ultimately show ?thesis
        using readyD(5)[OF R] \<open>plain_name g\<close>
        by (auto simp: building_def ready_def gen_serves_def fs_get_put)
    qed
    then show "kept ?root old fs \<and> kept ?root old (snd (create_dir (gen ?root g) fs))"
      using readyD(1)[OF R] by (auto simp: run building_def ready_def)
    fix x fs' assume "create_dir (gen ?root g) fs = (Inr x, fs')"
    then show "building ?root old g (map_of []) fs'" using put by (auto simp: run split: if_splits)
  qed
  have 2: "triple (bst (building ?root old g (map_of [])) l0)
      (for_io (\<lambda>(file_name, content). write_atomic E (gen ?root g @ [file_name]) content) desired)
      (\<lambda>_. bst (building ?root old g (map_of desired)) l0) ?K" for g
  proof (rule triple_for_io[where I = "\<lambda>pre. bst (building ?root old g (map_of pre)) l0"])
    fix pre x post assume split: "desired = pre @ x # post"
    obtain name content where x: "x = (name, content)" by (cases x)
    have "map_of pre name = None" using assms(3) split x by (simp add: map_of_eq_None_iff)
    then have "map_of (pre @ [x]) = (map_of pre)(name \<mapsto> content)"
      by (auto simp: x map_add_def fun_eq_iff split: option.split)
    moreover have "(name, content) \<in> set desired" using split x by simp
    then have "ends_with name ''.conf''" by (rule assms(2))
    ultimately show "triple (bst (building ?root old g (map_of pre)) l0)
        (case x of (file_name, content) \<Rightarrow> write_atomic E (gen ?root g @ [file_name]) content)
        (\<lambda>_. bst (building ?root old g (map_of (pre @ [x]))) l0) ?K"
      using triple_write_atomic[OF assms(1)] by (simp add: x)
  qed
  have plain: "plain_name (''generation-'' @ show_nat n)" for n by (simp add: plain_name_def)
  have 3: "triple (bst (building ?root old g (map_of desired)) l0)
      (and_then (sync_directory E (gen ?root g)) (\<lambda>_. ret g))
      (\<lambda>g. bst (building ?root old g (map_of desired)) l0) ?K" for g
    by (rule triple_and_then[OF triple_sync_directory[OF assms(1)] triple_ret])
      (simp_all add: building_def ready_def)
  have paths: "generations_path m @ [g] = gen ?root g" "(gen ?root g) @ [c] = ?root @ [''generations'', g, c]"
    for g c by (simp_all add: generations_path_def)
  show ?thesis
    unfolding write_generation_def Let_def paths(1)
    by (rule triple_and_then[OF triple_read_nanos triple_and_then[OF 1[OF plain] triple_and_then[OF 2 3]]])
qed



section \<open>Old generations\<close>

lemma kept_remove:
  assumes "ready root (Some (g, files)) fs" "name \<noteq> g"
  shows "ready root (Some (g, files)) (filter (\<lambda>e. \<not> prefix (gen root name) (fst e)) fs)"
  using assms layout_remove[OF readyD(2)[OF assms(1)], of name]
  by (auto simp: ready_def kept_def links_to_def gen_serves_def fs_get_tree_removed
      dest: prefix_length_le)

lemma triple_remove_old_generations:
  assumes "respects_bird_lock E"
  shows "triple (bst (ready (bird_conf_dir m) (Some (g, files))) l0) (remove_old_generations E m g)
    (\<lambda>_. bst (ready (bird_conf_dir m) (Some (g, files))) l0) F"
proof -
  let ?root = "bird_conf_dir m" and ?R = "ready (bird_conf_dir m) (Some (g, files))"
  have look: "triple (bst ?R l0) (attempt (fs_io E p q)) (\<lambda>_. bst ?R l0) F"
    if "\<And>fs. snd (q fs) = fs" for p and q :: "'b fs_call"
    by (rule triple_attempt[OF triple_look[OF assms that]])
  have remove: "triple (bst ?R l0)
      (attempt (fs_io E (gens ?root @ [name]) (remove_dir_all (gens ?root @ [name])))) (\<lambda>_. bst ?R l0) F"
    if "name \<noteq> g" for name
  proof (rule triple_attempt, rule fs_step[OF assms])
    fix fs assume R: "?R fs"
    have run: "?R (snd (remove_dir_all (gens ?root @ [name]) fs))"
      unfolding remove_dir_all_run[OF readyD(4)[OF R]] using R kept_remove[OF R that] by simp
    then show "?R fs \<and> ?R (snd (remove_dir_all (gens ?root @ [name]) fs))" using R by blast
    fix x fs' assume "remove_dir_all (gens ?root @ [name]) fs = (Inr x, fs')"
    with run show "?R fs'" by simp
  qed
  have loop: "triple (bst ?R l0) (remove_generations E (gens ?root) g names) (\<lambda>_. bst ?R l0) F" for names
  proof (induction names)
    case Nil
    show ?case unfolding remove_generations.simps
      by (rule triple_and_then[OF look]) (simp_all add: triple_ret)
  next
    case (Cons name names)
    show ?case unfolding remove_generations.simps
    proof (rule triple_and_then[OF look])
      fix r :: "peer_error + unit"
      show "triple (bst ?R l0)
        (case r of
          Inl _ \<Rightarrow> ret ()
        | Inr _ \<Rightarrow>
            if name = ''empty'' \<or> name = g \<or> \<not> starts_with name ''generation-''
            then remove_generations E (gens ?root) g names
            else and_then (attempt (fs_io E (gens ?root @ [name]) (remove_dir_all (gens ?root @ [name]))))
              (\<lambda>_. remove_generations E (gens ?root) g names)) (\<lambda>_. bst ?R l0) F"
        using triple_and_then[OF remove Cons.IH] Cons.IH
        by (auto intro: triple_ret split: sum.split)
    qed simp
  qed
  show ?thesis
    unfolding remove_old_generations_def generations_path_def
  proof (rule triple_and_then[OF look])
    fix r :: "peer_error + rstr list"
    show "triple (bst ?R l0) (case r of Inl _ \<Rightarrow> ret () | Inr names \<Rightarrow>
        remove_generations E (gens ?root) g names) (\<lambda>_. bst ?R l0) F"
      using loop by (auto intro: triple_ret split: sum.split)
  qed simp
qed

section \<open>The wanted files\<close>

lemma keys_bt_insert: "fst ` set (bt_insert k v m) = insert k (fst ` set m)"
  by (induction m rule: bt_insert.induct) auto

lemma sorted_bt_insert:
  "sorted_wrt (<) (map fst m) \<Longrightarrow> sorted_wrt (<) (map fst (bt_insert k v m))"
proof (induction m rule: bt_insert.induct)
  case (2 k v k' v' m)
  have keys: "set (map fst (bt_insert k v m)) = insert k (set (map fst m))"
    using keys_bt_insert[of k v m] by simp
  show ?case
    using 2 keys by (auto simp: keys_bt_insert image_iff split: if_splits dest: less_trans) 
qed simp

lemma desired_configs_keys:
  assumes "desired_configs E m peers acc = Inr desired" "sorted_wrt (<) (map fst acc)"
    "\<forall>name\<in>fst ` set acc. ends_with name ''.conf''"
  shows "sorted_wrt (<) (map fst desired) \<and> (\<forall>name\<in>fst ` set desired. ends_with name ''.conf'')"
  using assms
proof (induction peers arbitrary: acc)
  case (Cons p peers)
  have "ends_with (p_iface_name p @ ''.conf'') ''.conf''" by (simp add: ends_with_def suffix_def)
  then show ?case
    using Cons.prems Cons.IH[of acc] Cons.IH[of "bt_insert (p_iface_name p @ ''.conf'') (render_peer_config E m p) acc"]
    by (auto simp: sorted_bt_insert keys_bt_insert split: if_splits)
qed simp

lemma desired_configs_names:
  assumes "desired_configs E m peers [] = Inr desired"
  shows "distinct (map fst desired)" "(name, content) \<in> set desired \<Longrightarrow> ends_with name ''.conf''"
  using desired_configs_keys[OF assms] strict_sorted_iff by (auto simp: rev_image_eqI)

lemma desired_configs_map:
  assumes "desired_configs E m peers acc = Inr desired"
    "distinct (map p_iface_name (filter (\<lambda>p. desired_status (p_status p)) peers))"
  shows "map_of desired c =
    (case find (\<lambda>p. desired_status (p_status p) \<and> p_iface_name p @ ''.conf'' = c) peers of
       Some p \<Rightarrow> Some (render_peer_config E m p) | None \<Rightarrow> map_of acc c)"
  using assms
proof (induction peers arbitrary: acc)
  case (Cons p peers)
  have other: "find (\<lambda>q. desired_status (p_status q) \<and> p_iface_name q @ ''.conf'' = p_iface_name p @ ''.conf'') peers = None"
    if "desired_status (p_status p)"
    using Cons.prems(2) that by (auto simp: find_None_iff image_iff)
  show ?case
  proof (cases "desired_status (p_status p)")
    case True
    then have "desired_configs E m peers
        (bt_insert (p_iface_name p @ ''.conf'') (render_peer_config E m p) acc) = Inr desired"
      using Cons.prems(1) by (auto split: if_splits)
    from Cons.IH[OF this] Cons.prems(2) other[OF True] True show ?thesis by (auto split: option.split)
  next
    case False
    then show ?thesis using Cons by simp
  qed
qed simp



section \<open>Synchronisation\<close>

definition generation_in :: "(path \<Rightarrow> node option) \<Rightarrow> rstr \<Rightarrow> (rstr \<Rightarrow> rstr option) \<Rightarrow> bool" where
  "generation_in U t files =
     (U [t] = Some Dir \<and> (\<forall>c. ends_with c ''.conf'' \<longrightarrow> U [t, c] = map_option File (files c)))"

abbreviation link_node :: "rstr \<Rightarrow> node option" where
  "link_node g \<equiv> Some (Symlink False [''generations'', g])"

text \<open>
  What a synchronisation leaves at any rate, when \<open>current\<close> led to the generation \<open>old\<close> before: the
  old generation or the new one, both complete, or no link at all.
\<close>

definition undamaged ::
  "path \<Rightarrow> (rstr \<times> (rstr \<Rightarrow> rstr option)) option \<Rightarrow> (rstr \<Rightarrow> rstr option) option \<Rightarrow> filesystem \<Rightarrow> bool" where
  "undamaged root old new fs =
     (case old of
        None \<Rightarrow> True
      | Some (t, files) \<Rightarrow> bird_layout root fs \<and>
          (serves root fs files \<or> (\<exists>files'. new = Some files' \<and> serves root fs files')
           \<or> fs_get fs (root @ [''current'']) = None))"

lemma switching_serves:
  "switching root U {link_node g} fs \<Longrightarrow> plain_name g \<Longrightarrow> generation_in U g files \<Longrightarrow>
   bird_layout root fs \<and> serves root fs files"
  unfolding switching_def serves_def links_to_def gen_serves_under generation_in_def by auto

lemma switching_undamaged:
  assumes "switching root U nodes fs" "plain_name g" "generation_in U g files"
    and "\<And>t old_files. old = Some (t, old_files) \<Longrightarrow>
      plain_name t \<and> generation_in U t old_files \<and> nodes \<subseteq> {link_node t, link_node g, None}"
  shows "undamaged root old (Some files) fs"
proof (cases old)
  case (Some p)
  then obtain t old_files where o: "old = Some (t, old_files)" by (cases p) auto
  note t = assms(4)[OF o]
  have S: "switching root U {fs_get fs (root @ [''current''])} fs"
    using assms(1) by (simp add: switching_def)
  then have L: "bird_layout root fs" by (simp add: switching_def)
  have "fs_get fs (root @ [''current'']) \<in> nodes" using assms(1) by (simp add: switching_def)
  with conjunct2[OF conjunct2[OF t]] have "fs_get fs (root @ [''current'']) \<in> {link_node t, link_node g, None}"
    by (rule subsetD)
  then consider "fs_get fs (root @ [''current'']) = link_node t"
    | "fs_get fs (root @ [''current'']) = link_node g" | "fs_get fs (root @ [''current'']) = None"
    by (elim insertE emptyE)
  then have "serves root fs old_files \<or> serves root fs files \<or> fs_get fs (root @ [''current'']) = None"
  proof cases
    case 1
    then show ?thesis using switching_serves[of root U t fs old_files] S t by simp
  next
    case 2
    then show ?thesis using switching_serves[of root U g fs files] S assms(2,3) by simp
  qed simp
  with L show ?thesis by (simp add: undamaged_def o)
qed (simp add: undamaged_def)

lemma kept_undamaged: "kept root old fs \<Longrightarrow> undamaged root old new fs"
  by (auto simp: kept_def undamaged_def serves_def split: option.splits)

lemma triple_any_log:
  assumes "\<And>l0. triple (bst P l0) m (\<lambda>x. bst (Q x) l0) (\<lambda>e. bst (F e) l0)"
  shows "triple (on_bird (\<lambda>fs _. P fs)) m (\<lambda>x. on_bird (\<lambda>fs _. Q x fs)) (\<lambda>e. on_bird (\<lambda>fs _. F e fs))"
proof (rule tripleI)
  fix w x w' assume "on_bird (\<lambda>fs _. P fs) w" "m w = (Inr x, w')"
  with triple_Inr[OF assms[of "w_bird_log w"], of w x w'] show "on_bird (\<lambda>fs _. Q x fs) w'"
    by (simp add: on_bird_def)
next
  fix w e w' assume "on_bird (\<lambda>fs _. P fs) w" "m w = (Inl e, w')"
  with triple_Inl[OF assms[of "w_bird_log w"], of w e w'] show "on_bird (\<lambda>fs _. F e fs) w'"
    by (simp add: on_bird_def)
qed

lemma reload_bird_ok:
  assumes "respects_bird_lock E" "holds_bird w" "\<not> mocked E ''MOCK_BIRD''" "reload_bird E m w = (Inr u, w')"
  shows "w_fs w' = w_fs w \<and> w_bird_log w' = w_bird_log w @ [fs_get (w_fs w) (current_path m)]"
proof -
  have "reload_bird_inner E m w = (Inr u, w')"
    using assms(3,4) by (auto simp: reload_bird_def split: prod.splits if_splits)
  then show ?thesis using await_bird[OF assms(1,2)]
    by (auto simp: reload_bird_inner_def Let_def configure_received_def split: option.splits)
qed

lemma configure_received_simps [simp]:
  "w_fs (configure_received m w) = w_fs w" "w_locks (configure_received m w) = w_locks w"
  by (simp_all add: configure_received_def)

lemma reload_bird_fs:
  assumes "respects_bird_lock E" "holds_bird w"
  shows "w_fs (snd (reload_bird E m w)) = w_fs w" "holds_bird (snd (reload_bird E m w))"
  using reload_bird_world[of E m w] await_bird[OF assms] assms(2) by (auto simp: holds_bird_def)

lemma triple_reload:
  assumes "respects_bird_lock E" "\<not> mocked E ''MOCK_BIRD''"
  shows "triple (bst P l0) (reload_bird E m)
    (\<lambda>_. on_bird (\<lambda>fs l. P fs \<and> l = l0 @ [fs_get fs (current_path m)])) (\<lambda>e. on_bird (\<lambda>fs _. P fs))"
proof (rule tripleI)
  fix w x w' assume "bst P l0 w" "reload_bird E m w = (Inr x, w')"
  then show "on_bird (\<lambda>fs l. P fs \<and> l = l0 @ [fs_get fs (current_path m)]) w'"
    using reload_bird_ok[OF assms(1) _ assms(2), of w m x w'] reload_bird_fs(2)[OF assms(1), of w m] by (simp add: on_bird_def)
next
  fix w e w' assume "bst P l0 w" "reload_bird E m w = (Inl e, w')"
  then show "on_bird (\<lambda>fs _. P fs) w'"
    using reload_bird_fs[OF assms(1), of w m] by (simp add: on_bird_def)
qed

lemma triple_remove_current:
  assumes "respects_bird_lock E"
  shows "triple (bst (switching root U {link_node g}) l0) (remove_optional E (root @ [''current'']))
    (\<lambda>_. bst (switching root U {link_node g, None}) l0) (\<lambda>e. bst (switching root U {link_node g, None}) l0)"
proof -
  let ?p = "root @ [''current'']" and ?S = "switching root U {link_node g, None}"
  have 1: "triple (bst (switching root U {link_node g}) l0) (attempt (fs_io E ?p (remove_file ?p)))
      (\<lambda>_. bst ?S l0) (\<lambda>e. bst ?S l0)"
  proof (rule triple_attempt, rule fs_step[OF assms])
    fix fs assume S: "switching root U {link_node g} fs"
    then have L: "bird_layout root fs" and link: "fs_get fs ?p = link_node g"
      by (simp_all add: switching_def)
    have "bird_layout root (fs_del ?p fs)" using layout_del[OF L, of "[''current'']"] link by simp
    then have D: "?S (fs_del ?p fs)"
      using S by (simp add: switching_def under_gens_def fs_get_del fun_eq_iff)
    have run: "snd (remove_file ?p fs) = fs_del ?p fs"
      using remove_file_run[OF bird_layoutD(1)[OF L], of "''current''"] link by simp
    show "?S fs \<and> ?S (snd (remove_file ?p fs))"
      unfolding run using D switching_more[OF S] by simp
    fix x fs' assume "remove_file ?p fs = (Inr x, fs')"
    with run D show "?S fs'" by simp
  qed
  show ?thesis unfolding remove_optional_def
  proof (rule triple_and_then[OF 1])
    fix r :: "peer_error + unit"
    show "triple (bst ?S l0) (case r of Inr _ \<Rightarrow> ret () | Inl e \<Rightarrow> if not_found_io e then ret () else throw e)
      (\<lambda>_. bst ?S l0) (\<lambda>e. bst ?S l0)"
      by (cases r) (simp_all add: triple_ret triple_throw)
  qed
qed

lemma triple_reload_ignored:
  assumes "respects_bird_lock E"
  shows "triple (on_bird (\<lambda>fs _. P fs)) (attempt (reload_bird E m)) (\<lambda>_. on_bird (\<lambda>fs _. P fs)) F"
proof (rule triple_attempt, rule tripleI)
  fix w r w' assume P: "on_bird (\<lambda>fs _. P fs) w"
  have fs: "reload_bird E m w = (r, w') \<Longrightarrow> w_fs w' = w_fs w \<and> holds_bird w'" for r
    using reload_bird_fs[OF assms, of w m] P by (simp add: on_bird_def)
  show "reload_bird E m w = (Inr r, w') \<Longrightarrow> on_bird (\<lambda>fs _. P fs) w'"
    "\<And>e. reload_bird E m w = (Inl e, w') \<Longrightarrow> on_bird (\<lambda>fs _. P fs) w'"
    using P fs by (simp_all add: on_bird_def)
qed

lemma keeps_holding:
  "preserves holds_bird (sync_bird_locked E m peers force_reload)"
  "preserves holds_bird (restore_generation E m target err)"
proof -
  have "stable E holds_bird" by (simp add: stable_def holds_bird_def)
  moreover have "about w_locks holds_bird" by (simp add: about_def holds_bird_def)
  moreover have "beside_fs w_locks" by (simp add: beside_fs_def tick_free_def)
  ultimately show "preserves holds_bird (sync_bird_locked E m peers force_reload)"
    "preserves holds_bird (restore_generation E m target err)"
    using bird_preserves(3,4) by blast+
qed

lemma triple_restore:
  assumes "respects_bird_lock E" "plain_name g" "generation_in U g files"
    and old: "\<And>t old_files. old = Some (t, old_files) \<Longrightarrow> plain_name t \<and> generation_in U t old_files
      \<and> (target = None \<or> target = Some (False, [''generations'', t]))"
  shows "triple (on_bird (\<lambda>fs _. switching (bird_conf_dir m) U {link_node g} fs))
    (restore_generation E m target err) (\<lambda>_ _. False)
    (\<lambda>e. on_bird (\<lambda>fs _. undamaged (bird_conf_dir m) old (Some files) fs))"
proof (cases old)
  case None
  have "restore_generation E m target err w \<noteq> (Inr u, w')" for w u w'
    by (auto simp: restore_generation_def and_then_Inr split: sum.splits)
  moreover have "holds_bird w'" if "on_bird P w" "restore_generation E m target err w = (r, w')" for P w r w'
    using preservesD[OF keeps_holding(2)[of E m target err] _ that(2)] that(1) by (simp add: on_bird_def)
  ultimately show ?thesis
    by (intro tripleI) (auto simp: None undamaged_def on_bird_def)
next
  case (Some p)
  then obtain t old_files where o: "old = Some (t, old_files)" by (cases p) auto
  let ?root = "bird_conf_dir m" and ?nodes = "{link_node t, link_node g, None}"
  note t = old[OF o]
  let ?P = "switching ?root U {link_node g}" and ?R = "switching ?root U ?nodes"
  have U: "?R fs \<Longrightarrow> undamaged ?root old (Some files) fs" for fs
    using t by (intro switching_undamaged[OF _ assms(2,3)]) (auto simp: o)
  have "triple (bst ?P l0) (case target of Some target \<Rightarrow> switch_current E m target
        | None \<Rightarrow> remove_optional E (current_path m)) (\<lambda>_. bst ?R l0) (\<lambda>e. bst ?R l0)" for l0
  proof (cases "target = None")
    case True
    then show ?thesis
      using triple_remove_current[OF assms(1), of ?root U g l0] unfolding current_path_def
      by (auto intro!: triple_weaken[OF triple_remove_current[OF assms(1)]]
          simp: on_bird_def intro: switching_more)
  next
    case False
    with t have "target = Some (False, [''generations'', t])" by simp
    then show ?thesis unfolding switch_current_def
      using t by (auto intro!: triple_weaken[OF triple_switch[OF assms(1)]]
          simp: on_bird_def intro: switching_more)
  qed
  then have 1: "triple (on_bird (\<lambda>fs _. ?P fs)) (attempt (case target of
        Some target \<Rightarrow> switch_current E m target | None \<Rightarrow> remove_optional E (current_path m)))
      (\<lambda>_. on_bird (\<lambda>fs _. ?R fs)) F" for F
    by (intro triple_attempt triple_any_log)
  note 2 = triple_reload_ignored[OF assms(1), of ?R m]
  have U': "on_bird (\<lambda>fs _. ?R fs) w \<Longrightarrow> on_bird (\<lambda>fs _. undamaged ?root old (Some files) fs) w" for w
    using U by (simp add: on_bird_def)
  show ?thesis
    unfolding restore_generation_def
  proof (rule triple_and_then[OF 1])
    fix r :: "peer_error + unit"
    show "triple (on_bird (\<lambda>fs _. ?R fs))
      (case r of
        Inl restore_error \<Rightarrow> throw (BirdReload (display_error err
           @ ''. The previous generation could not be restored: '' @ display_error restore_error))
      | Inr _ \<Rightarrow> and_then (attempt (reload_bird E m)) (\<lambda>_. throw err)) (\<lambda>_ _. False)
      (\<lambda>e. on_bird (\<lambda>fs _. undamaged ?root old (Some files) fs))"
      using triple_and_then[OF 2 triple_throw[OF U']] triple_throw[OF U'] by (cases r) simp_all
  qed
qed



lemma read_link_current:
  "bird_layout root fs \<Longrightarrow> read_link (root @ [''current'']) fs = (Inr target, fs') \<Longrightarrow>
   fs_get fs (root @ [''current'']) = Some (Symlink (fst target) (snd target))"
  by (auto simp: read_link_def look_def locate_plain bird_layoutD(1) split: option.splits node.splits)

lemma triple_install_generation:
  assumes "respects_bird_lock E" "\<not> mocked E ''MOCK_BIRD''"
  shows "triple (bst (building (bird_conf_dir m) old g files) l0) (install_generation E m g)
    (\<lambda>_. on_bird (\<lambda>fs l. bird_layout (bird_conf_dir m) fs \<and> serves (bird_conf_dir m) fs files
       \<and> l = l0 @ [fs_get fs (current_path m)]))
    (\<lambda>e. on_bird (\<lambda>fs _. undamaged (bird_conf_dir m) old (Some files) fs))"
proof (rule triple_pre)
  let ?root = "bird_conf_dir m" and ?cur = "bird_conf_dir m @ [''current'']"
  let ?F = "\<lambda>e :: peer_error. on_bird (\<lambda>fs _. undamaged ?root old (Some files) fs)"
  fix w assume "bst (building ?root old g files) l0 w"
  then have B: "building ?root old g files (w_fs w)" and l: "w_bird_log w = l0" "holds_bird w"
    by (simp_all add: on_bird_def)
  define U where "U = under_gens ?root (w_fs w)"
  define node where "node = fs_get (w_fs w) ?cur"
  have R: "ready ?root old (w_fs w)" and g: "plain_name g" "generation_in U g files"
    using B by (simp_all add: building_def gen_serves_under generation_in_def U_def)
  have old: "plain_name t \<and> generation_in U t old_files \<and> node = link_node t"
    if "old = Some (t, old_files)" for t old_files
    using readyD(1)[OF R] that
    by (simp add: kept_def gen_serves_under generation_in_def U_def node_def links_to_def)
  have start: "switching ?root U {node} (w_fs w)"
    using readyD(2)[OF R] by (simp add: switching_def U_def node_def)
  have bad: "undamaged ?root old (Some files) fs" if "switching ?root U {link_node g, node} fs" for fs
    using switching_undamaged[OF that g] old by auto
  have U0: "U [] = Some Dir" using readyD(5)[OF R] by (simp add: U_def under_gens_def)
  have ok: "ready ?root (Some (g, files)) fs \<and> fs_get fs (current_path m) = link_node g"
    if "switching ?root U {link_node g} fs" for fs
  proof -
    have "under_gens ?root fs [] = Some Dir" using that U0 by (simp add: switching_def)
    then show ?thesis
      using that g switching_serves[OF that g]
      by (auto simp: ready_def kept_def under_gens_def links_to_def switching_def gen_serves_def
          generation_in_def current_path_def fun_eq_iff)
  qed
  let ?good = "\<lambda>target. target = None \<or> (\<exists>t. old = Some t \<longrightarrow> target = Some (False, [''generations'', fst t]))"
  have 1: "triple (\<lambda>v. v = w) (attempt (fs_io E ?cur (read_link ?cur)))
      (\<lambda>r. bst (\<lambda>fs. switching ?root U {node} fs \<and>
         (\<forall>a t. r = Inr (a, t) \<longrightarrow> node = Some (Symlink a t))) l0) ?F"
  proof (rule triple_attempt, rule triple_weaken)
    show "triple (bst (switching ?root U {node}) l0) (fs_io E ?cur (read_link ?cur))
      (\<lambda>x. bst (\<lambda>fs. switching ?root U {node} fs \<and> node = Some (Symlink (fst x) (snd x))) l0)
      (\<lambda>e. bst (switching ?root U {node}) l0)"
    proof (rule fs_step[OF assms(1)])
      fix fs x fs' assume S: "switching ?root U {node} fs" and run: "read_link ?cur fs = (Inr x, fs')"
      have "fs' = fs" using calls_that_only_look(3)[of ?cur fs] run by simp
      then show "switching ?root U {node} fs' \<and> node = Some (Symlink (fst x) (snd x))"
        using S read_link_current[OF _ run] by (simp add: switching_def)
    qed simp
  qed (use start l in \<open>auto simp: on_bird_def\<close>)
  have rest: "triple (bst (\<lambda>fs. switching ?root U {node} fs \<and>
         (\<forall>a t. r = Inr (a, t) \<longrightarrow> node = Some (Symlink a t))) l0)
     (and_then (switch_current E m (False, [''generations'', g])) (\<lambda>_.
      and_then (attempt (reload_bird E m)) (\<lambda>reload_result.
      case reload_result of
        Inl reload_error \<Rightarrow> restore_generation E m
          (case r of Inl _ \<Rightarrow> None | Inr target \<Rightarrow> Some target) reload_error
      | Inr _ \<Rightarrow> remove_old_generations E m g)))
     (\<lambda>_. on_bird (\<lambda>fs l. bird_layout ?root fs \<and> serves ?root fs files
       \<and> l = l0 @ [fs_get fs (current_path m)])) ?F" (is "triple ?P _ ?Q _") for r
  proof (cases "\<forall>a t. r = Inr (a, t) \<longrightarrow> node = Some (Symlink a t)")
    case True
    let ?target = "case r of Inl _ \<Rightarrow> None | Inr target \<Rightarrow> Some target"
    let ?L = "switching ?root U {link_node g}"
    have 2: "triple (bst (switching ?root U {node}) l0) (switch_current E m (False, [''generations'', g]))
        (\<lambda>_. bst ?L l0) ?F"
      unfolding switch_current_def
      by (rule triple_weaken[OF triple_switch[OF assms(1) g(1), of ?root U "{node}" l0]])
        (simp_all add: on_bird_def bad)
    let ?M = "\<lambda>r. on_bird (\<lambda>fs l. ?L fs \<and> (case r of Inr _ \<Rightarrow> l = l0 @ [link_node g] | Inl e \<Rightarrow> True))"
    have 3: "triple (bst ?L l0) (attempt (reload_bird E m)) ?M ?F"
      by (rule triple_attempt, rule triple_weaken[OF triple_reload[OF assms]], assumption)
        (auto simp: on_bird_def ok)
    have target: "plain_name t \<and> generation_in U t old_files \<and> (?target = None \<or> ?target = Some (False, [''generations'', t]))"
      if "old = Some (t, old_files)" for t old_files
      using old[OF that] True by (cases r) auto
    have 4: "triple (?M q)
        (case q of
          Inl reload_error \<Rightarrow> restore_generation E m ?target reload_error
        | Inr _ \<Rightarrow> remove_old_generations E m g) ?Q ?F" for q :: "peer_error + unit"
    proof (cases q)
      case (Inl e)
      have "triple (on_bird (\<lambda>fs _. ?L fs)) (restore_generation E m ?target e) ?Q ?F"
        by (rule triple_weaken[OF triple_restore[OF assms(1) g target]]) simp_all
      then show ?thesis by (simp add: Inl)
    next
      case (Inr u)
      have "triple (bst (ready ?root (Some (g, files))) (l0 @ [link_node g]))
          (remove_old_generations E m g) ?Q ?F"
        by (rule triple_weaken[OF triple_remove_old_generations[OF assms(1)]])
          (auto simp: on_bird_def ready_def kept_def serves_def links_to_def current_path_def)
      from triple_weaken[OF this, where P' = "?M q"] show ?thesis
        using ok by (simp add: Inr on_bird_def)
    qed
    show ?thesis
      by (rule triple_weaken[OF triple_and_then[OF 2 triple_and_then[OF 3 4]]])
        (auto simp: on_bird_def)
  qed (rule triple_false, simp add: on_bird_def)
  show "triple (\<lambda>v. v = w) (install_generation E m g)
      (\<lambda>_. on_bird (\<lambda>fs l. bird_layout ?root fs \<and> serves ?root fs files
       \<and> l = l0 @ [fs_get fs (current_path m)])) ?F"
    unfolding install_generation_def Let_def
    using triple_and_then[OF 1 rest] unfolding current_path_def by simp
qed

lemma triple_sync_bird_locked:
  assumes "respects_bird_lock E" "\<not> mocked E ''MOCK_BIRD''" "old = None \<or> honest_faults E"
  shows "triple (bst (kept (bird_conf_dir m) old) l0) (sync_bird_locked E m peers force_reload)
    (\<lambda>_. on_bird (\<lambda>fs l. \<exists>desired. desired_configs E m peers [] = Inr desired
       \<and> bird_layout (bird_conf_dir m) fs \<and> serves (bird_conf_dir m) fs (map_of desired)
       \<and> (\<not> force_reload \<and> l = l0 \<or> l = l0 @ [fs_get fs (current_path m)])))
    (\<lambda>e. on_bird (\<lambda>fs _. undamaged (bird_conf_dir m) old
       (case desired_configs E m peers [] of Inl _ \<Rightarrow> None | Inr desired \<Rightarrow> Some (map_of desired)) fs))"
    (is "triple _ _ ?Q ?F")
proof -
  let ?root = "bird_conf_dir m"
  have K: "bst (kept ?root old) l0 w \<Longrightarrow> ?F e w" for w and e :: peer_error
    using kept_undamaged by (simp add: on_bird_def)
  have 1: "triple (bst (kept ?root old) l0) (ensure_bird_layout E m) (\<lambda>_. bst (ready ?root old) l0) ?F"
    by (rule triple_weaken[OF triple_ensure_bird_layout[OF assms(1,3)] _ _ K], assumption+)
  have 2: "triple (bst (ready ?root old) l0) (lift_res (desired_configs E m peers []))
      (\<lambda>desired. bst (\<lambda>fs. ready ?root old fs \<and> desired_configs E m peers [] = Inr desired) l0) ?F"
    using kept_undamaged readyD(1) by (fastforce simp: triple_def on_bird_def split: sum.split)
  have 3: "triple (bst (\<lambda>fs. ready ?root old fs \<and> desired_configs E m peers [] = Inr desired) l0)
      (and_then (current_generation_matches E m desired) (\<lambda>same.
       if same then (if force_reload then reload_bird E m else ret ())
       else and_then (write_generation E m desired) (install_generation E m))) ?Q ?F" for desired
  proof (cases "desired_configs E m peers [] = Inr desired")
    case D: True
    have a: "triple (bst (ready ?root old) l0) (current_generation_matches E m desired)
        (\<lambda>same. bst (\<lambda>fs. ready ?root old fs \<and> (same \<longrightarrow> serves ?root fs (map_of desired))) l0) ?F"
      by (rule triple_weaken[OF triple_generation_matches[OF assms(1)] _ _ K], assumption+)
    have b: "triple (bst (\<lambda>fs. ready ?root old fs \<and> serves ?root fs (map_of desired)) l0)
        (if force_reload then reload_bird E m else ret ()) ?Q ?F"
    proof (cases force_reload)
      case True
      have "triple (bst (\<lambda>fs. ready ?root old fs \<and> serves ?root fs (map_of desired)) l0) (reload_bird E m) ?Q ?F"
        by (rule triple_weaken[OF triple_reload[OF assms(1,2)]], assumption)
          (auto simp: on_bird_def D readyD(2) kept_undamaged readyD(1))
      with True show ?thesis by simp
    next
      case False
      then show ?thesis by (auto simp: triple_def on_bird_def D readyD(2))
    qed
    have c: "triple (bst (ready ?root old) l0) (and_then (write_generation E m desired) (install_generation E m)) ?Q ?F"
    proof (rule triple_and_then)
      show "triple (bst (ready ?root old) l0) (write_generation E m desired)
          (\<lambda>g. bst (building ?root old g (map_of desired)) l0) ?F"
        by (rule triple_weaken[OF triple_write_generation[OF assms(1) desired_configs_names(2)[OF D]
                desired_configs_names(1)[OF D]] _ _ K], assumption+)
      show "triple (bst (building ?root old g (map_of desired)) l0) (install_generation E m g) ?Q ?F" for g
        by (rule triple_weaken[OF triple_install_generation[OF assms(1,2)]], assumption)
          (auto simp: on_bird_def D)
    qed
    have bc: "triple (bst (\<lambda>fs. ready ?root old fs \<and> (same \<longrightarrow> serves ?root fs (map_of desired))) l0)
        (if same then (if force_reload then reload_bird E m else ret ())
         else and_then (write_generation E m desired) (install_generation E m)) ?Q ?F" for same
      using b c by (cases same) simp_all
    show ?thesis
      by (rule triple_weaken[OF triple_and_then[OF a bc]]) (auto simp: on_bird_def)
  qed (rule triple_false, simp add: on_bird_def)
  show ?thesis
    unfolding sync_bird_locked_def
    by (rule triple_and_then[OF 1 triple_and_then[OF 2]]) (use 3 in \<open>simp add: eta_contract_eq\<close>)
qed

text \<open>The lock is free when it is taken; what is there then, others may have left.\<close>

lemma triple_sync_bird_configs_for:
  assumes "respects_bird_lock E" "\<not> mocked E ''MOCK_BIRD''" "old = None \<or> honest_faults E"
  shows "triple (\<lambda>w. kept (bird_conf_dir m) old (w_fs (await E w)) \<and> w_bird_log (await E w) = l0)
    (sync_bird_configs_for E m peers force_reload)
    (\<lambda>_ w. \<exists>desired. desired_configs E m peers [] = Inr desired
       \<and> bird_layout (bird_conf_dir m) (w_fs w) \<and> serves (bird_conf_dir m) (w_fs w) (map_of desired)
       \<and> (\<not> force_reload \<and> w_bird_log w = l0 \<or> w_bird_log w = l0 @ [fs_get (w_fs w) (current_path m)]))
    (\<lambda>e w. undamaged (bird_conf_dir m) old
       (case desired_configs E m peers [] of Inl _ \<Rightarrow> None | Inr desired \<Rightarrow> Some (map_of desired)) (w_fs w))"
  unfolding sync_bird_configs_for_def
  by (rule triple_with_bird_lock[OF _ triple_sync_bird_locked[OF assms]]) simp



section \<open>The files of the wanted peers\<close>

text \<open>The configuration that the peers ask for: one file for each wanted peer, named by its interface.\<close>

definition peer_files :: "env \<Rightarrow> peer_manager \<Rightarrow> peer list \<Rightarrow> rstr \<Rightarrow> rstr option" where
  "peer_files E m peers c =
     map_option (render_peer_config E m)
       (find (\<lambda>p. desired_status (p_status p) \<and> p_iface_name p @ ''.conf'' = c) peers)"

lemma desired_configs_ifaces:
  "desired_configs E m peers acc = Inr desired \<Longrightarrow> p \<in> set peers \<Longrightarrow> desired_status (p_status p) \<Longrightarrow>
   p_iface_name p = ''wgp'' @ show_u32 (p_peer_id p)"
  by (induction peers arbitrary: acc) (auto split: if_splits)

lemma collected_ids:
  assumes "collect_results (row_to_peer decode) rows = Inr peers" "distinct (map c_peer_id rows)"
  shows "distinct (map p_peer_id peers)"
proof -
  have l2: "list_all2 (\<lambda>r p. row_to_peer decode r = Inr p) rows peers"
    using assms(1) unfolding collect_results_Inr .
  have "list_all2 (\<lambda>r p. p_peer_id p = of_int (c_peer_id r) \<and> in_word_range 32 (c_peer_id r)) rows peers"
    using l2 by (rule list_all2_mono) (simp add: row_to_peer_fields(1,12))
  then have "list_all2 (\<lambda>r p. c_peer_id r = uint (p_peer_id p)) rows peers"
    by (rule list_all2_mono) (simp add: in_word_range_def unsigned_of_int take_bit_int_eq_self)
  then have "map c_peer_id rows = map (\<lambda>p. uint (p_peer_id p)) peers"
    by (induction rule: list_all2_induct) auto
  with assms(2) have "distinct (map uint (map p_peer_id peers))" by (simp add: comp_def)
  then show ?thesis using distinct_map by blast
qed

lemma desired_configs_files:
  assumes "desired_configs E m peers [] = Inr desired" "distinct (map p_peer_id peers)"
  shows "map_of desired = peer_files E m peers"
proof -
  let ?wanted = "filter (\<lambda>p. desired_status (p_status p)) peers"
  have "map p_iface_name ?wanted = map (\<lambda>i. ''wgp'' @ show_u32 i) (map p_peer_id ?wanted)"
    using desired_configs_ifaces[OF assms(1)] by simp
  moreover have "inj (\<lambda>i. ''wgp'' @ show_u32 i)"
    by (rule injI) (metis append_eq_append_conv option.inject u32_text.prs_shw same_append_eq)
  moreover have "distinct (map p_peer_id ?wanted)" using assms(2) by (rule distinct_map_filter)
  ultimately have "distinct (map p_iface_name ?wanted)"
    by (simp only: distinct_map[of "\<lambda>i. ''wgp'' @ show_u32 i"]) (meson inj_on_subset subset_UNIV)
  from desired_configs_map[OF assms(1) this] show ?thesis
    by (auto simp: peer_files_def fun_eq_iff split: option.split)
qed



section \<open>What a synchronisation achieves\<close>

lemma list_peers_bird:
  "quiet E \<Longrightarrow> list_peers E w = (r, w') \<Longrightarrow> w_fs w' = w_fs w \<and> w_bird_log w' = w_bird_log w"
  using keepsD[OF store_keeps(11)[of E bird_view]] by (fastforce simp: bird_view_def)

lemma distinct_order_rows: "distinct (map f rows) \<Longrightarrow> distinct (map f (order_rows le rows))"
  by (metis mset_eq_imp_distinct_iff mset_map mset_order_rows)

lemma list_peers_valid:
  assumes "stable E db_inv" "db_inv w" "list_peers E w = (Inr peers, w1)"
  shows "\<exists>v. db_inv v \<and> collect_results (row_to_peer (b64_decode E)) (order_rows (collation E) (w_peers v)) = Inr peers"
proof -
  have "db_inv (await E (await E w))" using assms(1,2) by (simp add: stable_def)
  moreover have "collect_results (row_to_peer (b64_decode E)) (order_rows (collation E) (w_peers (await E (await E w)))) = Inr peers"
    using assms(3) by (auto simp: list_peers_def acquire_def execute_def sql_select_def and_then_Inr ext_call_Inr)
  ultimately show ?thesis by blast
qed

text \<open>Whatever others do meanwhile, the files are those of the peers that were listed.\<close>

lemma sync_bird_configs_served:
  assumes "respects_bird_lock E" "\<not> mocked E ''MOCK_BIRD''" "stable E db_inv" "db_inv w"
    and list: "list_peers E w = (Inr peers, w1)" and lay: "bird_layout (bird_conf_dir m) (w_fs (await E w1))"
    and run: "sync_bird_configs E m w = (Inr (), w')"
  shows "serves (bird_conf_dir m) (w_fs w') (peer_files E m peers)
    \<and> bird_layout (bird_conf_dir m) (w_fs w')
    \<and> (w_bird_log w' = w_bird_log (await E w1)
       \<or> w_bird_log w' = w_bird_log (await E w1) @ [fs_get (w_fs w') (current_path m)])
    \<and> distinct (map p_peer_id peers)
    \<and> (\<forall>p\<in>set peers. desired_status (p_status p) \<longrightarrow> p_iface_name p = ''wgp'' @ show_u32 (p_peer_id p))"
proof -
  have sync: "sync_bird_configs_for E m peers False w1 = (Inr (), w')"
    using run list by (auto simp: sync_bird_configs_def and_then_Inr)
  obtain v where v: "db_inv v" "collect_results (row_to_peer (b64_decode E)) (order_rows (collation E) (w_peers v)) = Inr peers"
    using list_peers_valid[OF assms(3,4) list] by blast
  then have "distinct (map c_peer_id (order_rows (collation E) (w_peers v)))"
    by (intro distinct_order_rows) (simp add: db_inv_def peers_unique_def)
  from collected_ids[OF v(2) this] have ids: "distinct (map p_peer_id peers)" .
  have "kept (bird_conf_dir m) None (w_fs (await E w1)) \<and> w_bird_log (await E w1) = w_bird_log (await E w1)"
    using lay by (simp add: kept_def)
  from triple_Inr[OF triple_sync_bird_configs_for[OF assms(1,2)] this sync]
  obtain desired where d: "desired_configs E m peers [] = Inr desired"
    and post: "serves (bird_conf_dir m) (w_fs w') (map_of desired)" "bird_layout (bird_conf_dir m) (w_fs w')"
      "w_bird_log w' = w_bird_log (await E w1)
       \<or> w_bird_log w' = w_bird_log (await E w1) @ [fs_get (w_fs w') (current_path m)]"
    by blast
  with ids desired_configs_ifaces[OF d] show ?thesis unfolding desired_configs_files[OF d ids] by blast
qed

lemma quiet_stable: "quiet E \<Longrightarrow> stable E db_inv"
  by (simp add: stable_def await_quiet db_inv_def)

lemma sync_bird_configs_run:
  assumes "quiet E" "\<not> mocked E ''MOCK_BIRD''" "bird_layout (bird_conf_dir m) (w_fs w)" "db_inv w"
    and "sync_bird_configs E m w = (Inr (), w')"
  shows "\<exists>peers. collect_results (row_to_peer (b64_decode E)) (order_rows (collation E) (w_peers w)) = Inr peers
    \<and> serves (bird_conf_dir m) (w_fs w') (peer_files E m peers)
    \<and> bird_layout (bird_conf_dir m) (w_fs w')
    \<and> (w_bird_log w' = w_bird_log w
       \<or> w_bird_log w' = w_bird_log w @ [fs_get (w_fs w') (current_path m)])
    \<and> db_view w' = db_view w
    \<and> distinct (map p_peer_id peers)
    \<and> (\<forall>p\<in>set peers. desired_status (p_status p) \<longrightarrow> p_iface_name p = ''wgp'' @ show_u32 (p_peer_id p))"
proof -
  obtain peers w1 where list: "list_peers E w = (Inr peers, w1)"
    using assms(5) by (auto simp: sync_bird_configs_def and_then_Inr)
  have w1: "w_fs (await E w1) = w_fs w" "w_bird_log (await E w1) = w_bird_log w"
    and read: "collect_results (row_to_peer (b64_decode E)) (order_rows (collation E) (w_peers w)) = Inr peers"
    using list_peers_bird[OF assms(1) list] list_peers_ok[OF assms(1) list] by (simp_all add: await_quiet[OF assms(1)])
  have "db_view w' = db_view w"
    using keepsD[OF bird_keeps(2)[OF assms(1), of db_view] assms(5)] keepsD[OF bird_keeps(1)[OF assms(1), of db_view]]
      list_peers_ok[OF assms(1) list] assms(5) list by (auto simp: sync_bird_configs_def and_then_Inr)
  with sync_bird_configs_served[OF quiet_respects[OF assms(1)] assms(2) quiet_stable[OF assms(1)] assms(4) list _ assms(5)]
    read assms(3) w1 show ?thesis by simp
qed

text \<open>
  C19. When \<open>sync_bird_configs\<close> succeeds, the \<open>current\<close> link leads to a generation whose \<open>.conf\<close>
  files are exactly one for each wanted peer that it listed, under the name of its interface and with
  its rendered configuration; and if BIRD was told to configure itself, \<open>current\<close> was this link then.
  This holds whatever other tasks do at every \<open>await\<close>, as long as they keep the tables valid and
  the files well-formed and respect the lock. If nothing interferes, the peers are those of the database.
\<close>

theorem sync_bird_configs_correct:
  assumes "respects_bird_lock E" "\<not> mocked E ''MOCK_BIRD''" "stable E db_inv" "db_inv w"
    and "list_peers E w = (Inr peers, w1)" "bird_layout (bird_conf_dir m) (w_fs (await E w1))"
    and "sync_bird_configs E m w = (Inr (), w')"
  shows "serves (bird_conf_dir m) (w_fs w') (peer_files E m peers)
    \<and> bird_layout (bird_conf_dir m) (w_fs w')
    \<and> (w_bird_log w' = w_bird_log (await E w1)
       \<or> w_bird_log w' = w_bird_log (await E w1) @ [fs_get (w_fs w') (current_path m)])
    \<and> (quiet E \<longrightarrow> collect_results (row_to_peer (b64_decode E)) (order_rows (collation E) (w_peers w)) = Inr peers
         \<and> db_view w' = db_view w)"
proof -
  have "collect_results (row_to_peer (b64_decode E)) (order_rows (collation E) (w_peers w)) = Inr peers
         \<and> db_view w' = db_view w" if "quiet E"
    using list_peers_ok[OF that assms(5)] assms(5,7) keepsD[OF bird_keeps(1)[OF that, of db_view]]
    by (auto simp: sync_bird_configs_def and_then_Inr)
  with sync_bird_configs_served[OF assms] show ?thesis by blast
qed

definition sample_manager :: peer_manager where
  "sample_manager = \<lparr>bird_conf_dir = [], bird_socket = [], local_wg_privkey = [],
     local_wg_pubkey = [], public_endpoint = [], local_asn = 7\<rparr>"

lemma bird_layout_fresh: "bird_layout [] []"
  by (simp add: bird_layout_def fs_tree_def fs_get_def)

lemma sample_sync:
  assumes "w_fs w = []"
  shows "\<exists>w'. sync_bird_configs_for sample_env sample_manager
    [sample_peer\<lparr>p_status := Provisioning\<rparr>] False w = (Inr (), w')"
proof -
  have five: "show_u32 5 = ''5''" by code_simp
  show ?thesis
    by (simp add: assms five sync_bird_configs_for_def sync_bird_locked_def with_lock_def and_then_def attempt_def ensure_bird_layout_def
        generations_path_def current_path_def sample_manager_def fs_io_def ext_call_def Let_def
        sample_peer_def create_dir_all_def resolve_def locate_def look_def
        new_entry_def symlink_metadata_def symlink_def switch_current_def atomic_switch_current_def
        rename_def fs_get_def fs_put_def fs_del_def read_nanos_def unique_suffix_def
        sync_directory_def open_existing_def fs_touch_def not_found_io_def enoent_def map_err_def
        eval_nat_numeral current_generation_matches_def generation_matches_def read_dir_def
        children_def write_generation_def create_dir_def write_atomic_def metadata_def
        open_truncate_def write_all_def install_generation_def read_link_def reload_bird_def
        reload_bird_inner_def final_line_def configure_received_def remove_old_generations_def
        starts_with_def ends_with_def)
qed

lemma sample_list_peers:
  "\<exists>w'. list_peers sample_env (empty_world\<lparr>w_peers := [reserved_row sample_peer 9]\<rparr>)
     = (Inr [sample_peer\<lparr>p_status := Provisioning\<rparr>], w') \<and> w_fs w' = []"
  by (simp add: list_peers_def acquire_def execute_def and_then_def ext_call_def sql_select_def
      order_rows_def read_reserved_row empty_world_def)

theorem sync_bird_configs_correct_witness:
  "\<exists>w'. sync_bird_configs sample_env sample_manager
      (empty_world\<lparr>w_peers := [reserved_row sample_peer 9]\<rparr>) = (Inr (), w')
    \<and> serves [] (w_fs w') (peer_files sample_env sample_manager [sample_peer\<lparr>p_status := Provisioning\<rparr>])"
proof -
  let ?w = "empty_world\<lparr>w_peers := [reserved_row sample_peer 9]\<rparr>"
  obtain w1 where list: "list_peers sample_env ?w = (Inr [sample_peer\<lparr>p_status := Provisioning\<rparr>], w1)"
    and fs: "w_fs w1 = []"
    using sample_list_peers by blast
  obtain w' where "sync_bird_configs sample_env sample_manager ?w = (Inr (), w')"
    using sample_sync[OF fs] list by (auto simp: sync_bird_configs_def and_then_def)
  moreover have "char_count (p_peer_name sample_peer) \<le> 32" by code_simp
  then have "db_inv ?w"
    by (simp add: db_inv_def empty_world_def peers_unique_def events_ok_def)
  moreover have "bird_layout (bird_conf_dir sample_manager) (w_fs (await sample_env w1))"
    using bird_layout_fresh fs by (simp add: sample_manager_def)
  moreover have "respects_bird_lock sample_env" "stable sample_env db_inv"
    using quiet_respects quiet_stable sample_env_quiet by blast+
  ultimately show ?thesis
    using sync_bird_configs_correct[of sample_env ?w _ w1 sample_manager w'] list by (auto simp: sample_manager_def)
qed

text \<open>
  C20. Whatever call of a synchronisation fails, with or without its effect, \<open>current\<close> never leads to
  a partial configuration: it leads to the generation that was there when the lock was taken or to the
  complete new one, or it is gone (when reading it failed and BIRD then refused the new generation). This
  holds with other tasks running, which respect the lock.
\<close>

theorem sync_bird_never_partial:
  assumes "respects_bird_lock E" "\<not> mocked E ''MOCK_BIRD''" "honest_faults E"
    and "bird_layout (bird_conf_dir m) (w_fs (await E w))" "serves (bird_conf_dir m) (w_fs (await E w)) files"
    and "sync_bird_configs_for E m peers force_reload w = (result, w')"
  shows "bird_layout (bird_conf_dir m) (w_fs w')
    \<and> (serves (bird_conf_dir m) (w_fs w') files
      \<or> (\<exists>desired. desired_configs E m peers [] = Inr desired
           \<and> serves (bird_conf_dir m) (w_fs w') (map_of desired))
      \<or> fs_get (w_fs w') (current_path m) = None)"
proof -
  obtain t where t: "links_to (bird_conf_dir m) (w_fs (await E w)) t" "plain_name t"
    "gen_serves (w_fs (await E w)) (gen (bird_conf_dir m) t) files"
    using assms(5) by (auto simp: serves_def)
  then have "kept (bird_conf_dir m) (Some (t, files)) (w_fs (await E w)) \<and> w_bird_log (await E w) = w_bird_log (await E w)"
    using assms(4) by (simp add: kept_def)
  note run = triple_Inr[OF triple_sync_bird_configs_for[OF assms(1,2)] this]
    triple_Inl[OF triple_sync_bird_configs_for[OF assms(1,2)] this]
  show ?thesis
  proof (cases result)
    case (Inl e)
    from run(2)[OF disjI2[OF assms(3)] assms(6)[unfolded Inl]] show ?thesis
      by (auto simp: undamaged_def current_path_def split: sum.splits)
  next
    case (Inr u)
    from run(1)[OF disjI2[OF assms(3)] assms(6)[unfolded Inr]] show ?thesis by auto
  qed
qed

definition served_world :: world where
  "served_world = empty_world\<lparr>w_fs := [([''generations''], Dir), ([''generations'', ''empty''], Dir),
     ([''current''], Symlink False [''generations'', ''empty''])]\<rparr>"

lemma served_world_ok:
  "bird_layout [] (w_fs served_world)" "serves [] (w_fs served_world) (\<lambda>_. None)"
proof -
  let ?fs = "[([''generations''], Dir), ([''generations'', ''empty''], Dir),
     ([''current''], Symlink False [''generations'', ''empty''])]"
  have get: "fs_get ?fs p = (if p \<in> {[], [''generations''], [''generations'', ''empty'']} then Some Dir
      else if p = [''current''] then Some (Symlink False [''generations'', ''empty'']) else None)" for p
    by (simp add: fs_get_def)
  have "plain_name ''empty''" by (simp add: plain_name_def)
  then show "bird_layout [] (w_fs served_world)"
    unfolding bird_layout_def fs_tree_def links_to_def by (auto simp: served_world_def get)
  show "serves [] (w_fs served_world) (\<lambda>_. None)"
    unfolding serves_def gen_serves_def links_to_def using \<open>plain_name ''empty''\<close>
    by (auto simp: served_world_def get)
qed

theorem sync_bird_never_partial_witness:
  "\<exists>w'. w' = snd (sync_bird_configs_for sample_env sample_manager [sample_peer] True served_world)
    \<and> bird_layout [] (w_fs w')
    \<and> (serves [] (w_fs w') (\<lambda>_. None)
      \<or> (\<exists>desired. desired_configs sample_env sample_manager [sample_peer] [] = Inr desired
           \<and> serves [] (w_fs w') (map_of desired))
      \<or> fs_get (w_fs w') [''current''] = None)"
proof -
  obtain r w' where run: "sync_bird_configs_for sample_env sample_manager [sample_peer] True served_world = (r, w')"
    by (cases "sync_bird_configs_for sample_env sample_manager [sample_peer] True served_world")
  have "honest_faults sample_env" by (simp add: honest_faults_def)
  moreover have "respects_bird_lock sample_env" using quiet_respects by simp
  ultimately show ?thesis
    using sync_bird_never_partial[of sample_env sample_manager served_world "\<lambda>_. None" "[sample_peer]" True r w']
      run served_world_ok by (simp add: sample_manager_def current_path_def)
qed

end
