(* ===== verification/Store.thy ===== *)
theory Store
  imports Persist
begin

text \<open>
  The tables as a specification: a finite map from ids to peers in which listen ports and names are
  keys too, and a finite map of live nonces. The statements of \<open>Persist\<close> implement it.
\<close>

section \<open>Refinement of operations\<close>

locale step_refinement =
  fixes inv :: "'s \<Rightarrow> bool" and abs :: "'s \<Rightarrow> 'a" and legal :: "'o \<Rightarrow> bool"
    and step :: "'o \<Rightarrow> 's \<Rightarrow> bool \<times> 's" and astep :: "'o \<Rightarrow> 'a \<Rightarrow> bool \<times> 'a"
  assumes inv_step: "inv s \<Longrightarrow> legal op \<Longrightarrow> inv (snd (step op s))"
    and simulates: "inv s \<Longrightarrow> legal op \<Longrightarrow>
      astep op (abs s) = (fst (step op s), abs (snd (step op s)))"
begin

text \<open>Every run of the implementation is a run of the specification, with the same answers.\<close>

lemma runs_refine:
  "inv s \<Longrightarrow> list_all legal ops \<Longrightarrow> run_ops step ops s = (rs, s') \<Longrightarrow>
   run_ops astep ops (abs s) = (rs, abs s') \<and> inv s'"
proof (induction ops arbitrary: s rs)
  case (Cons op ops)
  obtain b s1 where step: "step op s = (b, s1)" by (cases "step op s")
  obtain rs' where rest: "run_ops step ops s1 = (rs', s')" and rs: "rs = (op, b) # rs'"
    using Cons.prems(3) step by (auto split: prod.splits)
  have "inv s1" "astep op (abs s) = (b, abs s1)"
    using inv_step[OF Cons.prems(1), of op] simulates[OF Cons.prems(1), of op] Cons.prems(2) step
    by simp_all
  with Cons.IH[OF _ _ rest] Cons.prems(2) rs show ?case by simp
qed simp

end

section \<open>The specification\<close>

record book =
  bk_peers :: "int \<rightharpoonup> peer_row"
  bk_nonces :: "rstr \<rightharpoonup> int \<times> int"

definition clashes :: "peer_row \<Rightarrow> (int \<rightharpoonup> peer_row) \<Rightarrow> bool" where
  "clashes r peers =
     (\<exists>x\<in>ran peers. c_peer_id x = c_peer_id r \<or> c_listen_port x = c_listen_port r
        \<or> identity_of x = identity_of r)"

fun book_step :: "db_op \<Rightarrow> book \<Rightarrow> bool \<times> book" where
  "book_step (InsertNonce nonce asn t) b =
     (if bk_nonces b nonce \<noteq> None then (False, b)
      else (True, b\<lparr>bk_nonces := (bk_nonces b)(nonce \<mapsto> (asn, t))\<rparr>))"
| "book_step (ConsumeNonce nonce asn t now) b =
     (if bk_nonces b nonce = Some (asn, t) \<and> now \<le> t
      then (True, b\<lparr>bk_nonces := (bk_nonces b)(nonce := None)\<rparr>) else (False, b))"
| "book_step (DeleteExpiredNonces now) b =
     (True, b\<lparr>bk_nonces := (\<lambda>n. case bk_nonces b n of
        Some (asn, t) \<Rightarrow> if t < now then None else Some (asn, t) | None \<Rightarrow> None)\<rparr>)"
| "book_step (InsertPeer r) b =
     (case varchar 32 (c_peer_name r) of
        None \<Rightarrow> (False, b)
      | Some name \<Rightarrow>
          (let r = r\<lparr>c_peer_name := name\<rparr> in
           if clashes r (bk_peers b) then (False, b)
           else (True, b\<lparr>bk_peers := (bk_peers b)(c_peer_id r \<mapsto> r)\<rparr>)))"
| "book_step (UpdatePeer f pid) b =
     (case bk_peers b pid of
        None \<Rightarrow> (False, b)
      | Some r \<Rightarrow>
          if clashes (f r) ((bk_peers b)(pid := None)) then (False, b)
          else (True, b\<lparr>bk_peers := (bk_peers b)(pid \<mapsto> f r)\<rparr>))"
| "book_step (DeletePeer pid) b =
     (bk_peers b pid \<noteq> None, b\<lparr>bk_peers := (bk_peers b)(pid := None)\<rparr>)"
| "book_step (DeleteEvent eid) b = (True, b)"
| "book_step NextPeerId b = (True, b)"

text \<open>The updates the service issues leave the id and the name of a row alone.\<close>

fun keeps_keys :: "db_op \<Rightarrow> bool" where
  "keeps_keys (UpdatePeer f pid) =
     (\<forall>r. c_peer_id (f r) = c_peer_id r \<and> c_peer_name (f r) = c_peer_name r)"
| "keeps_keys _ = True"

lemma service_updates_keep_keys:
  "keeps_keys (UpdatePeer (\<lambda>r. r\<lparr>c_status := s, r_updated_at := now\<rparr>) pid)"
  "keeps_keys (UpdatePeer (desired_columns p now) pid)"
  by simp_all

definition book_of :: "world \<Rightarrow> book" where
  "book_of w =
     \<lparr>bk_peers = map_of (map (\<lambda>r. (c_peer_id r, r)) (w_peers w)),
      bk_nonces = map_of (map (\<lambda>n. (n_nonce n, (n_asn n, n_expires_at n))) (w_nonces w))\<rparr>"

section \<open>Rows by key\<close>

lemma ran_by_id:
  "distinct (map c_peer_id rows) \<Longrightarrow> ran (map_of (map (\<lambda>r. (c_peer_id r, r)) rows)) = set rows"
  by (subst ran_distinct) (auto simp: comp_def image_image)

lemma conflicts_clashes:
  "distinct (map c_peer_id rows) \<Longrightarrow>
   conflicts r rows = clashes r (map_of (map (\<lambda>r. (c_peer_id r, r)) rows))"
  by (simp add: conflicts_def clashes_def ran_by_id list_ex_iff)

lemma by_id_hit:
  "distinct (map c_peer_id rows) \<Longrightarrow>
   filter (\<lambda>r. c_peer_id r = pid) rows =
     (case map_of (map (\<lambda>r. (c_peer_id r, r)) rows) pid of None \<Rightarrow> [] | Some r \<Rightarrow> [r])"
proof (induction rows)
  case (Cons r rows)
  have "pid = c_peer_id r \<Longrightarrow> filter (\<lambda>r. c_peer_id r = pid) rows = []"
    using Cons.prems by (auto simp: filter_empty_conv) (metis imageI)
  then show ?case using Cons by auto
qed simp

lemma by_id_update:
  "distinct (map c_peer_id rows) \<Longrightarrow> (\<And>r. c_peer_id (f r) = c_peer_id r) \<Longrightarrow>
   map_of (map (\<lambda>r. (c_peer_id r, r)) (map (\<lambda>r. if c_peer_id r = pid then f r else r) rows)) =
     (let m = map_of (map (\<lambda>r. (c_peer_id r, r)) rows) in
      case m pid of None \<Rightarrow> m | Some r \<Rightarrow> m(pid \<mapsto> f r))"
proof (induction rows)
  case (Cons r rows)
  have "c_peer_id r = pid \<Longrightarrow> map (\<lambda>r. if c_peer_id r = pid then f r else r) rows = rows"
    using Cons.prems(1) by (auto intro!: map_idI) (metis imageI)
  then show ?case using Cons by (auto simp: Let_def split: option.splits)
qed simp

lemma by_id_delete:
  "map_of (map (\<lambda>r. (c_peer_id r, r)) (filter (\<lambda>r. c_peer_id r \<noteq> pid) rows)) =
     (map_of (map (\<lambda>r. (c_peer_id r, r)) rows))(pid := None)"
  by (induction rows) (auto simp: fun_eq_iff)

lemma distinct_map_replaced:
  "distinct (map k (pre @ r # post)) \<Longrightarrow>
   distinct (map k (pre @ x # post)) \<longleftrightarrow> k x \<notin> k ` set (pre @ post)"
  by (auto simp: image_Un)

lemma unique_after_update:
  assumes U: "peers_unique rows" and id: "\<And>r. c_peer_id (f r) = c_peer_id r"
  shows "peers_unique (map (\<lambda>r. if c_peer_id r = pid then f r else r) rows) =
    (case map_of (map (\<lambda>r. (c_peer_id r, r)) rows) pid of None \<Rightarrow> True
     | Some r \<Rightarrow> \<not> clashes (f r) ((map_of (map (\<lambda>r. (c_peer_id r, r)) rows))(pid := None)))"
proof (cases "map_of (map (\<lambda>r. (c_peer_id r, r)) rows) pid")
  case None
  then have "map (\<lambda>r. if c_peer_id r = pid then f r else r) rows = rows"
    by (auto simp: map_of_eq_None_iff image_image intro!: map_idI)
  with None U show ?thesis by simp
next
  case (Some r)
  have ids: "distinct (map c_peer_id rows)" using U by (simp add: peers_unique_def)
  from Some have r: "r \<in> set rows" "c_peer_id r = pid" by (auto dest!: map_of_SomeD)
  then obtain pre post where rows: "rows = pre @ r # post" by (meson split_list)
  with ids r have others: "x \<in> set (pre @ post) \<Longrightarrow> c_peer_id x \<noteq> pid" for x
    by (auto simp: image_iff)
  have updated: "map (\<lambda>r. if c_peer_id r = pid then f r else r) rows = pre @ f r # post"
    using others r(2) by (auto simp: rows intro!: map_idI)
  have rest: "filter (\<lambda>r. c_peer_id r \<noteq> pid) rows = pre @ post"
    using others r(2) by (auto simp: rows intro!: filter_True)
  have "peers_unique (pre @ f r # post) = (\<not> conflicts (f r) (pre @ post))"
  proof -
    have D: "distinct (map c_peer_id (pre @ r # post))" "distinct (map c_listen_port (pre @ r # post))"
      "distinct (map identity_of (pre @ r # post))"
      using U by (simp_all add: peers_unique_def rows)
    show ?thesis
      unfolding peers_unique_def distinct_map_replaced[OF D(1)] distinct_map_replaced[OF D(2)]
        distinct_map_replaced[OF D(3)]
      unfolding conflicts_def list_ex_iff image_iff by metis
  qed
  also have "\<dots> = (\<not> clashes (f r) (map_of (map (\<lambda>r. (c_peer_id r, r)) (pre @ post))))"
    using ids by (subst conflicts_clashes) (auto simp: rows)
  finally show ?thesis
    by (simp only: updated Some option.case by_id_delete[symmetric] rest)
qed

section \<open>Nonces by key\<close>

abbreviation by_nonce :: "nonce_row list \<Rightarrow> rstr \<rightharpoonup> int \<times> int" where
  "by_nonce ns \<equiv> map_of (map (\<lambda>n. (n_nonce n, (n_asn n, n_expires_at n))) ns)"

lemma by_nonce_filter:
  "distinct (map n_nonce ns) \<Longrightarrow>
   by_nonce (filter P ns) k =
     (case find (\<lambda>n. n_nonce n = k) ns of
        None \<Rightarrow> None | Some n \<Rightarrow> if P n then Some (n_asn n, n_expires_at n) else None)"
proof (induction ns)
  case (Cons n ns)
  have "k = n_nonce n \<Longrightarrow> find (\<lambda>n. n_nonce n = k) ns = None"
    using Cons.prems by (auto simp: find_None_iff) (metis imageI)
  then show ?case using Cons by auto
qed simp

lemma by_nonce_find:
  "by_nonce ns k = map_option (\<lambda>n. (n_asn n, n_expires_at n)) (find (\<lambda>n. n_nonce n = k) ns)"
  by (induction ns) auto

lemma consumed_count:
  "distinct (map n_nonce ns) \<Longrightarrow>
   length (filter (nonce_matches k asn t now) ns) =
     (if by_nonce ns k = Some (asn, t) \<and> now \<le> t then 1 else 0)"
proof (induction ns)
  case (Cons n ns)
  have "n_nonce n = k \<Longrightarrow> by_nonce ns k = None"
    using Cons.prems by (auto simp: by_nonce_find find_None_iff) (metis imageI)
  then show ?case using Cons by (auto simp: nonce_matches_def)
qed simp


section \<open>The tables implement the book\<close>

lemma find_distinct_nonce: "find (\<lambda>n. n_nonce n = k) ns = Some n \<Longrightarrow> n_nonce n = k \<and> n \<in> set ns"
  by (auto simp: find_Some_iff)

lemma book_of_nonces:
  assumes "distinct (map n_nonce ns)"
  shows "by_nonce (filter (\<lambda>n. \<not> nonce_matches nonce asn t now n) ns) =
      (if by_nonce ns nonce = Some (asn, t) \<and> now \<le> t then (by_nonce ns)(nonce := None) else by_nonce ns)"
    "by_nonce (filter (\<lambda>n. \<not> n_expires_at n < now) ns) = (\<lambda>n. case by_nonce ns n of
        Some (asn, t) \<Rightarrow> if t < now then None else Some (asn, t) | None \<Rightarrow> None)"
proof -
  show "by_nonce (filter (\<lambda>n. \<not> n_expires_at n < now) ns) = (\<lambda>n. case by_nonce ns n of
        Some (asn, t) \<Rightarrow> if t < now then None else Some (asn, t) | None \<Rightarrow> None)"
  proof
    fix k
    show "by_nonce (filter (\<lambda>n. \<not> n_expires_at n < now) ns) k = (case by_nonce ns k of
        Some (asn, t) \<Rightarrow> if t < now then None else Some (asn, t) | None \<Rightarrow> None)"
      unfolding by_nonce_filter[OF assms] by_nonce_find[of ns k]
      by (cases "find (\<lambda>n. n_nonce n = k) ns") simp_all
  qed
  show "by_nonce (filter (\<lambda>n. \<not> nonce_matches nonce asn t now n) ns) =
      (if by_nonce ns nonce = Some (asn, t) \<and> now \<le> t then (by_nonce ns)(nonce := None) else by_nonce ns)"
  proof
    fix k
    have "by_nonce (filter (\<lambda>n. \<not> nonce_matches nonce asn t now n) ns) k =
        (if by_nonce ns nonce = Some (asn, t) \<and> now \<le> t \<and> k = nonce then None else by_nonce ns k)"
    proof (cases "find (\<lambda>n. n_nonce n = k) ns")
      case None
      then show ?thesis unfolding by_nonce_filter[OF assms] by_nonce_find[of ns k] by simp
    next
      case (Some n)
      then have "n_nonce n = k" using find_distinct_nonce by blast
      then have "nonce_matches nonce asn t now n =
          (k = nonce \<and> Some (n_asn n, n_expires_at n) = Some (asn, t) \<and> now \<le> t)"
        by (auto simp: nonce_matches_def)
      then show ?thesis
        unfolding by_nonce_filter[OF assms] using Some by_nonce_find[of ns k]
        by (cases "k = nonce") simp_all
    qed
    then show "by_nonce (filter (\<lambda>n. \<not> nonce_matches nonce asn t now n) ns) k =
        (if by_nonce ns nonce = Some (asn, t) \<and> now \<le> t then (by_nonce ns)(nonce := None)
         else by_nonce ns) k" by simp
  qed
qed

lemma sql_update_peers:
  "peers_unique (map (\<lambda>r. if c_peer_id r = pid then f r else r) (w_peers w)) \<Longrightarrow>
   w_peers (snd (sql_update_peer f pid w)) = map (\<lambda>r. if c_peer_id r = pid then f r else r) (w_peers w)
   \<and> fst (sql_update_peer f pid w) = Inr (length (filter (\<lambda>r. c_peer_id r = pid) (w_peers w)))"
  unfolding sql_update_peer_def Let_def by (simp add: enqueue_fold)

lemma sql_delete_peers:
  "w_peers (snd (sql_delete_peer pid w)) = filter (\<lambda>r. c_peer_id r \<noteq> pid) (w_peers w)
   \<and> fst (sql_delete_peer pid w) = Inr (length (filter (\<lambda>r. c_peer_id r = pid) (w_peers w)))"
  unfolding sql_delete_peer_def Let_def using enqueue_fold_id by simp

interpretation tables: step_refinement db_inv book_of keeps_keys db_step book_step
proof
  fix op and w :: world
  assume "db_inv w" "keeps_keys op"
  then show "db_inv (snd (db_step op w))"
    by (cases op) (simp_all add: one_row_def sql_insert_peer_inv sql_update_peer_inv identity_of_def
        sql_delete_peer_inv sql_nonce_inv sql_other_inv)
next
  fix op and w :: world
  assume inv: "db_inv w" and legal: "keeps_keys op"
  have ids: "distinct (map c_peer_id (w_peers w))" and nonces: "distinct (map n_nonce (w_nonces w))"
    using db_invD(1,2)[OF inv] by (simp_all add: peers_unique_def)
  show "book_step op (book_of w) = (fst (db_step op w), book_of (snd (db_step op w)))"
  proof (cases op)
    case (InsertNonce nonce asn t)
    have "(bk_nonces (book_of w) nonce = None) = (nonce \<notin> n_nonce ` set (w_nonces w))"
      by (simp add: book_of_def map_of_eq_None_iff image_image)
    then show ?thesis
      using InsertNonce by (auto simp: one_row_def sql_insert_nonce_def book_of_def map_add_def fun_eq_iff
          split: option.split)
  next
    case (ConsumeNonce nonce asn t now)
    then show ?thesis
      by (simp add: one_row_def sql_consume_nonce_def book_of_def consumed_count[OF nonces]
          book_of_nonces(1)[OF nonces])
  next
    case (DeleteExpiredNonces now)
    then show ?thesis
      by (simp add: sql_delete_expired_nonces_def book_of_def book_of_nonces(2)[OF nonces])
  next
    case (InsertPeer r)
    show ?thesis
    proof (cases "varchar 32 (c_peer_name r)")
      case None
      then show ?thesis by (simp add: InsertPeer one_row_def sql_insert_peer_def)
    next
      case (Some name)
      let ?r = "r\<lparr>c_peer_name := name\<rparr>"
      have c: "conflicts ?r (w_peers w) = clashes ?r (bk_peers (book_of w))"
        using conflicts_clashes[OF ids] by (simp add: book_of_def)
      have "\<not> conflicts ?r (w_peers w) \<Longrightarrow> map_of (map (\<lambda>r. (c_peer_id r, r)) (w_peers w)) (c_peer_id r) = None"
        by (auto simp: conflicts_def list_ex_iff map_of_eq_None_iff image_image)
      then have "\<not> conflicts ?r (w_peers w) \<Longrightarrow>
          map_of (map (\<lambda>r. (c_peer_id r, r)) (w_peers w @ [?r])) =
          (map_of (map (\<lambda>r. (c_peer_id r, r)) (w_peers w)))(c_peer_id r \<mapsto> ?r)"
        by (auto simp: map_add_def fun_eq_iff split: option.split)
      then show ?thesis using c Some
        by (simp add: InsertPeer one_row_def sql_insert_peer_def Let_def book_of_def
            enqueue_peer_change_def)
    qed
  next
    case (UpdatePeer f pid)
    then have id: "c_peer_id (f r) = c_peer_id r" for r using legal by simp
    let ?rows = "map (\<lambda>r. if c_peer_id r = pid then f r else r) (w_peers w)"
    note unique = unique_after_update[OF db_invD(1)[OF inv] id, of pid]
    show ?thesis
    proof (cases "peers_unique ?rows")
      case True
      from sql_update_peers[OF this] by_id_update[OF ids id, of pid] by_id_hit[OF ids, of pid] True
      show ?thesis unfolding unique
        by (auto simp: UpdatePeer one_row_def book_of_def peer_statements_keep_nonces Let_def
            split: option.splits)
    next
      case False
      then have "sql_update_peer f pid w = (Inl unique_violation, w)" by (simp add: sql_update_peer_def)
      with False show ?thesis unfolding unique
        by (auto simp: UpdatePeer one_row_def book_of_def split: option.splits)
    qed
  next
    case (DeletePeer pid)
    then show ?thesis
      using sql_delete_peers[of pid w] by_id_hit[OF ids, of pid]
      by (auto simp: one_row_def book_of_def peer_statements_keep_nonces by_id_delete
          split: option.splits)
  next
    case (DeleteEvent eid)
    then show ?thesis by (simp add: book_of_def sql_delete_event_def)
  next
    case NextPeerId
    then show ?thesis by (simp add: book_of_def sql_nextval_peer_id_def)
  qed
qed


text \<open>
  C32. Refinement: any sequence of the statements the service issues against the tables (inserting,
  consuming and expiring nonces; reserving, updating and deleting peers; acknowledging events; drawing
  ids), started in a database that satisfies its constraints, answers exactly as the specification
  \<open>book\<close> does, in which peers are a finite map from ids, an insertion or update is refused when
  another peer has its id, port or (ASN, name) pair, and nonces are a finite map that is consumed by
  exact owner and expiry; the database ends in the image of the same book, constraints intact.
\<close>

theorem tables_refine_book:
  assumes "db_inv w" and "list_all keeps_keys ops" and "run_ops db_step ops w = (rs, w')"
  shows "run_ops book_step ops (book_of w) = (rs, book_of w') \<and> db_inv w'"
  using assms by (rule tables.runs_refine)

definition sample_row :: peer_row where
  "sample_row =
     \<lparr>c_peer_id = 5, c_asn = 4242420001, c_peer_name = ''home'', c_iface_name = ''wgp5'',
      c_pubkey = [], c_endpoint = None, c_local_ll_ip = ''fe80::1'', c_remote_ll_ip = ''fe80::2'',
      c_status = ''active'', c_listen_port = 20001, c_mtu = 1420, r_created_at = 0, r_updated_at = 0\<rparr>"

theorem tables_refine_book_witness:
  "map snd (fst (run_ops book_step
     [InsertPeer sample_row, InsertPeer (sample_row\<lparr>c_peer_id := 6\<rparr>),
      InsertNonce ''n'' 7 100, ConsumeNonce ''n'' 8 100 50, ConsumeNonce ''n'' 7 100 50,
      DeletePeer 5, DeletePeer 5] (book_of empty_world)))
   = [True, False, True, False, True, True, False]"
proof -
  let ?ops = "[InsertPeer sample_row, InsertPeer (sample_row\<lparr>c_peer_id := 6\<rparr>),
      InsertNonce ''n'' 7 100, ConsumeNonce ''n'' 8 100 50, ConsumeNonce ''n'' 7 100 50,
      DeletePeer 5, DeletePeer 5]"
  have inv: "db_inv empty_world"
    by (simp add: db_inv_def peers_unique_def nonces_distinct_def events_ok_def empty_world_def)
  have answers: "map snd (fst (run_ops db_step ?ops empty_world)) =
      [True, False, True, False, True, True, False]"
    by code_simp
  from tables_refine_book[OF inv, of ?ops "fst (run_ops db_step ?ops empty_world)"
      "snd (run_ops db_step ?ops empty_world)"] answers
  show ?thesis by simp
qed



end
