(* ===== verification/Connect.thy ===== *)
theory Connect
  imports Sample "HOL-Library.Sublist"
begin

text \<open>
  How \<open>PeerStore\<close> of \<open>src/persist.rs\<close> reaches the database: the connection options that
  \<open>build_connect_options\<close> derives from \<open>DATABASE_URL\<close>, \<open>DATABASE_SOCKET\<close>, \<open>DATABASE_USER\<close>
  and \<open>DATABASE_NAME\<close>, and the schema that \<open>PeerStore::new\<close> sets up. \<open>sqlx\<close>'s URL parser and the
  host that \<open>url\<close> finds in a URL are parameters; paths are those of \<open>std::path\<close> on Unix.
\<close>

section \<open>Paths\<close>

fun split_slash :: "rstr \<Rightarrow> rstr list" where
  "split_slash [] = [[]]"
| "split_slash (c # s) =
     (if c = CHR ''/'' then [] # split_slash s
      else (case split_slash s of p # ps \<Rightarrow> (c # p) # ps | [] \<Rightarrow> [[c]]))"

text \<open>
  The part of a path that is not its components: the root, or a leading \<open>.\<close> component. Behind it,
  empty and \<open>.\<close> components do not count, in the middle they are only skipped, at the end they are
  cut off.
\<close>

definition path_front :: "rstr \<Rightarrow> rstr \<times> rstr" where
  "path_front s =
     (case s of
        [] \<Rightarrow> ([], [])
      | c # t \<Rightarrow>
          if c = CHR ''/'' then ([c], t)
          else if c = CHR ''.'' \<and> (t = [] \<or> hd t = CHR ''/'') then ([c], t)
          else ([], s))"

definition body_components :: "rstr \<Rightarrow> rstr list" where
  "body_components body = (if body = [] then [] else split_slash body)"

definition trim_components :: "rstr list \<Rightarrow> rstr list" where
  "trim_components cs = rev (dropWhile (\<lambda>c. c = [] \<or> c = ''.'') (rev cs))"

definition file_name :: "rstr \<Rightarrow> rstr option" where
  "file_name s =
     (let cs = trim_components (body_components (snd (path_front s)))
      in if cs = [] \<or> last cs = ''..'' then None else Some (last cs))"

definition parent :: "rstr \<Rightarrow> rstr option" where
  "parent s =
     (let (front, body) = path_front s; cs = trim_components (body_components body)
      in if cs = [] then (if front = ''.'' then Some [] else None)
         else Some (front @ join ''/'' (trim_components (butlast cs))))"

section \<open>Connection options\<close>

datatype pg_ssl_mode = SslDisable | SslAllow | SslPrefer | SslRequire | SslVerifyCa | SslVerifyFull

text \<open>The fields of \<open>PgConnectOptions\<close> that the service sets or reads.\<close>

record pg_options =
  pg_host :: rstr
  pg_port :: u16
  pg_socket :: "rstr option"
  pg_username :: rstr
  pg_database :: "rstr option"
  pg_ssl_mode :: pg_ssl_mode
  pg_log_statements :: bool

definition non_empty :: "rstr option \<Rightarrow> rstr option" where
  "non_empty v = (case v of None \<Rightarrow> None | Some s \<Rightarrow> if s = [] then None else Some s)"

definition strip_brackets :: "rstr option \<Rightarrow> pg_options \<Rightarrow> pg_options" where
  "strip_brackets host_str opts =
     (case host_str of
        None \<Rightarrow> opts
      | Some host \<Rightarrow>
          if starts_with host ''['' \<and> ends_with host '']''
          then opts\<lparr>pg_host := take (length host - 2) (drop 1 host)\<rparr> else opts)"

definition strip_prefix :: "rstr \<Rightarrow> rstr \<Rightarrow> rstr option" where
  "strip_prefix p s = (if starts_with s p then Some (drop (length p) s) else None)"

text \<open>A socket file \<open>dir/.s.PGSQL.port\<close> stands for its directory and port.\<close>

definition socket_file :: "rstr \<Rightarrow> (rstr \<times> u16) option" where
  "socket_file socket =
     (case file_name socket of
        None \<Rightarrow> None
      | Some name \<Rightarrow>
          (case strip_prefix ''.s.PGSQL.'' name of
             None \<Rightarrow> None
           | Some port_str \<Rightarrow>
               (case parse_u16 port_str of
                  None \<Rightarrow> None
                | Some port \<Rightarrow>
                    (case parent socket of None \<Rightarrow> None | Some dir \<Rightarrow> Some (dir, port)))))"

definition apply_socket :: "rstr \<Rightarrow> rstr option \<Rightarrow> pg_options \<Rightarrow> pg_options" where
  "apply_socket raw_url socket opts =
     (case non_empty socket of
        Some path \<Rightarrow>
          (case socket_file path of
             Some (dir, port) \<Rightarrow> opts\<lparr>pg_socket := Some dir, pg_port := port\<rparr>
           | None \<Rightarrow> opts\<lparr>pg_socket := Some path\<rparr>)\<lparr>pg_ssl_mode := SslDisable\<rparr>
      | None \<Rightarrow>
          if (pg_socket opts \<noteq> None \<or> starts_with (pg_host opts) ''/'')
             \<and> \<not> contains raw_url ''sslmode=''
          then opts\<lparr>pg_ssl_mode := SslDisable\<rparr> else opts)"

definition raw_database_url :: "rstr option \<Rightarrow> rstr" where
  "raw_database_url db_url =
     (case non_empty db_url of None \<Rightarrow> ''postgres://dn42-bot@localhost/dn42'' | Some s \<Rightarrow> s)"

definition build_connect_options ::
  "(rstr \<Rightarrow> sqlx_error + pg_options) \<Rightarrow> (rstr \<Rightarrow> rstr option) \<Rightarrow> rstr option \<Rightarrow> rstr option
   \<Rightarrow> rstr option \<Rightarrow> rstr option \<Rightarrow> peer_error + pg_options" where
  "build_connect_options from_str host_str db_url db_socket db_user db_name =
     (let raw_url = raw_database_url db_url in
      res_bind (map_err Database (from_str raw_url)) (\<lambda>opts.
      let opts = apply_socket raw_url db_socket (strip_brackets (host_str raw_url) opts);
          opts = (case non_empty db_user of None \<Rightarrow> opts | Some user \<Rightarrow> opts\<lparr>pg_username := user\<rparr>);
          opts = (case non_empty db_name of None \<Rightarrow> opts | Some name \<Rightarrow> opts\<lparr>pg_database := Some name\<rparr>)
      in Inr (opts\<lparr>pg_log_statements := False\<rparr>)))"

definition get_opts ::
  "env \<Rightarrow> (rstr \<Rightarrow> sqlx_error + pg_options) \<Rightarrow> (rstr \<Rightarrow> rstr option) \<Rightarrow> peer_error + pg_options" where
  "get_opts E from_str host_str =
     build_connect_options from_str host_str (env_var E ''DATABASE_URL'') (env_var E ''DATABASE_SOCKET'')
       (env_var E ''DATABASE_USER'') (env_var E ''DATABASE_NAME'')"

section \<open>Schema\<close>

text \<open>
  What \<open>PeerStore::new\<close> finds in the database and creates. A column is its name and type; the
  constraints of a table follow its columns.
\<close>

record catalog =
  cat_tables :: "(rstr \<times> (rstr \<times> rstr) list \<times> rstr list) list"
  cat_functions :: "rstr list"
  cat_triggers :: "(rstr \<times> rstr) list"

datatype schema_statement =
    CreateTableIfNotExists rstr "(rstr \<times> rstr) list" "rstr list"
  | CreateOrReplaceFunction rstr
  | CreateTriggerIfNotExists rstr rstr

fun apply_schema :: "schema_statement \<Rightarrow> catalog \<Rightarrow> catalog" where
  "apply_schema (CreateTableIfNotExists name columns constraints) cat =
     (if name \<in> set (map fst (cat_tables cat)) then cat
      else cat\<lparr>cat_tables := cat_tables cat @ [(name, columns, constraints)]\<rparr>)"
| "apply_schema (CreateOrReplaceFunction name) cat =
     (if name \<in> set (cat_functions cat) then cat
      else cat\<lparr>cat_functions := cat_functions cat @ [name]\<rparr>)"
| "apply_schema (CreateTriggerIfNotExists name table) cat =
     (if (name, table) \<in> set (cat_triggers cat) then cat
      else cat\<lparr>cat_triggers := cat_triggers cat @ [(name, table)]\<rparr>)"

definition schema_statements :: "schema_statement list" where
  "schema_statements =
     [CreateTableIfNotExists ''peers''
        [(''peer_id'', ''SERIAL PRIMARY KEY''), (''asn'', ''BIGINT NOT NULL''),
         (''peer_name'', ''VARCHAR(32) NOT NULL''), (''iface_name'', ''VARCHAR NOT NULL''),
         (''pubkey'', ''VARCHAR NOT NULL''), (''endpoint'', ''VARCHAR''),
         (''local_ll_ip'', ''VARCHAR NOT NULL''), (''remote_ll_ip'', ''VARCHAR NOT NULL''),
         (''status'', ''VARCHAR NOT NULL''), (''listen_port'', ''INT NOT NULL UNIQUE''),
         (''mtu'', ''INT NOT NULL DEFAULT 1420''),
         (''created_at'', ''TIMESTAMPTZ DEFAULT CURRENT_TIMESTAMP''),
         (''updated_at'', ''TIMESTAMPTZ DEFAULT CURRENT_TIMESTAMP'')]
        [''UNIQUE (asn, peer_name)''],
      CreateTableIfNotExists ''auth_nonces''
        [(''nonce'', ''VARCHAR PRIMARY KEY''), (''asn'', ''BIGINT NOT NULL''),
         (''expires_at'', ''BIGINT NOT NULL''),
         (''created_at'', ''TIMESTAMPTZ DEFAULT CURRENT_TIMESTAMP'')] [],
      CreateTableIfNotExists ''peer_change_events''
        [(''event_id'', ''BIGSERIAL PRIMARY KEY''), (''operation'', ''VARCHAR NOT NULL''),
         (''peer_id'', ''INT NOT NULL''), (''asn'', ''BIGINT NOT NULL''),
         (''peer_name'', ''VARCHAR(32) NOT NULL''), (''iface_name'', ''VARCHAR NOT NULL''),
         (''pubkey'', ''VARCHAR NOT NULL''), (''endpoint'', ''VARCHAR''),
         (''local_ll_ip'', ''VARCHAR NOT NULL''), (''remote_ll_ip'', ''VARCHAR NOT NULL''),
         (''status'', ''VARCHAR NOT NULL''), (''listen_port'', ''INT NOT NULL''),
         (''mtu'', ''INT NOT NULL''),
         (''created_at'', ''TIMESTAMPTZ DEFAULT CURRENT_TIMESTAMP'')] [],
      CreateOrReplaceFunction ''autopeer_enqueue_peer_change'',
      CreateTriggerIfNotExists ''autopeer_peer_changes'' ''peers'']"

text \<open>One call to the pool: like \<open>ext_call\<close>, on the catalog. A call may fail before or after its effect.\<close>

definition schema_call ::
  "env \<Rightarrow> (catalog \<Rightarrow> catalog) \<Rightarrow> catalog \<times> world \<Rightarrow> (peer_error + unit) \<times> catalog \<times> world" where
  "schema_call E f cw =
     (case cw of (cat, w) \<Rightarrow>
       (case db_fault E (w_tick w) of
          NoFault \<Rightarrow> (Inr (), f cat, await E w)
        | FailClean e \<Rightarrow> (Inl (Database e), cat, await E w)
        | FailDirty e \<Rightarrow> (Inl (Database e), f cat, await E w)))"

fun execute_schema ::
  "env \<Rightarrow> schema_statement list \<Rightarrow> catalog \<times> world \<Rightarrow> (peer_error + unit) \<times> catalog \<times> world" where
  "execute_schema E [] cw = (Inr (), cw)"
| "execute_schema E (s # ss) cw =
     (case schema_call E (apply_schema s) cw of
        (Inl e, cw') \<Rightarrow> (Inl e, cw')
      | (Inr _, cw') \<Rightarrow> execute_schema E ss cw')"

definition peer_store_new ::
  "env \<Rightarrow> (rstr \<Rightarrow> sqlx_error + pg_options) \<Rightarrow> (rstr \<Rightarrow> rstr option) \<Rightarrow> catalog \<times> world
   \<Rightarrow> (peer_error + pg_options) \<times> catalog \<times> world" where
  "peer_store_new E from_str host_str cw =
     (case get_opts E from_str host_str of
        Inl e \<Rightarrow> (Inl e, cw)
      | Inr opts \<Rightarrow>
          (case schema_call E id cw of
             (Inl e, cw') \<Rightarrow> (Inl e, cw')
           | (Inr _, cw') \<Rightarrow>
               (case execute_schema E schema_statements cw' of
                  (Inl e, cw'') \<Rightarrow> (Inl e, cw'')
                | (Inr _, cw'') \<Rightarrow> (Inr opts, cw''))))"

section \<open>Sockets and TLS\<close>

lemma built_options:
  assumes "build_connect_options from_str host_str url socket user name = Inr opts"
  obtains base where "from_str (raw_database_url url) = Inr base"
    and "opts = (case non_empty name of None \<Rightarrow> id | Some n \<Rightarrow> pg_database_update (\<lambda>_. Some n))
      ((case non_empty user of None \<Rightarrow> id | Some u \<Rightarrow> pg_username_update (\<lambda>_. u))
        (apply_socket (raw_database_url url) socket (strip_brackets (host_str (raw_database_url url)) base)))
      \<lparr>pg_log_statements := False\<rparr>"
  using assms
  by (auto simp: build_connect_options_def Let_def res_bind_Inr split: option.splits)

lemma strip_brackets_keeps [simp]:
  "pg_ssl_mode (strip_brackets h o') = pg_ssl_mode o'" "pg_socket (strip_brackets h o') = pg_socket o'"
  by (simp_all add: strip_brackets_def split: option.split)

lemma apply_socket_tls:
  "pg_ssl_mode (apply_socket raw socket o') \<noteq> pg_ssl_mode o' \<Longrightarrow>
   pg_ssl_mode (apply_socket raw socket o') = SslDisable
   \<and> (pg_socket (apply_socket raw socket o') \<noteq> None
      \<or> starts_with (pg_host (apply_socket raw socket o')) ''/'')
   \<and> (contains raw ''sslmode='' \<longrightarrow> non_empty socket \<noteq> None)"
  by (auto simp: apply_socket_def split: option.splits if_splits prod.splits)

text \<open>
  C35. TLS towards the database is only ever given up on a local socket: where the options differ from
  the URL's in the SSL mode, the mode is \<open>disable\<close> and the connection goes through a Unix socket,
  and a mode that the URL asks for explicitly gives way only to \<open>DATABASE_SOCKET\<close>. A connection
  over TCP keeps the mode that \<open>sqlx\<close> read from the URL, whatever the other variables say.
\<close>

theorem tls_dropped_only_on_sockets:
  assumes "build_connect_options from_str host_str url socket user name = Inr opts"
  shows "\<exists>base. from_str (raw_database_url url) = Inr base
    \<and> (pg_ssl_mode opts \<noteq> pg_ssl_mode base \<longrightarrow>
         pg_ssl_mode opts = SslDisable
         \<and> (pg_socket opts \<noteq> None \<or> starts_with (pg_host opts) ''/'')
         \<and> (contains (raw_database_url url) ''sslmode='' \<longrightarrow> non_empty socket \<noteq> None))
    \<and> pg_username opts = (case non_empty user of None \<Rightarrow> pg_username base | Some u \<Rightarrow> u)
    \<and> pg_database opts = (case non_empty name of None \<Rightarrow> pg_database base | Some n \<Rightarrow> Some n)
    \<and> \<not> pg_log_statements opts"
proof -
  obtain base where base: "from_str (raw_database_url url) = Inr base"
    and opts: "opts = (case non_empty name of None \<Rightarrow> id | Some n \<Rightarrow> pg_database_update (\<lambda>_. Some n))
      ((case non_empty user of None \<Rightarrow> id | Some u \<Rightarrow> pg_username_update (\<lambda>_. u))
        (apply_socket (raw_database_url url) socket (strip_brackets (host_str (raw_database_url url)) base)))
      \<lparr>pg_log_statements := False\<rparr>"
    using built_options[OF assms] .
  let ?o = "apply_socket (raw_database_url url) socket (strip_brackets (host_str (raw_database_url url)) base)"
  have same: "pg_ssl_mode opts = pg_ssl_mode ?o" "pg_socket opts = pg_socket ?o" "pg_host opts = pg_host ?o"
    by (simp_all add: opts split: option.split)
  have names: "pg_username ?o = pg_username base" "pg_database ?o = pg_database base"
    by (simp_all add: apply_socket_def strip_brackets_def split: option.split prod.split)
  show ?thesis
    using apply_socket_tls[of "raw_database_url url" socket "strip_brackets (host_str (raw_database_url url)) base"]
    by (intro exI[of _ base] conjI) (auto simp: base same names opts split: option.split)
qed

definition tcp_options :: pg_options where
  "tcp_options =
     \<lparr>pg_host = ''db'', pg_port = 5432, pg_socket = None, pg_username = ''u'', pg_database = None,
      pg_ssl_mode = SslPrefer, pg_log_statements = True\<rparr>"

theorem tls_dropped_only_on_sockets_witness:
  "\<exists>opts. build_connect_options (\<lambda>_. Inr tcp_options) (\<lambda>_. Some ''[::1]'') (Some ''postgres://db'') None
     (Some ''dn42'') None = Inr opts \<and> pg_username opts = ''dn42''"
proof -
  let ?build = "build_connect_options (\<lambda>_. Inr tcp_options) (\<lambda>_. Some ''[::1]'') (Some ''postgres://db'') None
     (Some ''dn42'') None"
  obtain opts where run: "?build = Inr opts"
    by (simp add: build_connect_options_def Let_def)
  from tls_dropped_only_on_sockets[OF run] run show ?thesis by (simp add: non_empty_def)
qed

section \<open>Socket files\<close>

lemma split_slash_plain: "CHR ''/'' \<notin> set s \<Longrightarrow> split_slash s = [s]"
  by (induction s) auto

lemma split_slash_cons: "CHR ''/'' \<notin> set p \<Longrightarrow> split_slash (p @ CHR ''/'' # s) = p # split_slash s"
  by (induction p) auto

lemma split_slash_join:
  "cs \<noteq> [] \<Longrightarrow> \<forall>c\<in>set cs. CHR ''/'' \<notin> set c \<Longrightarrow> split_slash (join ''/'' cs) = cs"
proof (induction cs)
  case (Cons c cs)
  then show ?case
    by (cases cs) (simp_all add: split_slash_plain split_slash_cons)
qed simp

lemma trim_components_plain: "cs \<noteq> [] \<Longrightarrow> last cs \<noteq> [] \<Longrightarrow> last cs \<noteq> ''.'' \<Longrightarrow> trim_components cs = cs"
  by (cases cs rule: rev_cases) (simp_all add: trim_components_def)

lemma join_snoc: "cs \<noteq> [] \<Longrightarrow> join sep (cs @ [c]) = join sep cs @ sep @ c"
proof (induction cs)
  case (Cons x cs)
  then show ?case by (cases "cs = []") (simp_all add: join_Cons)
qed simp

lemma file_in_directory:
  assumes "cs \<noteq> []" "\<forall>c\<in>set cs. c \<noteq> [] \<and> c \<noteq> ''.'' \<and> CHR ''/'' \<notin> set c"
    and name: "name \<noteq> []" "name \<noteq> ''.''" "name \<noteq> ''..''" "CHR ''/'' \<notin> set name"
  shows "file_name (''/'' @ join ''/'' cs @ ''/'' @ name) = Some name"
    "parent (''/'' @ join ''/'' cs @ ''/'' @ name) = Some (''/'' @ join ''/'' cs)"
proof -
  have split: "body_components (join ''/'' cs @ ''/'' @ name) = cs @ [name]"
    using split_slash_join[of "cs @ [name]"] assms(1,2) name by (simp add: body_components_def join_snoc)
  have "last cs \<in> set cs" using assms(1) by simp
  then have last: "last cs \<noteq> []" "last cs \<noteq> ''.''" using assms(2) by blast+
  have trim: "trim_components (cs @ [name]) = cs @ [name]" "trim_components cs = cs"
    using trim_components_plain[of "cs @ [name]"] name trim_components_plain[OF assms(1) last]
    by simp_all
  have front: "path_front (''/'' @ join ''/'' cs @ ''/'' @ name) = (''/'', join ''/'' cs @ ''/'' @ name)"
    by (simp add: path_front_def)
  show "file_name (''/'' @ join ''/'' cs @ ''/'' @ name) = Some name"
    unfolding file_name_def front snd_conv split trim using name by simp
  show "parent (''/'' @ join ''/'' cs @ ''/'' @ name) = Some (''/'' @ join ''/'' cs)"
    unfolding parent_def front prod.case Let_def split trim using trim(2) by simp
qed

text \<open>
  C37. PostgreSQL's own name for a socket, \<open>dir/.s.PGSQL.port\<close>, is read back: for every absolute
  directory and every port, \<open>DATABASE_SOCKET\<close> set to that file connects through exactly this directory
  and port, without TLS, whatever the URL says.
\<close>

theorem socket_file_roundtrip:
  assumes "cs \<noteq> []" "\<forall>c\<in>set cs. c \<noteq> [] \<and> c \<noteq> ''.'' \<and> CHR ''/'' \<notin> set c"
    and "from_str (raw_database_url url) = Inr base"
  shows "\<exists>opts. build_connect_options from_str host_str url
      (Some (''/'' @ join ''/'' cs @ ''/.s.PGSQL.'' @ show_u16 port)) user name = Inr opts
    \<and> pg_socket opts = Some (''/'' @ join ''/'' cs) \<and> pg_port opts = port
    \<and> pg_ssl_mode opts = SslDisable"
proof -
  let ?name = "''.s.PGSQL.'' @ show_u16 port"
  let ?path = "''/'' @ join ''/'' cs @ ''/'' @ ?name"
  have "CHR ''/'' \<notin> set (show_u16 port)"
    by (simp add: show_u16_def text_simps byte_def)
  then have ok: "?name \<noteq> []" "?name \<noteq> ''.''" "?name \<noteq> ''..''" "CHR ''/'' \<notin> set ?name" by auto
  have base_name: "file_name ?path = Some ?name" and dir: "parent ?path = Some (''/'' @ join ''/'' cs)"
    using file_in_directory[OF assms(1,2) ok] by blast+
  have "strip_prefix ''.s.PGSQL.'' ?name = Some (show_u16 port)"
    by (simp add: strip_prefix_def starts_with_def)
  with base_name dir have sock: "socket_file ?path = Some (''/'' @ join ''/'' cs, port)"
    by (simp only: socket_file_def option.case u16_text.prs_shw)
  have written: "''/'' @ join ''/'' cs @ ''/.s.PGSQL.'' @ show_u16 port = ?path" by simp
  have "non_empty (Some ?path) = Some ?path" by (simp add: non_empty_def)
  then show ?thesis
    unfolding written build_connect_options_def Let_def assms(3)
    by (simp only: map_err_simps res_bind_simps apply_socket_def option.case sock prod.case)
      (simp split: option.split)
qed

theorem socket_file_roundtrip_witness:
  "\<exists>opts. build_connect_options (\<lambda>_. Inr tcp_options) (\<lambda>_. None) None
      (Some (''/'' @ join ''/'' [''run'', ''egress''] @ ''/.s.PGSQL.'' @ show_u16 5433)) None None = Inr opts
    \<and> pg_socket opts = Some ''/run/egress'' \<and> pg_port opts = 5433 \<and> pg_ssl_mode opts = SslDisable"
  using socket_file_roundtrip[of "[''run'', ''egress'']" "\<lambda>_. Inr tcp_options" None tcp_options "\<lambda>_. None" 5433 None None]
  by simp



section \<open>The schema\<close>

fun present :: "catalog \<Rightarrow> schema_statement \<Rightarrow> bool" where
  "present cat (CreateTableIfNotExists name columns constraints) =
     (name \<in> set (map fst (cat_tables cat)))"
| "present cat (CreateOrReplaceFunction name) = (name \<in> set (cat_functions cat))"
| "present cat (CreateTriggerIfNotExists name table) = ((name, table) \<in> set (cat_triggers cat))"

lemma apply_schema_present: "present (apply_schema s cat) s"
  by (cases s) auto

lemma apply_schema_id: "present cat s \<Longrightarrow> apply_schema s cat = cat"
  by (cases s) auto

lemma apply_schema_keeps: "present cat s \<Longrightarrow> present (apply_schema t cat) s"
  by (cases s; cases t) auto

lemma fold_keeps: "present cat s \<Longrightarrow> present (fold apply_schema ss cat) s"
  by (induction ss arbitrary: cat) (simp_all add: apply_schema_keeps)

lemma fold_present: "s \<in> set ss \<Longrightarrow> present (fold apply_schema ss cat) s"
  by (induction ss arbitrary: cat) (auto simp: apply_schema_present intro: fold_keeps)

lemma fold_id: "\<forall>s\<in>set ss. present cat s \<Longrightarrow> fold apply_schema ss cat = cat"
  by (induction ss) (simp_all add: apply_schema_id)

lemma fold_tables: "prefix (cat_tables cat) (cat_tables (fold apply_schema ss cat))"
proof (induction ss arbitrary: cat)
  case (Cons s ss)
  have "prefix (cat_tables cat) (cat_tables (apply_schema s cat))" by (cases s) auto
  then show ?case using Cons.IH[of "apply_schema s cat"] by (simp add: prefix_order.trans)
qed simp

text \<open>Whatever prefix of the statements took effect, running all of them again completes it.\<close>

lemma fold_resume:
  "fold apply_schema (pre @ post) (fold apply_schema pre cat) = fold apply_schema (pre @ post) cat"
  using fold_id[of pre "fold apply_schema pre cat"] fold_present[of _ pre cat] by simp

lemma schema_call_outcomes:
  "schema_call E f (cat, w) = (r, cat', w') \<Longrightarrow>
   w' = await E w \<and> (r = Inr () \<and> cat' = f cat \<or> (\<exists>e. r = Inl e) \<and> cat' \<in> {cat, f cat})"
  by (auto simp: schema_call_def split: fault.splits)

lemma rows_await: "quiet E \<Longrightarrow> db_view (await E w) = db_view w"
  by (simp add: await_quiet db_view_def)

lemma execute_schema_outcomes:
  "execute_schema E ss (cat, w) = (r, cat', w') \<Longrightarrow>
   (\<exists>pre post. ss = pre @ post \<and> cat' = fold apply_schema pre cat \<and> (r = Inr () \<longrightarrow> post = []))
   \<and> (quiet E \<longrightarrow> db_view w' = db_view w)"
proof (induction ss arbitrary: cat w)
  case (Cons s ss)
  obtain r1 cat1 w1 where call: "schema_call E (apply_schema s) (cat, w) = (r1, cat1, w1)"
    by (metis prod.collapse)
  note step = schema_call_outcomes[OF call]
  show ?case
  proof (cases r1)
    case (Inl e)
    with call Cons.prems have "r = Inl e" "cat' = cat1" "w' = w1" by simp_all
    with step Inl have "(cat' = fold apply_schema [] cat \<or> cat' = fold apply_schema [s] cat)"
      and "r \<noteq> Inr ()" and "quiet E \<longrightarrow> db_view w' = db_view w"
      by (auto simp: rows_await)
    then show ?thesis by (metis append_Cons append_Nil)
  next
    case (Inr u)
    with call step Cons.prems have run: "execute_schema E ss (apply_schema s cat, w1) = (r, cat', w')"
      and w1: "w1 = await E w" by auto
    from Cons.IH[OF run] obtain pre post where "ss = pre @ post"
      "cat' = fold apply_schema (s # pre) cat" "r = Inr () \<longrightarrow> post = []"
      and "quiet E \<longrightarrow> db_view w' = db_view w" by (auto simp: w1 rows_await)
    then show ?thesis by (metis append_Cons)
  qed
qed simp

lemma peer_store_new_result:
  assumes "peer_store_new E from_str host_str (cat, w) = (r, cat', w')"
  shows "fold apply_schema schema_statements cat' = fold apply_schema schema_statements cat
    \<and> prefix (cat_tables cat) (cat_tables cat')
    \<and> (\<forall>opts. r = Inr opts \<longrightarrow> get_opts E from_str host_str = Inr opts
         \<and> list_all (present cat') schema_statements
         \<and> fold apply_schema schema_statements cat' = cat')
    \<and> (quiet E \<longrightarrow> db_view w' = db_view w)"
proof (cases "get_opts E from_str host_str")
  case (Inl e)
  with assms show ?thesis by (auto simp: peer_store_new_def)
next
  case opts: (Inr opts)
  obtain r1 cat1 w1 where call: "schema_call E id (cat, w) = (r1, cat1, w1)" by (metis prod.collapse)
  note connected = schema_call_outcomes[OF call]
  show ?thesis
  proof (cases r1)
    case (Inl e)
    with assms opts call connected show ?thesis by (auto simp: peer_store_new_def rows_await)
  next
    case (Inr u)
    obtain r2 cat2 w2 where run: "execute_schema E schema_statements (cat, w1) = (r2, cat2, w2)"
      by (metis prod.collapse)
    have cat1: "cat1 = cat" and w1: "w1 = await E w" using connected by auto
    have "peer_store_new E from_str host_str (cat, w) =
        (case r2 of Inl e \<Rightarrow> Inl e | Inr _ \<Rightarrow> Inr opts, cat2, w2)"
      by (cases r2) (simp_all add: peer_store_new_def opts call Inr cat1 run)
    with assms have out: "cat' = cat2" "w' = w2" "\<And>o'. r = Inr o' \<Longrightarrow> r2 = Inr () \<and> o' = opts"
      by (auto split: sum.splits)
    from execute_schema_outcomes[OF run] obtain pre post where
      S: "schema_statements = pre @ post" "cat2 = fold apply_schema pre cat" "r2 = Inr () \<longrightarrow> post = []"
      and view: "quiet E \<longrightarrow> db_view w2 = db_view w" by (auto simp: w1 rows_await)
    have "r2 = Inr () \<Longrightarrow> \<forall>s\<in>set schema_statements. present cat2 s"
      using S fold_present[of _ schema_statements cat] by simp
    then show ?thesis
      using S view out fold_resume[of pre post cat] fold_tables[of cat pre] opts
        fold_id[of schema_statements cat2]
      by (auto simp: list_all_iff)
  qed
qed





end
