(* ===== verification/Observe.thy ===== *)
theory Observe
  imports Errors
begin

text \<open>
  \<open>src/observability.rs\<close>: request ids, the logging middleware, the guards that report a
  dropped future, and \<open>observe\<close>, which wraps every external call. The log is a list of events.
  Instants and durations are nanoseconds. A future is the sequence of things that wake the task
  that awaits it; which of them happen, and when, is the environment's choice. The event's fields
  are those of the \<open>tracing\<close> macros; how the subscriber prints them is not modelled.
\<close>

type_synonym u64 = "64 word"

section \<open>Events\<close>

record log_event =
  le_level :: log_level
  le_event :: rstr
  le_stage :: "rstr option"
  le_elapsed_ms :: "u64 option"
  le_status :: "nat option"
  le_slow :: "bool option"
  le_outcome :: "rstr option"
  le_error :: "error_info option"
  le_message :: rstr

definition plain_event :: "log_level \<Rightarrow> rstr \<Rightarrow> rstr \<Rightarrow> log_event" where
  "plain_event level event message =
     \<lparr>le_level = level, le_event = event, le_stage = None, le_elapsed_ms = None,
      le_status = None, le_slow = None, le_outcome = None, le_error = None,
      le_message = message\<rparr>"

definition SLOW_STAGE :: nat where "SLOW_STAGE = 1000000000"
definition SLOW_REQUEST :: nat where "SLOW_REQUEST = 5000000000"

text \<open>\<open>Instant::elapsed\<close> saturates at zero; the milliseconds are cut to 64 bits.\<close>

definition elapsed_ms :: "nat \<Rightarrow> nat \<Rightarrow> u64" where
  "elapsed_ms started now = of_nat (min ((now - started) div 1000000) (2 ^ 64 - 1))"

section \<open>Failures\<close>

definition emit_failure :: "rstr \<Rightarrow> error_info \<Rightarrow> nat option \<Rightarrow> log_event" where
  "emit_failure event info status =
     (if (case status of Some s \<Rightarrow> s < 500 | None \<Rightarrow> False)
      then (plain_event WARN event ''Request rejected'')\<lparr>le_status := status, le_error := Some info\<rparr>
      else (plain_event ERROR event ''Operation failed'')\<lparr>le_status := status, le_error := Some info\<rparr>)"

definition log_failure :: "('e \<Rightarrow> error_info) \<Rightarrow> rstr \<Rightarrow> 'e \<Rightarrow> log_event" where
  "log_failure info event e = emit_failure event (info e) None"

definition log_api_failure :: "nat \<Rightarrow> error_info \<Rightarrow> log_event" where
  "log_api_failure status info = emit_failure ''api_error'' info (Some status)"

text \<open>What \<open>LogError\<close> reads of a \<open>reqwest::Error\<close>.\<close>

record reqwest_error =
  rq_is_timeout :: bool
  rq_is_connect :: bool
  rq_is_status :: bool
  rq_is_decode :: bool
  rq_status :: "nat option"

definition reqwest_log_info :: "reqwest_error \<Rightarrow> error_info" where
  "reqwest_log_info e =
     (let kind = (if rq_is_timeout e then ''timeout''
                  else if rq_is_connect e then ''connect''
                  else if rq_is_status e then ''http_status''
                  else if rq_is_decode e then ''decode''
                  else ''other'')
      in (error_info_new ''registry'' kind)\<lparr>info_http_status := rq_status e\<rparr>)"

section \<open>Stages\<close>

record stage_guard =
  sg_name :: rstr
  sg_started :: nat
  sg_completed :: bool

definition drop_stage_guard :: "stage_guard \<Rightarrow> nat \<Rightarrow> log_event list" where
  "drop_stage_guard g now =
     (if \<not> sg_completed g
      then [(plain_event WARN ''stage_interrupted'' ''Stage future did not complete'')
              \<lparr>le_stage := Some (sg_name g), le_elapsed_ms := Some (elapsed_ms (sg_started g) now)\<rparr>]
      else [])"

text \<open>
  What happens to the task of a stage: a tick of the interval, the future's result, or the task is
  dropped. At the result the clock is read twice, for the duration and for the slowness test.
\<close>

datatype 'r stage_wake = StageTick nat | StageReady nat nat 'r | StageDropped nat

datatype 'r stage_end = StillPending | Interrupted | Completed 'r

definition stage_pending :: "stage_guard \<Rightarrow> nat \<Rightarrow> log_event" where
  "stage_pending g now =
     (plain_event WARN ''stage_pending'' ''Stage still pending'')
       \<lparr>le_stage := Some (sg_name g), le_elapsed_ms := Some (elapsed_ms (sg_started g) now)\<rparr>"

definition stage_completed ::
  "('e \<Rightarrow> error_info) \<Rightarrow> stage_guard \<Rightarrow> nat \<Rightarrow> nat \<Rightarrow> 'e + 'a \<Rightarrow> log_event" where
  "stage_completed info g now now' r =
     (let fields = (\<lambda>e. e\<lparr>le_stage := Some (sg_name g),
                          le_elapsed_ms := Some (elapsed_ms (sg_started g) now)\<rparr>)
      in case r of
           Inr _ \<Rightarrow>
             (fields (if SLOW_STAGE \<le> now' - sg_started g
                      then plain_event WARN ''stage_completed'' ''Slow stage completed''
                      else plain_event DEBUG ''stage_completed'' ''Stage completed''))
               \<lparr>le_outcome := Some ''ok''\<rparr>
         | Inl e \<Rightarrow>
             (fields (plain_event WARN ''stage_completed'' ''Stage failed''))
               \<lparr>le_outcome := Some ''error'', le_error := Some (info e)\<rparr>)"

fun stage_loop ::
  "('e \<Rightarrow> error_info) \<Rightarrow> stage_guard \<Rightarrow> ('e + 'a) stage_wake list
   \<Rightarrow> ('e + 'a) stage_end \<times> log_event list" where
  "stage_loop info g [] = (StillPending, [])"
| "stage_loop info g (StageTick now # ws) =
     (case stage_loop info g ws of (r, log) \<Rightarrow> (r, stage_pending g now # log))"
| "stage_loop info g (StageReady now now' r # ws) =
     (let g = g\<lparr>sg_completed := True\<rparr> in
      (Completed r, stage_completed info g now now' r # drop_stage_guard g now'))"
| "stage_loop info g (StageDropped now # ws) = (Interrupted, drop_stage_guard g now)"

definition observe ::
  "('e \<Rightarrow> error_info) \<Rightarrow> rstr \<Rightarrow> nat \<Rightarrow> ('e + 'a) stage_wake list
   \<Rightarrow> ('e + 'a) stage_end \<times> log_event list" where
  "observe info name started ws =
     (case stage_loop info \<lparr>sg_name = name, sg_started = started, sg_completed = False\<rparr> ws of
        (r, log) \<Rightarrow>
          (r, (plain_event DEBUG ''stage_started'' ''Stage started'')\<lparr>le_stage := Some name\<rparr> # log))"

section \<open>Requests\<close>

definition REQUEST_ID_HEADER :: rstr where "REQUEST_ID_HEADER = ''x-request-id''"

text \<open>
  \<open>request_id\<close>: process, wall clock (\<open>None\<close> for a clock before 1970) and the value that
  \<open>fetch_add\<close> takes from the process-wide counter, which wraps.
\<close>

definition request_id :: "u32 \<Rightarrow> nat option \<Rightarrow> u64 \<Rightarrow> rstr \<times> u64" where
  "request_id pid clock seq =
     (let now = (case clock of None \<Rightarrow> 0 | Some n \<Rightarrow> n)
      in (show_hex (unat pid) @ ''-'' @ show_hex now @ ''-'' @ show_hex (unat seq), seq + 1))"

text \<open>The header map: names to their values, in order.\<close>

type_synonym headers = "rstr \<Rightarrow> rstr list"

definition headers_insert :: "headers \<Rightarrow> rstr \<Rightarrow> rstr \<Rightarrow> headers" where
  "headers_insert h name v = h(name := [v])"

record http_request =
  hq_method :: rstr
  hq_matched_path :: "rstr option"
  hq_headers :: headers

record 'b http_response =
  hr_status :: nat
  hr_headers :: headers
  hr_body :: 'b

text \<open>\<open>to_str\<close> is \<open>HeaderValue::to_str\<close> of the \<open>http\<close> crate.\<close>

definition cloudflare_ray :: "(rstr \<Rightarrow> rstr option) \<Rightarrow> http_request \<Rightarrow> rstr option" where
  "cloudflare_ray to_str req =
     (case hq_headers req ''cf-ray'' of
        [] \<Rightarrow> None
      | header # _ \<Rightarrow>
          (case to_str header of
             None \<Rightarrow> None
           | Some v \<Rightarrow>
               if v \<noteq> [] \<and> length v \<le> 64
                  \<and> list_all (\<lambda>b. is_ascii_alphanumeric b \<or> b = CHR ''-'') v
               then Some v else None))"

record request_span =
  sp_request_id :: rstr
  sp_method :: rstr
  sp_route :: rstr
  sp_cf_ray :: "rstr option"
  sp_asn :: "u32 option"
  sp_peer_name :: "rstr option"

definition request_span_of :: "(rstr \<Rightarrow> rstr option) \<Rightarrow> rstr \<Rightarrow> http_request \<Rightarrow> request_span" where
  "request_span_of to_str rid req =
     \<lparr>sp_request_id = rid, sp_method = hq_method req,
      sp_route = (case hq_matched_path req of None \<Rightarrow> ''<unmatched>'' | Some p \<Rightarrow> p),
      sp_cf_ray = cloudflare_ray to_str req, sp_asn = None, sp_peer_name = None\<rparr>"

definition record_peer :: "u32 \<Rightarrow> rstr option \<Rightarrow> request_span \<Rightarrow> request_span" where
  "record_peer asn peer_name span =
     (let span = span\<lparr>sp_asn := Some asn\<rparr> in
      case peer_name of None \<Rightarrow> span | Some name \<Rightarrow> span\<lparr>sp_peer_name := Some name\<rparr>)"

record request_guard =
  rg_started :: nat
  rg_completed :: bool

definition drop_request_guard :: "request_guard \<Rightarrow> nat \<Rightarrow> log_event list" where
  "drop_request_guard g now =
     (if \<not> rg_completed g
      then [(plain_event WARN ''request_interrupted'' ''Request future did not complete'')
              \<lparr>le_elapsed_ms := Some (elapsed_ms (rg_started g) now)\<rparr>]
      else [])"

text \<open>The inner service answers (the clock is read twice after it), or the future is dropped.\<close>

datatype 'b request_wake = Responded nat nat "'b http_response" | RequestDropped nat

datatype 'b request_end = RequestDone "'b http_response" | RequestPanicked | RequestInterrupted

definition request_completed :: "request_guard \<Rightarrow> nat \<Rightarrow> nat \<Rightarrow> nat \<Rightarrow> log_event" where
  "request_completed g now now' status =
     (let slow = (SLOW_REQUEST \<le> now' - rg_started g);
          level = (if 500 \<le> status \<and> status < 600 then ERROR
                   else if slow \<or> (400 \<le> status \<and> status < 500) then WARN else INFO)
      in (plain_event level ''request_completed'' ''Request completed'')
           \<lparr>le_status := Some status, le_elapsed_ms := Some (elapsed_ms (rg_started g) now),
            le_slow := Some slow\<rparr>)"

text \<open>\<open>from_str\<close> is \<open>HeaderValue::from_str\<close>; its error would panic.\<close>

definition log_request ::
  "(rstr \<Rightarrow> rstr option) \<Rightarrow> (rstr \<Rightarrow> rstr option) \<Rightarrow> u32 \<Rightarrow> nat option \<Rightarrow> nat \<Rightarrow> http_request
   \<Rightarrow> 'b request_wake \<Rightarrow> u64 \<Rightarrow> ('b request_end \<times> request_span \<times> log_event list) \<times> u64" where
  "log_request to_str from_str pid clock started req wake seq =
     (let (rid, seq) = request_id pid clock seq;
          span = request_span_of to_str rid req;
          g = \<lparr>rg_started = started, rg_completed = False\<rparr>;
          begun = plain_event INFO ''request_started'' ''Request started''
      in case wake of
           RequestDropped now \<Rightarrow> ((RequestInterrupted, span, begun # drop_request_guard g now), seq)
         | Responded now now' response \<Rightarrow>
             (case from_str rid of
                None \<Rightarrow> ((RequestPanicked, span, begun # drop_request_guard g now), seq)
              | Some v \<Rightarrow>
                  (let response =
                         response\<lparr>hr_headers := headers_insert (hr_headers response) REQUEST_ID_HEADER v\<rparr>;
                       g' = g\<lparr>rg_completed := True\<rparr>
                   in ((RequestDone response, span,
                        begun # request_completed g now now' (hr_status response)
                          # drop_request_guard g' now'), seq))))"

text \<open>The ids that successive calls draw, with the wall clock each of them reads.\<close>

fun request_ids :: "u32 \<Rightarrow> nat option list \<Rightarrow> u64 \<Rightarrow> rstr list" where
  "request_ids pid [] seq = []"
| "request_ids pid (clock # clocks) seq =
     (case request_id pid clock seq of (rid, seq') \<Rightarrow> rid # request_ids pid clocks seq')"

section \<open>Request ids\<close>

lemma hex_parts:
  "show_hex a @ ''-'' @ show_hex b @ ''-'' @ show_hex c =
   show_hex a' @ ''-'' @ show_hex b' @ ''-'' @ show_hex c' \<longleftrightarrow> a = a' \<and> b = b' \<and> c = c'"
proof -
  have dash: "CHR ''-'' \<notin> set (show_hex n)" for n by (simp add: text_simps byte_def)
  have inj: "show_hex m = show_hex n \<longleftrightarrow> m = n" for m n
  proof -
    have "read_digits 16 (show_hex k) = Some k" for k by (simp add: read_digits_show_base)
    then show ?thesis by (metis option.inject)
  qed
  show ?thesis by (simp add: append_sep_inject dash inj)
qed

lemma request_id_inject:
  "fst (request_id pid clock seq) = fst (request_id pid' clock' seq') \<Longrightarrow> pid = pid' \<and> seq = seq'"
  unfolding request_id_def Let_def fst_conv hex_parts by (simp add: word_unat_eq_iff)

lemma request_id_visible:
  "list_all (\<lambda>c. 32 \<le> byte c \<and> byte c < 127) (fst (request_id pid clock seq))"
proof -
  have hex: "c \<in> set (show_hex n) \<Longrightarrow> 32 \<le> byte c \<and> byte c < 127" for c n
    using byte_show_base[of 16 c n] by auto
  show ?thesis
    unfolding request_id_def Let_def list_all_iff fst_conv set_append ball_Un
    using hex by (simp add: byte_def)
qed

lemma nth_request_ids:
  "i < length clocks \<Longrightarrow>
   request_ids pid clocks seq ! i = fst (request_id pid (clocks ! i) (seq + of_nat i))"
proof (induction clocks arbitrary: i seq)
  case (Cons clock clocks)
  then show ?case
    by (cases i) (simp_all add: request_id_def Let_def add.assoc)
qed simp

lemma length_request_ids [simp]: "length (request_ids pid clocks seq) = length clocks"
  by (induction clocks arbitrary: seq) (simp_all add: request_id_def Let_def)

lemma of_nat_u64_inject:
  assumes "i < 2 ^ 64" "j < 2 ^ 64" "(of_nat i :: u64) = of_nat j"
  shows "i = j"
proof -
  have "unat (of_nat i :: u64) = i" "unat (of_nat j :: u64) = j"
    using assms(1,2) by (simp_all add: unat_of_nat)
  with assms(3) show ?thesis by metis
qed

text \<open>
  Request ids identify requests: the ids that one process gives to up to \<open>2 ^ 64\<close> successive
  requests are all different, whatever the wall clock says (it may stand still or go back), and two
  processes never share one.
\<close>

theorem request_ids_distinct:
  assumes "length clocks \<le> 2 ^ 64"
  shows "distinct (request_ids pid clocks seq)
    \<and> (\<forall>pid' clocks' seq'. pid' \<noteq> pid \<longrightarrow>
         set (request_ids pid clocks seq) \<inter> set (request_ids pid' clocks' seq') = {})"
proof (intro conjI allI impI)
  show "distinct (request_ids pid clocks seq)"
    unfolding distinct_conv_nth length_request_ids
  proof (intro allI impI notI)
    fix i j
    assume i: "i < length clocks" and j: "j < length clocks" and ij: "i \<noteq> j"
      and eq: "request_ids pid clocks seq ! i = request_ids pid clocks seq ! j"
    from eq have "seq + of_nat i = seq + of_nat j"
      unfolding nth_request_ids[OF i] nth_request_ids[OF j] by (blast dest: request_id_inject)
    then have "i = j" using i j assms by (intro of_nat_u64_inject) simp_all
    with ij show False by simp
  qed
  fix pid' clocks' seq' assume "pid' \<noteq> pid"
  then show "set (request_ids pid clocks seq) \<inter> set (request_ids pid' clocks' seq') = {}"
    by (auto simp: in_set_conv_nth nth_request_ids dest!: request_id_inject)
qed

theorem request_ids_distinct_witness:
  "distinct (request_ids 7 [None, Some 3, Some 3] (- 2))"
  using request_ids_distinct[of "[None, Some 3, Some 3]" 7 "- 2"] by simp

section \<open>Stages\<close>

text \<open>The first thing that ends a stage, if any.\<close>

fun stage_outcome :: "'r stage_wake list \<Rightarrow> 'r stage_end" where
  "stage_outcome [] = StillPending"
| "stage_outcome (StageTick now # ws) = stage_outcome ws"
| "stage_outcome (StageReady now now' r # ws) = Completed r"
| "stage_outcome (StageDropped now # ws) = Interrupted"

definition closes_stage :: "('e \<Rightarrow> error_info) \<Rightarrow> ('e + 'a) stage_end \<Rightarrow> log_event \<Rightarrow> bool" where
  "closes_stage info r e =
     (case r of
        StillPending \<Rightarrow> False
      | Interrupted \<Rightarrow> le_event e = ''stage_interrupted'' \<and> le_level e = WARN
      | Completed (Inr x) \<Rightarrow> le_event e = ''stage_completed'' \<and> le_outcome e = Some ''ok''
          \<and> le_error e = None \<and> le_level e \<in> {DEBUG, WARN}
      | Completed (Inl err) \<Rightarrow> le_event e = ''stage_completed'' \<and> le_outcome e = Some ''error''
          \<and> le_error e = Some (info err) \<and> le_level e = WARN)"

lemma stage_loop_log:
  assumes "stage_loop info g ws = (r, log)" "\<not> sg_completed g"
  shows "r = stage_outcome ws \<and> (\<exists>ticks final. log = ticks @ final
    \<and> (\<forall>e\<in>set ticks. le_event e = ''stage_pending'' \<and> le_level e = WARN \<and> le_stage e = Some (sg_name g))
    \<and> (if r = StillPending then final = []
       else \<exists>e. final = [e] \<and> closes_stage info r e \<and> le_stage e = Some (sg_name g)))"
  using assms
proof (induction ws arbitrary: r log)
  case (Cons w ws)
  show ?case
  proof (cases w)
    case (StageTick now)
    obtain log' where rest: "stage_loop info g ws = (r, log')" and log: "log = stage_pending g now # log'"
      using Cons.prems(1) StageTick by (auto split: prod.splits)
    obtain ticks final where IH: "r = stage_outcome ws" "log' = ticks @ final"
      "\<forall>e\<in>set ticks. le_event e = ''stage_pending'' \<and> le_level e = WARN \<and> le_stage e = Some (sg_name g)"
      "if r = StillPending then final = []
       else \<exists>e. final = [e] \<and> closes_stage info r e \<and> le_stage e = Some (sg_name g)"
      using Cons.IH[OF rest Cons.prems(2)] by blast
    show ?thesis
      using IH StageTick log
      by (intro conjI exI[of _ "stage_pending g now # ticks"] exI[of _ final])
        (simp_all add: stage_pending_def plain_event_def)
  next
    case (StageReady now now' x)
    with Cons.prems show ?thesis
      by (cases x; intro conjI exI[of _ "[]"] exI[of _ log])
        (auto simp: Let_def drop_stage_guard_def stage_completed_def closes_stage_def plain_event_def)
  next
    case (StageDropped now)
    with Cons.prems show ?thesis
      by (intro conjI exI[of _ "[]"] exI[of _ log])
        (auto simp: drop_stage_guard_def closes_stage_def plain_event_def)
  qed
qed simp

text \<open>
  C39. Observing a stage is transparent and accounted for: \<open>observe\<close> gives exactly the result of the
  future (or is dropped with it); its log opens with \<open>stage_started\<close>, then holds only warnings that
  the stage is pending, and closes with exactly one event: \<open>stage_completed\<close> with the outcome and,
  for an error, its classification, or \<open>stage_interrupted\<close> when the task was dropped. Only while
  nothing ended the stage is the closing event missing. All name the stage.
\<close>

theorem observe_reports:
  assumes "observe info name started ws = (r, log)"
  shows "r = stage_outcome ws
    \<and> (\<exists>first ticks final. log = first # ticks @ final \<and> le_event first = ''stage_started''
        \<and> (\<forall>e\<in>set ticks. le_event e = ''stage_pending'' \<and> le_level e = WARN)
        \<and> (if r = StillPending then final = [] else \<exists>e. final = [e] \<and> closes_stage info r e)
        \<and> (\<forall>e\<in>set log. le_stage e = Some name))"
proof -
  let ?g = "\<lparr>sg_name = name, sg_started = started, sg_completed = False\<rparr>"
  obtain log' where loop: "stage_loop info ?g ws = (r, log')"
    and log: "log = (plain_event DEBUG ''stage_started'' ''Stage started'')\<lparr>le_stage := Some name\<rparr> # log'"
    using assms by (auto simp: observe_def split: prod.splits)
  obtain ticks final where L: "r = stage_outcome ws" "log' = ticks @ final"
    "\<forall>e\<in>set ticks. le_event e = ''stage_pending'' \<and> le_level e = WARN \<and> le_stage e = Some name"
    "if r = StillPending then final = []
     else \<exists>e. final = [e] \<and> closes_stage info r e \<and> le_stage e = Some name"
    using stage_loop_log[OF loop] unfolding stage_guard.select_convs by blast
  show ?thesis
    using L log by (intro conjI exI[of _ "hd log"] exI[of _ ticks] exI[of _ final])
      (auto simp: plain_event_def split: if_splits)
qed

theorem observe_reports_witness:
  "fst (observe log_info ''db_query'' 0 [StageTick 5000000000, StageReady 6000000000 6000000001 (Inr ())])
   = Completed (Inr ())"
proof -
  let ?ws = "[StageTick 5000000000, StageReady 6000000000 6000000001 (Inr ())]"
  obtain r log where run: "observe log_info ''db_query'' 0 ?ws = (r, log)" by fastforce
  from observe_reports[OF run] run show ?thesis by simp
qed



section \<open>What the logs hold\<close>

text \<open>
  C40. The request middleware: when header values accept visible ASCII (as the \<open>http\<close> crate
  documents), logging never panics; the response that the client gets is the handler's, with the
  header \<open>x-request-id\<close> set to the id of the request's span and every other header untouched, and
  the log of the request is \<open>request_started\<close> followed by exactly one \<open>request_completed\<close> with
  the response's status, an error for a 5xx answer and never for a 4xx one; a dropped request is
  reported as interrupted instead.
\<close>

theorem log_request_reports:
  assumes "\<And>s. list_all (\<lambda>c. 32 \<le> byte c \<and> byte c < 127) s \<Longrightarrow> from_str s = Some s"
    and "log_request to_str from_str pid clock started req wake seq = ((r, span, log), seq')"
  shows "seq' = seq + 1 \<and> sp_request_id span = fst (request_id pid clock seq)
    \<and> (case wake of
         RequestDropped now \<Rightarrow> r = RequestInterrupted
           \<and> map le_event log = [''request_started'', ''request_interrupted'']
       | Responded now now' response \<Rightarrow>
           r = RequestDone (response\<lparr>hr_headers :=
                 (hr_headers response)(''x-request-id'' := [sp_request_id span])\<rparr>)
           \<and> map le_event log = [''request_started'', ''request_completed'']
           \<and> le_status (last log) = Some (hr_status response)
           \<and> (500 \<le> hr_status response \<and> hr_status response < 600 \<longleftrightarrow> le_level (last log) = ERROR)
           \<and> (400 \<le> hr_status response \<and> hr_status response < 500 \<longrightarrow> le_level (last log) = WARN))"
proof -
  obtain rid where rid: "request_id pid clock seq = (rid, seq + 1)"
    by (simp add: request_id_def Let_def)
  have "from_str rid = Some rid"
    using assms(1) request_id_visible[of pid clock seq] rid by simp
  with assms(2) rid show ?thesis
    by (cases wake)
      (auto simp: log_request_def Let_def request_span_of_def drop_request_guard_def plain_event_def
        headers_insert_def REQUEST_ID_HEADER_def request_completed_def split: if_splits)
qed

theorem log_request_reports_witness:
  "snd (log_request Some Some 7 None 0 \<lparr>hq_method = ''GET'', hq_matched_path = None, hq_headers = (\<lambda>_. [])\<rparr>
     (Responded 0 0 \<lparr>hr_status = 404, hr_headers = (\<lambda>_. []), hr_body = ()\<rparr>) 5) = 6"
proof -
  let ?req = "\<lparr>hq_method = ''GET'', hq_matched_path = None, hq_headers = (\<lambda>_. [])\<rparr>"
  let ?wake = "Responded 0 0 \<lparr>hr_status = 404, hr_headers = (\<lambda>_. []), hr_body = ()\<rparr>"
  obtain r span log seq' where run: "log_request Some Some 7 None 0 ?req ?wake 5 = ((r, span, log), seq')"
    by (metis prod.collapse)
  from log_request_reports[OF _ run] run show ?thesis by simp
qed

definition error_codes :: "rstr list" where
  "error_codes =
     [''database'', ''netlink'', ''bird_io'', ''bird_reload'', ''nftables'', ''registry_unavailable'',
      ''registry_mismatch'', ''unauthorized_challenge'', ''signature_verification_failed'',
      ''validation_failed'', ''not_found'', ''already_exists'', ''invalid_ip'', ''invalid_asn'',
      ''invalid_wg_pubkey_length'', ''invalid_wg_pubkey_base64'', ''registry'']"

definition error_kinds :: "rstr list" where
  "error_kinds =
     [''pool_timeout'', ''pool_closed'', ''io'', ''tls'', ''server'', ''other'', ''timeout'',
      ''concurrency_limit'', ''connect'', ''http_status'', ''decode''] @ error_codes"

definition logged_info_safe :: "error_info \<Rightarrow> bool" where
  "logged_info_safe info =
     (info_code info \<in> set error_codes \<and> info_kind info \<in> set error_kinds
      \<and> (\<forall>c. info_sqlstate info = Some c \<longrightarrow> length c = 5 \<and> list_all is_ascii_alphanumeric c))"

lemma error_code_known: "error_code e \<in> set error_codes"
  by (cases e) (simp_all add: error_codes_def)

lemma error_kind_known: "error_kind e \<in> set error_kinds"
proof -
  have "error_kind e = error_code e \<or> error_kind e = ''timeout'' \<or> error_kind e = ''concurrency_limit''"
    by (cases e) simp_all
  moreover have "set error_codes \<subseteq> set error_kinds" "''timeout'' \<in> set error_kinds"
    "''concurrency_limit'' \<in> set error_kinds"
    by (auto simp: error_kinds_def)
  ultimately show ?thesis using error_code_known[of e] by auto
qed

lemma sqlx_info_safe: "logged_info_safe (sqlx_log_info e)"
  by (cases e)
    (auto simp: logged_info_safe_def sqlx_log_info_def error_info_new_def Let_def error_codes_def
      error_kinds_def split: option.splits if_splits)

lemma log_info_safe: "logged_info_safe (log_info e)"
proof (cases "\<exists>source. e = Database source")
  case True
  then show ?thesis using sqlx_info_safe by (auto simp: log_info_def)
next
  case False
  then have "info_code (log_info e) = error_code e" "info_kind (log_info e) = error_kind e"
    "info_sqlstate (log_info e) = None"
    by (cases e; simp add: log_info_def error_info_new_def)+
  then show ?thesis
    using error_code_known[of e] error_kind_known[of e] by (simp add: logged_info_safe_def)
qed

lemma reqwest_info_safe: "logged_info_safe (reqwest_log_info e)"
  by (auto simp: logged_info_safe_def reqwest_log_info_def error_info_new_def Let_def error_codes_def
      error_kinds_def)

definition failure_hides :: "log_event \<Rightarrow> bool" where
  "failure_hides e =
     (le_message e \<in> {''Request rejected'', ''Operation failed''} \<and> le_stage e = None \<and> le_outcome e = None
      \<and> (\<forall>info. le_error e = Some info \<longrightarrow> logged_info_safe info))"

text \<open>
  Failures are logged as codes: whatever text an error of the service, of the database or of the
  registry client carries (keys, nonces, connection URLs, command output), the failure event holds
  only a code and a kind from fixed lists, an OS or HTTP number and a SQLSTATE of five alphanumeric
  characters; a failed answer is logged as a warning exactly when it is the client's fault.
\<close>

theorem failures_logged_as_codes:
  "failure_hides (log_failure log_info event e)
   \<and> failure_hides (log_failure sqlx_log_info event db)
   \<and> failure_hides (log_failure reqwest_log_info event http)
   \<and> failure_hides (log_api_failure (fst (into_response e)) (log_info e))
   \<and> (le_level (log_api_failure (fst (into_response e)) (log_info e)) = WARN
        \<longleftrightarrow> fst (into_response e) < 500)"
proof -
  have hides: "failure_hides (emit_failure ev info st) = logged_info_safe info" for ev info st
    by (simp add: failure_hides_def emit_failure_def plain_event_def)
  show ?thesis
    by (simp add: log_failure_def log_api_failure_def hides log_info_safe sqlx_info_safe
        reqwest_info_safe) (simp add: emit_failure_def plain_event_def)
qed

lemma emit_failure_level: "le_level (emit_failure event info status) = emit_failure_level status"
  by (simp add: emit_failure_def emit_failure_level_def plain_event_def split: option.split)

text \<open>
  The one client-supplied text in a request's span, the \<open>cf-ray\<close> header, is short and plain: at
  most 64 letters, digits and dashes, so it holds no separator, quote or control character; the
  client's own \<open>x-request-id\<close> and the query never enter the span, and recording the peer changes
  only the peer's fields.
\<close>

theorem span_is_plain:
  "(\<forall>v. cloudflare_ray to_str req = Some v \<longrightarrow>
      0 < length v \<and> length v \<le> 64 \<and> (\<forall>c\<in>set v. is_ascii_alphanumeric c \<or> c = CHR ''-''))
   \<and> request_span_of to_str rid (req\<lparr>hq_headers := (hq_headers req)(''x-request-id'' := vs)\<rparr>)
     = request_span_of to_str rid req
   \<and> sp_request_id (record_peer asn name (request_span_of to_str rid req)) = rid
   \<and> sp_cf_ray (record_peer asn name (request_span_of to_str rid req)) = cloudflare_ray to_str req"
  by (auto simp: cloudflare_ray_def request_span_of_def record_peer_def Let_def list_all_iff
      split: list.splits option.splits if_splits)

theorem span_is_plain_witness:
  "list_all (\<lambda>c. is_ascii_alphanumeric c \<or> c = CHR ''-'') ''abc123-SIN''"
proof -
  let ?req = "\<lparr>hq_method = ''GET'', hq_matched_path = None, hq_headers = (\<lambda>_. [''abc123-SIN''])\<rparr>"
  have "cloudflare_ray Some ?req = Some ''abc123-SIN''" by code_simp
  with span_is_plain[of Some ?req] show ?thesis unfolding list_all_iff by blast
qed



end
