(* ===== verification/Startup.thy ===== *)
theory Startup
  imports Handle Connect Observe
begin

text \<open>
  \<open>src/main.rs\<close>: reading the configuration, the order of startup, the periodic nftables
  reconciler, and the listener of the database's change notifications as a transition relation. A
  panic at startup (\<open>expect\<close>, \<open>unwrap\<close>, \<open>assert_eq!\<close>) is an error value. What crates outside the
  repository answer is the record \<open>startup_deps\<close>.
\<close>

section \<open>Configuration\<close>

definition env_or :: "env \<Rightarrow> rstr \<Rightarrow> rstr \<Rightarrow> rstr" where
  "env_or E var fallback = (case env_var E var of None \<Rightarrow> fallback | Some v \<Rightarrow> v)"

text \<open>The value of \<open>expect\<close>: the message of its panic, or the result.\<close>

definition expect :: "rstr \<Rightarrow> 'a option \<Rightarrow> rstr + 'a" where
  "expect message v = ok_or message v"

text \<open>\<open>IpAddr::from_str\<close> tries the dotted form first.\<close>

definition parse_ip_addr :: "rstr \<Rightarrow> ip_addr option" where
  "parse_ip_addr s =
     (case read_ipv4_groups s of
        Some (gs, rest) \<Rightarrow>
          (case gs of [hi, lo] \<Rightarrow> if rest = [] then Some (IpV4 hi lo) else None | _ \<Rightarrow> None)
      | None \<Rightarrow> map_option IpV6 (parse_ipv6 s))"

text \<open>A directory given as text; a relative one starts at the root, the unit's working directory.\<close>

definition dir_path :: "rstr \<Rightarrow> path" where
  "dir_path s = filter (\<lambda>c. c \<noteq> [] \<and> c \<noteq> ''.'') (split_slash s)"

record startup_deps =
  sd_from_str :: "rstr \<Rightarrow> sqlx_error + pg_options"
  sd_host_str :: "rstr \<Rightarrow> rstr option"
  sd_client :: "rstr option"
  sd_get_public :: "u8 list \<Rightarrow> u8 list"
  sd_bind :: "ip_addr \<Rightarrow> u16 \<Rightarrow> io_error option"

definition load_wg_keypair :: "env \<Rightarrow> (u8 list \<Rightarrow> u8 list) \<Rightarrow> rstr + rstr \<times> rstr" where
  "load_wg_keypair E get_public =
     res_bind (expect ''WG_PRIVATE_KEY is required'' (env_var E ''WG_PRIVATE_KEY'')) (\<lambda>private_key.
     res_bind (expect ''WG_PUBLIC_KEY is required'' (env_var E ''WG_PUBLIC_KEY'')) (\<lambda>public_key.
     res_bind (expect ''WG_PRIVATE_KEY must be a valid WireGuard private key''
                 (key_from_base64 E private_key)) (\<lambda>parsed_private.
     res_bind (expect ''WG_PUBLIC_KEY must be a valid WireGuard public key''
                 (key_from_base64 E public_key)) (\<lambda>parsed_public.
     if get_public parsed_private \<noteq> parsed_public
     then Inl ''WG_PUBLIC_KEY does not match WG_PRIVATE_KEY''
     else Inr (private_key, public_key)))))"

definition load_local_asn :: "env \<Rightarrow> rstr + u32" where
  "load_local_asn E =
     expect ''LOCAL_ASN must be a valid u32 integer'' (parse_u32 (env_or E ''LOCAL_ASN'' ''4242420291''))"

definition load_listen_address :: "env \<Rightarrow> rstr + ip_addr \<times> u16" where
  "load_listen_address E =
     res_bind (expect ''PORT must be a valid u16 integer'' (parse_u16 (env_or E ''PORT'' ''8080''))) (\<lambda>port.
     res_bind (expect ''LISTEN_ADDRESS must be a valid IPv4 or IPv6 address''
                 (parse_ip_addr (env_or E ''LISTEN_ADDRESS'' ''127.0.0.1''))) (\<lambda>address.
     Inr (address, port)))"

definition manager_new :: "env \<Rightarrow> rstr \<times> rstr \<Rightarrow> u32 \<Rightarrow> peer_manager" where
  "manager_new E keys asn =
     \<lparr>bird_conf_dir = dir_path (env_or E ''BIRD_CONF_DIR'' ''/run/dn42-autopeer''),
      bird_socket = env_or E ''BIRD_SOCKET'' ''/run/bird/bird.ctl'',
      local_wg_privkey = fst keys, local_wg_pubkey = snd keys,
      public_endpoint = env_or E ''PUBLIC_ENDPOINT'' ''dn42-node.example.com'', local_asn = asn\<rparr>"

section \<open>Startup\<close>

record server =
  sv_state :: app_state
  sv_address :: ip_addr
  sv_port :: u16

definition startup ::
  "startup_deps \<Rightarrow> env \<Rightarrow> catalog \<times> world \<Rightarrow> (rstr + server) \<times> catalog \<times> world" where
  "startup d E cw =
     (case cw of (cat, w) \<Rightarrow>
      let dir = dir_path (env_or E ''BIRD_CONF_DIR'' ''/run/dn42-autopeer'') in
      case fs_io E dir (create_dir_all dir) w of
        (Inl _, w1) \<Rightarrow> (Inl ''Failed to create the BIRD config directory'', cat, w1)
      | (Inr _, w1) \<Rightarrow>
      (case load_wg_keypair E (sd_get_public d) of
        Inl panic \<Rightarrow> (Inl panic, cat, w1)
      | Inr keys \<Rightarrow>
      (case load_local_asn E of
        Inl panic \<Rightarrow> (Inl panic, cat, w1)
      | Inr asn \<Rightarrow>
      (case peer_store_new E (sd_from_str d) (sd_host_str d) (cat, w1) of
        (Inl _, cat2, w2) \<Rightarrow> (Inl ''Failed to initialize database'', cat2, w2)
      | (Inr _, cat2, w2) \<Rightarrow>
      (case authorizer_new E (sd_client d) of
        Inl _ \<Rightarrow> (Inl ''Failed to initialize request authentication'', cat2, w2)
      | Inr authorizer \<Rightarrow>
      (let m = manager_new E keys asn in
       case recover E m w2 of
        (Inl _, w3) \<Rightarrow> (Inl ''Failed to recover peer state'', cat2, w3)
      | (Inr _, w3) \<Rightarrow>
      (case load_listen_address E of
        Inl panic \<Rightarrow> (Inl panic, cat2, w3)
      | Inr (address, port) \<Rightarrow>
      (case sd_bind d address port of
        Some e \<Rightarrow> (Inl (io_text e), cat2, w3)
      | None \<Rightarrow>
          (Inr \<lparr>sv_state = \<lparr>st_manager = m, st_authorizer = authorizer\<rparr>,
                sv_address = address, sv_port = port\<rparr>, cat2, w3)))))))))"

section \<open>The periodic reconciler\<close>

definition nft_reconcile :: "env \<Rightarrow> world \<Rightarrow> log_event list \<times> world" where
  "nft_reconcile E w =
     (case sync_nft_ports E w of
        (Inl error, w') \<Rightarrow> ([log_failure log_info ''nft_reconcile_failed'' error], w')
      | (Inr _, w') \<Rightarrow> ([], w'))"

text \<open>The endless loop, cut after a number of ticks.\<close>

fun nft_reconciler :: "env \<Rightarrow> nat \<Rightarrow> world \<Rightarrow> log_event list \<times> world" where
  "nft_reconciler E 0 w = ([], w)"
| "nft_reconciler E (Suc ticks) w =
     (case nft_reconcile E w of
        (log, w1) \<Rightarrow> (case nft_reconciler E ticks w1 of (log', w2) \<Rightarrow> (log @ log', w2)))"

section \<open>The change listener\<close>

datatype phase = Connecting | Subscribing | Syncing rstr | Waiting | Sleeping

datatype action =
    Connect "sqlx_error option"
  | Listen "sqlx_error option"
  | Sync rstr "peer_error + unit"
  | Notified
  | RetryTick
  | Disconnected sqlx_error
  | Slept

text \<open>
  \<open>run_peer_change_listener\<close>: one rule per way that the loop goes on. \<open>Syncing\<close> holds the name of the
  stage; the result of a synchronization is only logged. \<open>Sleeping\<close> is the pause of five seconds
  before the next connection.
\<close>

inductive listener_step ::
  "env \<Rightarrow> peer_manager \<Rightarrow> phase \<times> world \<Rightarrow> action \<Rightarrow> phase \<times> world \<Rightarrow> bool"
  for E :: env and m :: peer_manager where
  connected: "listener_step E m (Connecting, w) (Connect None) (Subscribing, await E w)"
| not_connected: "listener_step E m (Connecting, w) (Connect (Some e)) (Sleeping, await E w)"
| subscribed: "listener_step E m (Subscribing, w) (Listen None) (Syncing ''peer_change_sync'', await E w)"
| not_subscribed: "listener_step E m (Subscribing, w) (Listen (Some e)) (Sleeping, await E w)"
| synced: "sync_pending_peer_changes E m w = (r, w') \<Longrightarrow>
     listener_step E m (Syncing stage, w) (Sync stage r) (Waiting, w')"
| notified: "listener_step E m (Waiting, w) Notified (Syncing ''peer_change_sync'', await E w)"
| tick: "listener_step E m (Waiting, w) RetryTick (Syncing ''peer_change_retry'', await E w)"
| disconnected: "listener_step E m (Waiting, w) (Disconnected e) (Sleeping, await E w)"
| slept: "listener_step E m (Sleeping, w) Slept (Connecting, await E w)"

inductive_cases from_connecting: "listener_step E m (Connecting, w) a c"
inductive_cases from_subscribing: "listener_step E m (Subscribing, w) a c"
inductive_cases from_syncing: "listener_step E m (Syncing stage, w) a c"
inductive_cases from_waiting: "listener_step E m (Waiting, w) a c"
inductive_cases from_sleeping: "listener_step E m (Sleeping, w) a c"
inductive_cases to_waiting: "listener_step E m c a (Waiting, w)"
inductive_cases to_syncing: "listener_step E m c a (Syncing stage, w)"

lemmas listener_phases =
  from_connecting from_subscribing from_syncing from_waiting from_sleeping

text \<open>What each action logs.\<close>

fun listener_log :: "action \<Rightarrow> log_event list" where
  "listener_log (Connect (Some e)) = [log_failure sqlx_log_info ''db_listener_connect_failed'' e]"
| "listener_log (Listen (Some e)) = [log_failure sqlx_log_info ''db_listener_subscribe_failed'' e]"
| "listener_log (Listen None) = [plain_event INFO ''db_listener_ready'' ''Database change listener ready'']"
| "listener_log (Sync stage (Inl e)) =
     [log_failure log_info (if stage = ''peer_change_retry'' then ''peer_change_retry_failed''
        else ''peer_change_sync_failed'') e]"
| "listener_log (Disconnected e) =
     [log_failure sqlx_log_info ''db_listener_disconnected'' e,
      plain_event WARN ''db_listener_reconnecting'' ''Database listener reconnect pending'']"
| "listener_log a = []"

inductive listener_run ::
  "env \<Rightarrow> peer_manager \<Rightarrow> phase \<times> world \<Rightarrow> action list \<Rightarrow> phase \<times> world \<Rightarrow> bool"
  for E :: env and m :: peer_manager where
  stop: "listener_run E m c [] c"
| more: "listener_run E m c tr c' \<Longrightarrow> listener_step E m c' a c'' \<Longrightarrow> listener_run E m c (tr @ [a]) c''"

inductive_cases listener_run_snocE: "listener_run E m c (tr @ [a]) c'"

section \<open>Startup fails closed\<close>

lemma keypair_ok:
  "load_wg_keypair E get_public = Inr keys \<longleftrightarrow>
   env_var E ''WG_PRIVATE_KEY'' = Some (fst keys) \<and> env_var E ''WG_PUBLIC_KEY'' = Some (snd keys)
   \<and> (\<exists>k. key_from_base64 E (fst keys) = Some k \<and> key_from_base64 E (snd keys) = Some (get_public k))"
  by (cases keys) (auto simp: load_wg_keypair_def expect_def res_bind_Inr split: if_splits)

lemma startup_ok:
  assumes "startup d E (cat, w) = (Inr sv, cat', w')"
  obtains keys asn w1 opts w2 where "load_wg_keypair E (sd_get_public d) = Inr keys" "load_local_asn E = Inr asn"
    and "peer_store_new E (sd_from_str d) (sd_host_str d) (cat, w1) = (Inr opts, cat', w2)"
    and "st_manager (sv_state sv) = manager_new E keys asn"
    and "recover E (manager_new E keys asn) w2 = (Inr (), w')"
    and "load_listen_address E = Inr (sv_address sv, sv_port sv)"
    and "sd_bind d (sv_address sv) (sv_port sv) = None"
    and "authorizer_new E (sd_client d) = Inr (st_authorizer (sv_state sv))"
  using assms unfolding startup_def Let_def prod.case
  by (auto split: prod.splits sum.splits option.splits)

lemma fs_io_beside:
  assumes "quiet E" "tick_free v" "\<And>w fs. v (w\<lparr>w_fs := fs\<rparr>) = v w"
  shows "v (snd (fs_io E p q w)) = v w"
proof -
  have "keeps v (fs_io E p q)"
    unfolding fs_io_def by (rule keeps_ext_call[OF assms(1,2)]) (simp add: assms(3) split: prod.split)
  then show ?thesis by (simp add: keeps_def)
qed

lemma startup_bad_config:
  assumes "(\<forall>keys. load_wg_keypair E (sd_get_public d) \<noteq> Inr keys) \<or> (\<forall>asn. load_local_asn E \<noteq> Inr asn)"
    and "startup d E (cat, w) = (r, cat', w')"
  shows "(\<exists>msg. r = Inl msg) \<and> cat' = cat \<and> (quiet E \<longrightarrow> db_view w' = db_view w
    \<and> kernel_view w' = kernel_view w \<and> nft_view w' = nft_view w)"
proof -
  let ?dir = "dir_path (env_or E ''BIRD_CONF_DIR'' ''/run/dn42-autopeer'')"
  obtain r1 w1 where io: "fs_io E ?dir (create_dir_all ?dir) w = (r1, w1)" by fastforce
  have "(\<exists>msg. r = Inl msg) \<and> cat' = cat \<and> w' = w1"
    using assms unfolding startup_def Let_def prod.case io
    by (cases r1; cases "load_wg_keypair E (sd_get_public d)"; cases "load_local_asn E") auto
  moreover have "quiet E \<longrightarrow> db_view w1 = db_view w \<and> kernel_view w1 = kernel_view w \<and> nft_view w1 = nft_view w"
    using fs_io_beside[of E db_view ?dir "create_dir_all ?dir" w]
      fs_io_beside[of E kernel_view ?dir "create_dir_all ?dir" w]
      fs_io_beside[of E nft_view ?dir "create_dir_all ?dir" w] io
    by (simp add: db_view_def kernel_view_def nft_view_def)
  ultimately show ?thesis by blast
qed

text \<open>
  C34. Startup fails closed. A server that takes requests has a WireGuard key pair whose public half
  belongs to its private half, a valid ASN and listen address, the whole schema in place, and a
  recovery that succeeded as the last thing before it; with a missing, malformed or mismatched key pair
  or ASN it panics before it touches the database, the kernel or nftables.
\<close>

theorem startup_fails_closed:
  assumes "startup d E (cat, w) = (r, cat', w')"
  shows "(case r of
      Inr sv \<Rightarrow>
        (let m = st_manager (sv_state sv) in
         env_var E ''WG_PRIVATE_KEY'' = Some (local_wg_privkey m)
         \<and> env_var E ''WG_PUBLIC_KEY'' = Some (local_wg_pubkey m)
         \<and> (\<exists>k. key_from_base64 E (local_wg_privkey m) = Some k
               \<and> key_from_base64 E (local_wg_pubkey m) = Some (sd_get_public d k))
         \<and> load_local_asn E = Inr (local_asn m)
         \<and> load_listen_address E = Inr (sv_address sv, sv_port sv)
         \<and> list_all (present cat') schema_statements
         \<and> (\<exists>w2. recover E m w2 = (Inr (), w')))
    | Inl msg \<Rightarrow> True)
    \<and> ((\<forall>keys. load_wg_keypair E (sd_get_public d) \<noteq> Inr keys) \<or> (\<forall>asn. load_local_asn E \<noteq> Inr asn)
       \<longrightarrow> (\<exists>msg. r = Inl msg) \<and> cat' = cat \<and> (quiet E \<longrightarrow> db_view w' = db_view w
           \<and> kernel_view w' = kernel_view w \<and> nft_view w' = nft_view w))"
proof (intro conjI impI)
  assume "(\<forall>keys. load_wg_keypair E (sd_get_public d) \<noteq> Inr keys) \<or> (\<forall>asn. load_local_asn E \<noteq> Inr asn)"
  from startup_bad_config[OF this assms] show "\<exists>msg. r = Inl msg" "cat' = cat"
    "quiet E \<Longrightarrow> db_view w' = db_view w" "quiet E \<Longrightarrow> kernel_view w' = kernel_view w"
    "quiet E \<Longrightarrow> nft_view w' = nft_view w"
    by blast+
next
  show "case r of
      Inr sv \<Rightarrow>
        (let m = st_manager (sv_state sv) in
         env_var E ''WG_PRIVATE_KEY'' = Some (local_wg_privkey m)
         \<and> env_var E ''WG_PUBLIC_KEY'' = Some (local_wg_pubkey m)
         \<and> (\<exists>k. key_from_base64 E (local_wg_privkey m) = Some k
               \<and> key_from_base64 E (local_wg_pubkey m) = Some (sd_get_public d k))
         \<and> load_local_asn E = Inr (local_asn m)
         \<and> load_listen_address E = Inr (sv_address sv, sv_port sv)
         \<and> list_all (present cat') schema_statements
         \<and> (\<exists>w2. recover E m w2 = (Inr (), w')))
    | Inl msg \<Rightarrow> True"
  proof (cases r)
    case (Inr sv)
    from startup_ok[OF assms[unfolded Inr]] obtain keys asn w1 opts w2 where S:
      "load_wg_keypair E (sd_get_public d) = Inr keys" "load_local_asn E = Inr asn"
      "peer_store_new E (sd_from_str d) (sd_host_str d) (cat, w1) = (Inr opts, cat', w2)"
      "st_manager (sv_state sv) = manager_new E keys asn" "recover E (manager_new E keys asn) w2 = (Inr (), w')"
      "load_listen_address E = Inr (sv_address sv, sv_port sv)" .
    then show ?thesis
      using Inr peer_store_new_result[OF S(3)] keypair_ok[of E "sd_get_public d" keys]
      by (auto simp: Let_def manager_new_def)
  qed simp
qed

definition sample_deps :: startup_deps where
  "sample_deps =
     \<lparr>sd_from_str = (\<lambda>_. Inr tcp_options), sd_host_str = (\<lambda>_. None), sd_client = None,
      sd_get_public = id, sd_bind = (\<lambda>_ _. None)\<rparr>"

theorem startup_fails_closed_witness:
  "\<exists>msg. fst (startup sample_deps sample_env (\<lparr>cat_tables = [], cat_functions = [], cat_triggers = []\<rparr>, empty_world)) = Inl msg"
proof -
  obtain r cat' w' where run: "startup sample_deps sample_env
      (\<lparr>cat_tables = [], cat_functions = [], cat_triggers = []\<rparr>, empty_world) = (r, cat', w')"
    by (metis prod.collapse)
  have "\<forall>keys. load_wg_keypair sample_env (sd_get_public sample_deps) \<noteq> Inr keys"
    by (simp add: load_wg_keypair_def expect_def)
  with startup_fails_closed[OF run] run show ?thesis by auto
qed



section \<open>The listener never misses a change\<close>

lemma listener_steps_from: "listener_step E m c a c' \<Longrightarrow> fst c \<noteq> fst c'"
  by (induction rule: listener_step.induct) simp_all

lemma waiting_after_sync:
  assumes "listener_run E m (Connecting, w) tr (Waiting, w')"
  shows "\<exists>tr' stage r w1. tr = tr' @ [Sync stage r] \<and> listener_run E m (Connecting, w) tr' (Syncing stage, w1)
    \<and> sync_pending_peer_changes E m w1 = (r, w')"
  using assms by (cases rule: listener_run.cases) (auto elim!: to_waiting)

lemma run_phase_history:
  "listener_run E m c tr c' \<Longrightarrow> fst c = Connecting \<Longrightarrow>
   (fst c' \<in> {Waiting} \<union> range Syncing \<longrightarrow> Listen None \<in> set tr)
   \<and> (\<forall>stage. fst c' = Syncing stage \<longrightarrow> tr \<noteq> [] \<and> last tr \<in> {Listen None, Notified, RetryTick})"
proof (induction rule: listener_run.induct)
  case (more c tr c' a c'')
  from more.hyps(2) more.IH[OF more.prems] show ?case
    by (cases rule: listener_step.cases) auto
qed auto

text \<open>
  No change is missed: whenever the listener waits, it is subscribed, and the last thing it did is
  a full synchronization of the pending changes, begun right after the subscription, notification or
  timer tick that woke it. So a change committed while the listener was disconnected is picked up
  before the listener waits again, however often the connection fails.
\<close>

theorem listener_syncs_before_waiting:
  assumes "listener_run E m (Connecting, w) tr (Waiting, w')"
  shows "\<exists>tr' wake stage r w1. tr = tr' @ [wake, Sync stage r]
    \<and> wake \<in> {Listen None, Notified, RetryTick} \<and> Listen None \<in> set tr
    \<and> listener_run E m (Connecting, w) (tr' @ [wake]) (Syncing stage, w1)
    \<and> sync_pending_peer_changes E m w1 = (r, w')"
proof -
  obtain tr1 stage r w1 where tr: "tr = tr1 @ [Sync stage r]"
    and before: "listener_run E m (Connecting, w) tr1 (Syncing stage, w1)"
    and sync: "sync_pending_peer_changes E m w1 = (r, w')"
    using waiting_after_sync[OF assms] by blast
  from run_phase_history[OF before] have "tr1 \<noteq> []" "last tr1 \<in> {Listen None, Notified, RetryTick}"
    and "Listen None \<in> set tr1" by auto
  moreover from \<open>tr1 \<noteq> []\<close> have "tr1 = butlast tr1 @ [last tr1]" by simp
  ultimately show ?thesis using tr before sync
    by (intro exI[of _ "butlast tr1"] exI[of _ "last tr1"]) auto
qed

lemma first_sync_run:
  "sync_pending_peer_changes E m (await E (await E w)) = (r, w') \<Longrightarrow>
   listener_run E m (Connecting, w) [Connect None, Listen None, Sync ''peer_change_sync'' r] (Waiting, w')"
  using listener_run.more[OF listener_run.more[OF listener_run.more[OF listener_run.stop
    listener_step.connected] listener_step.subscribed] listener_step.synced, of E m w r w'] by simp

theorem listener_syncs_before_waiting_witness:
  "\<exists>wake. wake \<in> {Listen None, Notified, RetryTick} \<and>
     wake \<in> set [Connect None, Listen None, Sync ''peer_change_sync''
       (fst (sync_pending_peer_changes sample_env (st_manager sample_state) (empty_world\<lparr>w_tick := 2\<rparr>)))]"
proof -
  have "sync_pending_peer_changes sample_env (st_manager sample_state) (await sample_env (await sample_env empty_world))
     = (fst (sync_pending_peer_changes sample_env (st_manager sample_state) (empty_world\<lparr>w_tick := 2\<rparr>)),
        snd (sync_pending_peer_changes sample_env (st_manager sample_state) (empty_world\<lparr>w_tick := 2\<rparr>)))"
    by (simp add: empty_world_def numeral_2_eq_2)
  from listener_syncs_before_waiting[OF first_sync_run[OF this]] show ?thesis by fastforce
qed

section \<open>The listener never stops\<close>

fun failing :: "action \<Rightarrow> bool" where
  "failing (Connect (Some e)) = True"
| "failing (Listen (Some e)) = True"
| "failing (Disconnected e) = True"
| "failing a = False"

text \<open>How far the listener is from its next synchronization when no connection fails.\<close>

fun distance :: "phase \<Rightarrow> nat" where
  "distance (Syncing stage) = 0"
| "distance Waiting = 1"
| "distance Subscribing = 1"
| "distance Connecting = 2"
| "distance Sleeping = 3"

lemma listener_enabled: "\<exists>a c'. \<not> failing a \<and> listener_step E m c a c'"
proof -
  obtain ph w where c: "c = (ph, w)" by fastforce
  obtain r w' where sync: "sync_pending_peer_changes E m w = (r, w')" by fastforce
  show ?thesis
    unfolding c
  proof (cases ph)
    case (Syncing stage)
    with sync show "\<exists>a c'. \<not> failing a \<and> listener_step E m (ph, w) a c'"
      by (intro exI[of _ "Sync stage r"] exI[of _ "(Waiting, w')"]) (simp add: listener_step.synced)
  next
    case Connecting
    show "\<exists>a c'. \<not> failing a \<and> listener_step E m (ph, w) a c'"
      unfolding Connecting by (rule exI, rule exI, rule conjI[OF _ listener_step.connected]) simp
  next
    case Subscribing
    show "\<exists>a c'. \<not> failing a \<and> listener_step E m (ph, w) a c'"
      unfolding Subscribing by (rule exI, rule exI, rule conjI[OF _ listener_step.subscribed]) simp
  next
    case Waiting
    show "\<exists>a c'. \<not> failing a \<and> listener_step E m (ph, w) a c'"
      unfolding Waiting by (rule exI, rule exI, rule conjI[OF _ listener_step.notified]) simp
  next
    case Sleeping
    show "\<exists>a c'. \<not> failing a \<and> listener_step E m (ph, w) a c'"
      unfolding Sleeping by (rule exI, rule exI, rule conjI[OF _ listener_step.slept]) simp
  qed
qed

lemma listener_closer:
  "listener_step E m c a c' \<Longrightarrow> \<not> failing a \<Longrightarrow> (\<forall>stage r. a \<noteq> Sync stage r) \<Longrightarrow>
   distance (fst c) = Suc (distance (fst c'))"
  by (induction rule: listener_step.induct) simp_all

lemma listener_distance:
  "listener_run E m c tr c' \<Longrightarrow> \<forall>a\<in>set tr. \<not> failing a \<Longrightarrow> \<forall>stage r. Sync stage r \<notin> set tr \<Longrightarrow>
   length tr + distance (fst c') = distance (fst c)"
proof (induction rule: listener_run.induct)
  case (more c tr c' a c'')
  have "\<not> failing a" "\<forall>stage r. a \<noteq> Sync stage r" using more.prems by auto
  from listener_closer[OF more.hyps(2) this] more.IH more.prems show ?case by auto
qed simp

text \<open>
  C33. The listener is live: from every state it can go on without a failure, it never ends, and
  wherever it stands, four steps in a row without a failed connection, subscription or receive include
  a synchronization of the pending changes, even if every synchronization itself fails.
\<close>

theorem listener_live:
  "(\<exists>a c'. \<not> failing a \<and> listener_step E m c a c')
   \<and> (listener_run E m c tr c' \<and> length tr = 4 \<and> (\<forall>a\<in>set tr. \<not> failing a)
        \<longrightarrow> (\<exists>stage r. Sync stage r \<in> set tr))"
proof (intro conjI impI listener_enabled)
  assume run: "listener_run E m c tr c' \<and> length tr = 4 \<and> (\<forall>a\<in>set tr. \<not> failing a)"
  show "\<exists>stage r. Sync stage r \<in> set tr"
  proof (rule ccontr)
    assume "\<not> (\<exists>stage r. Sync stage r \<in> set tr)"
    with run listener_distance[of E m c tr c'] have "4 \<le> distance (fst c)" by auto
    then show False by (cases "fst c") simp_all
  qed
qed

theorem listener_live_witness:
  "\<exists>a c'. \<not> failing a \<and> listener_step sample_env (st_manager sample_state) (Sleeping, empty_world) a c'"
  using listener_live[of sample_env "st_manager sample_state" "(Sleeping, empty_world)" "[]" "(Sleeping, empty_world)"]
  by blast



end
