(* ===== verification/Outcomes.thy ===== *)
theory Outcomes
  imports Lifecycle BirdSync
begin

text \<open>
  What the operations of \<open>PeerManager\<close> leave behind: the specification says, from the rows of the
  database alone, which configuration files BIRD has to be served and which ports have to be open. Every
  operation that succeeds leaves both in line with the rows it leaves.
\<close>

section \<open>The specification\<close>

definition conf_files :: "env \<Rightarrow> peer_manager \<Rightarrow> peer_row list \<Rightarrow> (rstr \<times> rstr) set" where
  "conf_files E m rows =
     {(c, t). \<exists>r\<in>set rows. desired_row r \<and> (\<exists>p. row_to_peer (b64_decode E) r = Inr p
        \<and> c = p_iface_name p @ ''.conf'' \<and> t = render_peer_config E m p)}"

definition open_ports :: "peer_row list \<Rightarrow> u16 set" where
  "open_ports rows = (\<lambda>r. of_int (c_listen_port r)) ` {r \<in> set rows. desired_row r}"

definition bird_matches :: "env \<Rightarrow> peer_manager \<Rightarrow> world \<Rightarrow> bool" where
  "bird_matches E m w =
     (\<exists>files. serves (bird_conf_dir m) (w_fs w) files
        \<and> {(c, t). files c = Some t} = conf_files E m (w_peers w))"

definition nft_matches :: "world \<Rightarrow> bool" where
  "nft_matches w =
     (w_nft_log w \<noteq> [] \<and> nft_eval (last (w_nft_log w)) = Some (open_ports (w_peers w)))"

text \<open>One task at a time, real services, and an \<open>nft\<close> whose exit code can be trusted.\<close>

definition calm :: "env \<Rightarrow> bool" where
  "calm E = (quiet E \<and> \<not> mocked E ''MOCK_BIRD'' \<and> \<not> mocked E ''MOCK_NFTABLES''
     \<and> \<not> mocked E ''MOCK_NETLINK'' \<and> nft_honest E)"

definition sound :: "peer_manager \<Rightarrow> world \<Rightarrow> bool" where
  "sound m w = (db_inv w \<and> bird_layout (bird_conf_dir m) (w_fs w))"

lemma calmD:
  assumes "calm E"
  shows "quiet E" "\<not> mocked E ''MOCK_BIRD''" "\<not> mocked E ''MOCK_NFTABLES''"
    "\<not> mocked E ''MOCK_NETLINK''" "nft_honest E"
  using assms by (simp_all add: calm_def)

section \<open>Rows that differ in nothing that matters\<close>

lemma render_status [simp]:
  "render_peer_config E m (p\<lparr>p_status := s\<rparr>) = render_peer_config E m p"
  by (simp add: render_peer_config_def)

lemma desired_status_row: "row_to_peer decode r = Inr p \<Longrightarrow> desired_status (p_status p) = desired_row r"
  using row_to_peer_fields[of decode r p] by (simp add: str_to_status_desired desired_row_def)

text \<open>Marking rows with a status as wanted as the old one, or dropping unwanted rows, changes nothing.\<close>

definition same_output :: "env \<Rightarrow> peer_manager \<Rightarrow> peer_row list \<Rightarrow> peer_row list \<Rightarrow> bool" where
  "same_output E m rows rows' =
     (conf_files E m rows = conf_files E m rows' \<and> open_ports rows = open_ports rows')"

lemma same_output_map:
  assumes "\<And>r. r \<in> set rows \<Longrightarrow> desired_row (f r) = desired_row r \<and> c_listen_port (f r) = c_listen_port r
      \<and> (desired_row r \<longrightarrow> (\<forall>c t. (\<exists>p. row_to_peer (b64_decode E) (f r) = Inr p
             \<and> c = p_iface_name p @ ''.conf'' \<and> t = render_peer_config E m p)
           \<longleftrightarrow> (\<exists>p. row_to_peer (b64_decode E) r = Inr p
             \<and> c = p_iface_name p @ ''.conf'' \<and> t = render_peer_config E m p)))"
  shows "same_output E m (map f rows) rows"
proof -
  have "conf_files E m (map f rows) = conf_files E m rows"
    unfolding conf_files_def set_map bex_simps using assms by (auto cong: bex_cong) blast+
  moreover have "open_ports (map f rows) = open_ports rows"
  proof -
    have "{r \<in> f ` set rows. desired_row r} = f ` {r \<in> set rows. desired_row r}"
      using assms by auto
    then show ?thesis unfolding open_ports_def set_map by (auto simp: assms image_iff)
  qed
  ultimately show ?thesis by (simp add: same_output_def)
qed

lemma row_to_peer_status_iff:
  "(\<exists>p. row_to_peer decode (r\<lparr>c_status := s, r_updated_at := t\<rparr>) = Inr p \<and> P (p_iface_name p) (render_peer_config E m p))
   \<longleftrightarrow> (\<exists>p. row_to_peer decode r = Inr p \<and> P (p_iface_name p) (render_peer_config E m p))"
proof -
  have undone: "row_to_peer decode r = Inr (p\<lparr>p_status := str_to_status (c_status r)\<rparr>)"
    if "row_to_peer decode (r\<lparr>c_status := s, r_updated_at := t\<rparr>) = Inr p" for p
    using row_to_peer_status[OF that, where s = "c_status r" and t = "r_updated_at r"] by simp
  show ?thesis using row_to_peer_status[where decode = decode and r = r and s = s and t = t] undone by fastforce
qed

lemma same_output_status:
  assumes "\<And>r. r \<in> set rows \<Longrightarrow> c_peer_id r = pid \<Longrightarrow> desired_row r = (s \<noteq> ''deleting'' \<and> s \<noteq> ''disabled'')"
  shows "same_output E m (map (\<lambda>r. if c_peer_id r = pid then r\<lparr>c_status := s, r_updated_at := t\<rparr> else r) rows) rows"
proof (rule same_output_map)
  fix r assume r: "r \<in> set rows"
  have "desired_row (r\<lparr>c_status := s, r_updated_at := t\<rparr>) = (s \<noteq> ''deleting'' \<and> s \<noteq> ''disabled'')"
    by (simp add: desired_row_def)
  then show "desired_row (if c_peer_id r = pid then r\<lparr>c_status := s, r_updated_at := t\<rparr> else r) = desired_row r
      \<and> c_listen_port (if c_peer_id r = pid then r\<lparr>c_status := s, r_updated_at := t\<rparr> else r) = c_listen_port r
      \<and> (desired_row r \<longrightarrow> (\<forall>c u. (\<exists>p. row_to_peer (b64_decode E)
              (if c_peer_id r = pid then r\<lparr>c_status := s, r_updated_at := t\<rparr> else r) = Inr p
             \<and> c = p_iface_name p @ ''.conf'' \<and> u = render_peer_config E m p)
           \<longleftrightarrow> (\<exists>p. row_to_peer (b64_decode E) r = Inr p
             \<and> c = p_iface_name p @ ''.conf'' \<and> u = render_peer_config E m p)))"
    using assms[OF r] row_to_peer_status_iff[where decode = "b64_decode E" and r = r and s = s and t = t
        and E = E and m = m and P = "\<lambda>i v. c = i @ ''.conf'' \<and> u = v" for c u]
    by (cases "c_peer_id r = pid") simp_all
qed

lemma same_output_filter:
  assumes "\<And>r. r \<in> set rows \<Longrightarrow> \<not> P r \<Longrightarrow> \<not> desired_row r"
  shows "same_output E m (filter P rows) rows"
  using assms by (auto simp: same_output_def conf_files_def open_ports_def)

lemma matches_same_output:
  assumes "same_output E m (w_peers w') (w_peers w)"
  shows "bird_view w' = bird_view w \<Longrightarrow> bird_matches E m w' = bird_matches E m w"
    "nft_view w' = nft_view w \<Longrightarrow> nft_matches w' = nft_matches w"
  using assms by (simp_all add: same_output_def bird_matches_def nft_matches_def bird_view_def nft_view_def)

text \<open>Taking or releasing a lock changes nothing that is specified.\<close>

lemma note_lock_matches [simp]:
  "bird_matches E m (note_lock ev w) = bird_matches E m w" "nft_matches (note_lock ev w) = nft_matches w"
  "sound m (note_lock ev w) = sound m w"
  "accepted E (note_lock ev w) w' reqs = accepted E w w' reqs" "accepted E w (note_lock ev w') reqs = accepted E w w' reqs"
  by (simp_all add: bird_matches_def nft_matches_def sound_def accepted_def db_inv_def)

section \<open>The synchronizations reach the specification\<close>

lemma peer_files_conf_files:
  assumes read: "collect_results (row_to_peer (b64_decode E)) rows' = Inr peers" and rows: "set rows' = set rows"
    and ids: "distinct (map p_peer_id peers)"
    and ifaces: "\<forall>p\<in>set peers. desired_status (p_status p) \<longrightarrow> p_iface_name p = ''wgp'' @ show_u32 (p_peer_id p)"
  shows "{(c, t). peer_files E m peers c = Some t} = conf_files E m rows"
proof -
  have l2: "list_all2 (\<lambda>r p. row_to_peer (b64_decode E) r = Inr p) rows' peers"
    using read unfolding collect_results_Inr .
  have wanted: "p \<in> set peers \<longleftrightarrow> (\<exists>r\<in>set rows. row_to_peer (b64_decode E) r = Inr p)" for p
    using l2 unfolding rows[symmetric] by (induction rule: list_all2_induct) auto
  have unique: "p = q" if "p \<in> set peers" "q \<in> set peers" "desired_status (p_status p)"
      "desired_status (p_status q)" "p_iface_name p = p_iface_name q" for p q
  proof -
    have "''wgp'' @ show_u32 (p_peer_id p) = ''wgp'' @ show_u32 (p_peer_id q)" using that ifaces by metis
    then have "p_peer_id p = p_peer_id q" by (simp only: u32_text.shw_prefixed_inject)
    then show ?thesis using ids that(1,2) by (metis distinct_map inj_onD)
  qed
  have files: "peer_files E m peers c = Some t \<longleftrightarrow>
      (\<exists>p\<in>set peers. desired_status (p_status p) \<and> c = p_iface_name p @ ''.conf'' \<and> t = render_peer_config E m p)"
    for c t
  proof
    assume "peer_files E m peers c = Some t"
    then show "\<exists>p\<in>set peers. desired_status (p_status p) \<and> c = p_iface_name p @ ''.conf'' \<and> t = render_peer_config E m p"
      by (auto simp: peer_files_def find_Some_iff)
  next
    assume "\<exists>p\<in>set peers. desired_status (p_status p) \<and> c = p_iface_name p @ ''.conf'' \<and> t = render_peer_config E m p"
    then obtain p where p: "p \<in> set peers" "desired_status (p_status p)" "c = p_iface_name p @ ''.conf''"
      "t = render_peer_config E m p" by blast
    then obtain q where q: "find (\<lambda>p. desired_status (p_status p) \<and> p_iface_name p @ ''.conf'' = c) peers = Some q"
      by (cases "find (\<lambda>p. desired_status (p_status p) \<and> p_iface_name p @ ''.conf'' = c) peers")
        (auto simp: find_None_iff)
    then have "q \<in> set peers" "desired_status (p_status q)" "p_iface_name q = p_iface_name p"
      using p(3) by (auto simp: find_Some_iff)
    then have "q = p" using unique p by blast
    with q p(4) show "peer_files E m peers c = Some t" by (simp add: peer_files_def)
  qed
  show ?thesis
    unfolding conf_files_def files using wanted desired_status_row by (fastforce simp: Bex_def)
qed

lemma sync_bird_matches:
  assumes "calm E" "sound m w" "sync_bird_configs E m w = (Inr (), w')"
  shows "bird_matches E m w' \<and> sound m w' \<and> db_view w' = db_view w"
proof -
  note C = calmD[OF assms(1)]
  obtain peers where peers:
    "collect_results (row_to_peer (b64_decode E)) (order_rows (collation E) (w_peers w)) = Inr peers"
    "serves (bird_conf_dir m) (w_fs w') (peer_files E m peers)" "bird_layout (bird_conf_dir m) (w_fs w')"
    "db_view w' = db_view w" "distinct (map p_peer_id peers)"
    "\<forall>p\<in>set peers. desired_status (p_status p) \<longrightarrow> p_iface_name p = ''wgp'' @ show_u32 (p_peer_id p)"
    using sync_bird_configs_run[OF C(1,2) _ _ assms(3)] assms(2) unfolding sound_def by blast
  have "w_peers w' = w_peers w" using peers(4) by (simp add: db_view_eq)
  then have "bird_matches E m w'"
    using peers(2) peer_files_conf_files[OF peers(1) set_order_rows peers(5,6), of m]
    unfolding bird_matches_def by auto
  moreover have "db_inv w'"
    using aboutD[OF db_inv_about peers(4)] assms(2) by (simp add: sound_def)
  ultimately show ?thesis using peers(3,4) by (simp add: sound_def)
qed

lemma bird_matches_cong:
  "db_view w' = db_view w \<Longrightarrow> bird_view w' = bird_view w \<Longrightarrow> bird_matches E m w' = bird_matches E m w"
  by (simp add: bird_matches_def db_view_eq bird_view_def)

lemma nft_matches_cong:
  "db_view w' = db_view w \<Longrightarrow> nft_view w' = nft_view w \<Longrightarrow> nft_matches w' = nft_matches w"
  by (simp add: nft_matches_def db_view_eq nft_view_def)

lemma sync_nft_matches:
  assumes "calm E" "sync_nft_ports E w = (Inr (), w')"
  shows "nft_matches w' \<and> db_view w' = db_view w \<and> bird_view w' = bird_view w \<and> kernel_view w' = kernel_view w"
proof -
  note C = calmD[OF assms(1)]
  from sync_nft_ports_run[OF C(1,3,5) assms(2)] have "nft_matches w' \<and> db_view w' = db_view w"
    by (auto simp: nft_matches_def open_ports_def db_view_eq)
  moreover have "bird_view w' = bird_view w" "kernel_view w' = kernel_view w"
    using keepsD[OF nft_keeps(2)[OF C(1), of bird_view] assms(2)]
      keepsD[OF nft_keeps(2)[OF C(1), of kernel_view] assms(2)] by simp_all
  ultimately show ?thesis by simp
qed



section \<open>What the statements do to the rows\<close>

definition mark :: "int \<Rightarrow> rstr \<Rightarrow> int \<Rightarrow> peer_row list \<Rightarrow> peer_row list" where
  "mark pid s t rows =
     map (\<lambda>r. if c_peer_id r = pid then r\<lparr>c_status := s, r_updated_at := t\<rparr> else r) rows"

lemma row_id:
  assumes "row_to_peer decode r = Inr p" "c_peer_id r < 2 ^ 31"
  shows "sint (p_peer_id p) = c_peer_id r"
proof -
  have "p_peer_id p = of_int (c_peer_id r)" "0 \<le> c_peer_id r"
    using row_to_peer_fields(1,12)[OF assms(1)] by (simp_all add: in_word_range_def)
  then have "uint (p_peer_id p) = c_peer_id r" using assms(2) by (simp add: unsigned_of_int take_bit_int_eq_self)
  with assms(2) show ?thesis using sint_small[of "p_peer_id p"] by simp
qed

lemma sound_about:
  assumes "sound m w" "db_view w' = db_view w" "bird_view w' = bird_view w"
  shows "sound m w'"
  using assms aboutD[OF db_inv_about assms(2)] by (simp add: sound_def db_view_eq bird_view_def)

lemma set_status_rows:
  assumes "quiet E" "set_status E pid st w = (Inr b, w')"
  shows "\<exists>t. w_peers w' = mark (sint pid) (status_to_str st) t (w_peers w)
    \<and> b = (length (filter (\<lambda>r. c_peer_id r = sint pid) (w_peers w)) = 1)"
proof -
  obtain now n where q: "fst (sql_update_peer (\<lambda>r. r\<lparr>c_status := status_to_str st, r_updated_at := now\<rparr>) (sint pid) w) = Inr n"
      "b = (n = 1)"
      "db_view w' = db_view (snd (sql_update_peer (\<lambda>r. r\<lparr>c_status := status_to_str st, r_updated_at := now\<rparr>) (sint pid) w))"
    using set_status_ok[OF assms] unfolding Let_def by blast
  then have "w_peers w' = mark (sint pid) (status_to_str st) now (w_peers w)"
    and "n = length (filter (\<lambda>r. c_peer_id r = sint pid) (w_peers w))"
    by (auto simp: sql_update_peer_def Let_def enqueue_fold mark_def db_view_eq split: if_splits)
  with q(2) show ?thesis by blast
qed

lemma db_delete_rows:
  assumes "quiet E" "db_delete_peer E pid w = (Inr b, w')"
  shows "w_peers w' = filter (\<lambda>r. c_peer_id r \<noteq> sint pid) (w_peers w)
    \<and> b = (\<exists>r\<in>set (w_peers w). c_peer_id r = sint pid)"
  using db_delete_peer_ok[OF assms]
  by (auto simp: sql_delete_peer_def Let_def enqueue_fold_id db_view_eq filter_empty_conv)

lemma status_views:
  assumes "quiet E"
  shows "set_status E pid st w = (r, w') \<Longrightarrow>
      kernel_view w' = kernel_view w \<and> bird_view w' = bird_view w \<and> nft_view w' = nft_view w"
    "db_delete_peer E pid w = (r', w') \<Longrightarrow>
      kernel_view w' = kernel_view w \<and> bird_view w' = bird_view w \<and> nft_view w' = nft_view w"
  using keepsD[OF store_keeps(6)[OF assms, of kernel_view]] keepsD[OF store_keeps(6)[OF assms, of bird_view]]
    keepsD[OF store_keeps(6)[OF assms, of nft_view]] keepsD[OF store_keeps(7)[OF assms, of kernel_view]]
    keepsD[OF store_keeps(7)[OF assms, of bird_view]] keepsD[OF store_keeps(7)[OF assms, of nft_view]]
  by simp_all

lemma get_views:
  assumes "quiet E"
  shows "get_peer E asn name w = (r, w') \<Longrightarrow>
      kernel_view w' = kernel_view w \<and> bird_view w' = bird_view w \<and> nft_view w' = nft_view w"
    "get_peer_by_id E pid w = (r', w') \<Longrightarrow>
      kernel_view w' = kernel_view w \<and> bird_view w' = bird_view w \<and> nft_view w' = nft_view w"
  using keepsD[OF store_keeps(9)[OF assms, of kernel_view]] keepsD[OF store_keeps(9)[OF assms, of bird_view]]
    keepsD[OF store_keeps(9)[OF assms, of nft_view]] keepsD[OF store_keeps(10)[OF assms, of kernel_view]]
    keepsD[OF store_keeps(10)[OF assms, of bird_view]] keepsD[OF store_keeps(10)[OF assms, of nft_view]]
  by simp_all

lemma await_views [simp]:
  "quiet E \<Longrightarrow> db_view (await E w) = db_view w" "quiet E \<Longrightarrow> kernel_view (await E w) = kernel_view w"
  "quiet E \<Longrightarrow> bird_view (await E w) = bird_view w" "quiet E \<Longrightarrow> nft_view (await E w) = nft_view w"
  by (simp_all add: await_quiet db_view_def kernel_view_def bird_view_def nft_view_def)

lemma sound_store:
  assumes "calm E" "sound m w" "bird_view w' = bird_view w"
  shows "set_status E pid st w = (r, w') \<Longrightarrow> sound m w'"
    "db_delete_peer E pid w = (r', w') \<Longrightarrow> sound m w'"
proof -
  have inv: "db_inv w" and lay: "bird_layout (bird_conf_dir m) (w_fs w')"
    using assms(2,3) by (simp_all add: sound_def bird_view_def)
  note pres = store_preserves_db_inv[OF quiet_stable[OF calmD(1)[OF assms(1)]]]
  show "set_status E pid st w = (r, w') \<Longrightarrow> sound m w'"
    using preservesD[OF pres(6) inv] lay by (simp add: sound_def)
  show "db_delete_peer E pid w = (r', w') \<Longrightarrow> sound m w'"
    using preservesD[OF pres(7) inv] lay by (simp add: sound_def)
qed

lemma remove_external_ok:
  assumes "calm E" "sound m w" "remove_external_state E m p w = (Inr (), w')"
  shows "bird_matches E m w' \<and> sound m w' \<and> db_view w' = db_view w \<and> nft_view w' = nft_view w
    \<and> accepted E w w' (case find (has_name (p_iface_name p)) (k_links (w_kernel w)) of
        None \<Rightarrow> [] | Some l \<Rightarrow> [DelLink (lk_index l)])"
proof -
  note C = calmD[OF assms(1)]
  obtain w1 where s: "sync_bird_configs E m w = (Inr (), w1)"
    and d: "delete_interface E (p_iface_name p) w1 = (Inr (), w')"
    using assms(3) unfolding remove_external_state_def and_then_Inr by auto
  have k: "kernel_view w1 = kernel_view w" "nft_view w1 = nft_view w"
    using keepsD[OF bird_keeps(2)[OF C(1), of kernel_view] s] keepsD[OF bird_keeps(2)[OF C(1), of nft_view] s]
    by simp_all
  have v: "db_view w' = db_view w1" "bird_view w' = bird_view w1" "nft_view w' = nft_view w1"
    using keepsD[OF netlink_keeps(6)[OF C(1), of db_view] d] keepsD[OF netlink_keeps(6)[OF C(1), of bird_view] d]
      keepsD[OF netlink_keeps(6)[OF C(1), of nft_view] d] by simp_all
  have S: "bird_matches E m w1" "sound m w1" "db_view w1 = db_view w"
    using sync_bird_matches[OF assms(1,2) s] by simp_all
  have "bird_matches E m w'" using S(1) v(1,2) by (simp add: bird_matches_def bird_view_def db_view_eq)
  moreover have "accepted E w w' (case find (has_name (p_iface_name p)) (k_links (w_kernel w)) of
        None \<Rightarrow> [] | Some l \<Rightarrow> [DelLink (lk_index l)])"
    using delete_interface_ok[OF C(1,4) d] k(1) by (simp add: accepted_def kernel_view_def)
  ultimately show ?thesis using S v k sound_about[OF S(2) v(1,2)] by simp
qed



section \<open>Deleting a peer\<close>

lemma found_or_Inr [simp]: "found_or b asn name w = (Inr u, w') \<longleftrightarrow> b \<and> w' = w"
  by (auto simp: found_or_def)

lemma case_sum_run:
  "(case r of Inl e \<Rightarrow> f e | Inr x \<Rightarrow> g x) w = z \<longleftrightarrow>
     (\<exists>x. r = Inr x \<and> g x w = z) \<or> (\<exists>e. r = Inl e \<and> f e w = z)"
  by (cases r) simp_all

lemma never_Inr [simp]: "\<not> and_then m (\<lambda>_. throw e) w = (Inr y, w')"
  by (simp add: and_then_Inr)

lemma not_desired_deleting [simp]: "\<not> desired_row (r\<lparr>c_status := ''deleting'', r_updated_at := t\<rparr>)"
  by (simp add: desired_row_def)

lemma mark_deleted:
  "filter (\<lambda>r. c_peer_id r \<noteq> pid) (mark pid s t rows) = filter (\<lambda>r. c_peer_id r \<noteq> pid) rows"
  by (induction rows) (auto simp: mark_def)

lemma same_output_mark:
  assumes "\<And>r. r \<in> set rows \<Longrightarrow> c_peer_id r = pid \<Longrightarrow> desired_row r = (s \<noteq> ''deleting'' \<and> s \<noteq> ''disabled'')"
  shows "same_output E m (mark pid s t rows) rows"
  unfolding mark_def by (rule same_output_status[OF assms])

lemma same_output_drop:
  "same_output E m (filter (\<lambda>r. c_peer_id r \<noteq> pid) (mark pid ''deleting'' t rows)) (mark pid ''deleting'' t rows)"
proof (rule same_output_filter)
  fix r assume "r \<in> set (mark pid ''deleting'' t rows)" and r: "\<not> c_peer_id r \<noteq> pid"
  then obtain x where x: "r = (if c_peer_id x = pid then x\<lparr>c_status := ''deleting'', r_updated_at := t\<rparr> else x)"
    unfolding mark_def set_map by blast
  then have "c_peer_id x = pid" using r by (cases "c_peer_id x = pid") simp_all
  with x show "\<not> desired_row r" by simp
qed

text \<open>
  C6. A successful deletion: the peer it answers with is the one stored under the ASN and the name; its
  row, and no other, is gone; the kernel was asked to remove its link, if there was one, and nothing else;
  and BIRD's configuration and the open ports are those of the rows that remain.
\<close>

theorem delete_peer_outcome:
  assumes "calm E" "sound m w" "\<forall>r\<in>set (w_peers w). c_peer_id r < 2 ^ 31"
    and "delete_peer E m asn name w = (Inr p, w')"
  shows "\<exists>r\<in>set (w_peers w). identity_of r = (uint asn, name) \<and> row_to_peer (b64_decode E) r = Inr p
    \<and> w_peers w' = filter (\<lambda>x. c_peer_id x \<noteq> c_peer_id r) (w_peers w)
    \<and> accepted E w w' (case find (has_name (p_iface_name p)) (k_links (w_kernel w)) of
        None \<Rightarrow> [] | Some l \<Rightarrow> [DelLink (lk_index l)])
    \<and> bird_matches E m w' \<and> nft_matches w' \<and> sound m w'"
proof -
  note C = calmD[OF assms(1)]
  let ?lock = "operation_lock asn name"
  obtain w2 w3 w4 w5 w6 where got: "get_peer E asn name (note_lock (Acquired ?lock) (await E w)) = (Inr (Some p), w2)"
    and marked: "set_status E (p_peer_id p) Deleting w2 = (Inr True, w3)"
    and nft: "sync_nft_ports E w3 = (Inr (), w4)"
    and ext: "remove_external_state E m p w4 = (Inr (), w5)"
    and del: "db_delete_peer E (p_peer_id p) w5 = (Inr True, w6)" and w': "w' = note_lock (Released ?lock) w6"
    using assms(4) unfolding delete_peer_def with_lock_run
    by (auto simp: case_sum_run and_then_Inr)
  obtain r where r: "find (\<lambda>r. identity_of r = (uint asn, name)) (w_peers w) = Some r"
    and p: "row_to_peer (b64_decode E) r = Inr p" and db2: "db_view w2 = db_view w"
    using get_peer_ok[OF C(1) got] C(1) by (auto simp: db_view_eq await_quiet)
  then have r_in: "r \<in> set (w_peers w)" "identity_of r = (uint asn, name)" by (auto simp: find_Some_iff)
  have pid: "sint (p_peer_id p) = c_peer_id r" using row_id[OF p] assms(3) r_in(1) by blast
  have v2: "kernel_view w2 = kernel_view w" "bird_view w2 = bird_view w"
    using get_views(1)[OF C(1) got] C(1) by simp_all
  obtain t where rows3: "w_peers w3 = mark (c_peer_id r) ''deleting'' t (w_peers w)"
    using set_status_rows[OF C(1) marked] pid db2 by (auto simp: db_view_eq)
  have v3: "kernel_view w3 = kernel_view w" "bird_view w3 = bird_view w"
    using status_views(1)[OF C(1) marked] v2 by simp_all
  have "sound m w2" by (rule sound_about[OF assms(2) db2 v2(2)])
  then have s3: "sound m w3"
    using sound_store(1)[OF assms(1) _ _ marked] status_views(1)[OF C(1) marked] by blast
  have S4: "nft_matches w4" "db_view w4 = db_view w3" "bird_view w4 = bird_view w3" "kernel_view w4 = kernel_view w3"
    using sync_nft_matches[OF assms(1) nft] by simp_all
  have S5: "bird_matches E m w5" "sound m w5" "db_view w5 = db_view w4" "nft_view w5 = nft_view w4"
    "accepted E w4 w5 (case find (has_name (p_iface_name p)) (k_links (w_kernel w4)) of
        None \<Rightarrow> [] | Some l \<Rightarrow> [DelLink (lk_index l)])"
    using remove_external_ok[OF assms(1) sound_about[OF s3 S4(2,3)] ext] by simp_all
  have v': "kernel_view w' = kernel_view w5" "bird_view w' = bird_view w5" "nft_view w' = nft_view w5"
    using status_views(2)[OF C(1) del] by (simp_all add: w')
  have rows5: "w_peers w5 = mark (c_peer_id r) ''deleting'' t (w_peers w)"
    using S5(3) S4(2) rows3 by (simp add: db_view_eq)
  have rows': "w_peers w' = filter (\<lambda>x. c_peer_id x \<noteq> c_peer_id r) (w_peers w5)"
    using db_delete_rows[OF C(1) del] pid by (simp add: w')
  have "same_output E m (w_peers w') (w_peers w5)"
    unfolding rows' rows5 by (rule same_output_drop)
  moreover have "nft_matches w5" using S4(1) S5(3,4) by (simp add: nft_matches_def nft_view_def db_view_eq)
  ultimately have "bird_matches E m w'" "nft_matches w'"
    using S5(1) v' matches_same_output[of E m w' w5] by simp_all
  moreover have "sound m w'" using sound_store(2)[OF assms(1) S5(2) _ del] v'(2) by (simp add: w')
  moreover have "accepted E w w' (case find (has_name (p_iface_name p)) (k_links (w_kernel w)) of
        None \<Rightarrow> [] | Some l \<Rightarrow> [DelLink (lk_index l)])"
    using S5(5) v'(1) S4(4) v3(1) by (simp add: accepted_def kernel_view_def)
  ultimately show ?thesis using r_in p rows' unfolding rows5 mark_deleted by blast
qed



section \<open>Examples\<close>

text \<open>A world with the example peer's row and nothing else.\<close>

definition one_peer_world :: world where
  "one_peer_world = empty_world\<lparr>w_peers := [reserved_row sample_peer 9]\<rparr>"

lemma sample_calm [simp]: "calm sample_env"
  by (simp add: calm_def nft_honest_def)

lemma one_peer_sound: "sound sample_manager one_peer_world"
proof -
  have "char_count (p_peer_name sample_peer) \<le> 32" by code_simp
  then show ?thesis
    using bird_layout_fresh
    by (simp add: sound_def one_peer_world_def db_inv_def empty_world_def peers_unique_def events_ok_def
        sample_manager_def)
qed

lemma sample_marked:
  "row_to_peer (\<lambda>_. Inr []) ((reserved_row sample_peer 9)\<lparr>c_status := s, r_updated_at := t\<rparr>)
     = Inr (sample_peer\<lparr>p_status := str_to_status s\<rparr>)"
  using row_to_peer_status[OF read_reserved_row[OF storable_sample]] by simp

lemma sample_sync_nothing:
  assumes "w_fs w = []"
  shows "\<exists>w'. sync_bird_configs_for sample_env sample_manager
    [sample_peer\<lparr>p_status := Deleting\<rparr>] force w = (Inr (), w') \<and> db_view w' = db_view w \<and> kernel_view w' = kernel_view w"
proof -
  obtain r w' where run: "sync_bird_configs_for sample_env sample_manager
    [sample_peer\<lparr>p_status := Deleting\<rparr>] force w = (r, w')" by fastforce
  have "db_view w' = db_view w" "kernel_view w' = kernel_view w"
    using keepsD[OF bird_keeps(1)[OF sample_env_quiet, of db_view] run]
      keepsD[OF bird_keeps(1)[OF sample_env_quiet, of kernel_view] run] by simp_all
  moreover have "r = Inr ()"
    using run assms
    by (cases force) (simp_all add: sample_manager_def sample_peer_def sync_bird_configs_for_def with_lock_def sync_bird_locked_def
        and_then_def attempt_def ensure_bird_layout_def fs_io_def ext_call_def Let_def create_dir_all_def
        generations_path_def current_path_def resolve_def fs_get_def fs_put_def fs_del_def locate_def
        symlink_metadata_def look_def enoent_def map_err_def switch_current_def atomic_switch_current_def
        remove_optional_def remove_file_def not_found_io_def read_nanos_def unique_suffix_def
        symlink_def new_entry_def rename_def move_tree_def sync_directory_def fs_touch_def
        metadata_def open_existing_def current_generation_matches_def generation_matches_def
        read_dir_def children_def write_generation_def create_dir_def
        install_generation_def read_link_def reload_bird_def
        reload_bird_inner_def final_line_def configure_received_def remove_old_generations_def
        starts_with_def ends_with_def)
  ultimately show ?thesis using run by blast
qed



lemma sample_get_peer:
  assumes "w_peers w = [reserved_row sample_peer 9]"
  shows "\<exists>w'. get_peer sample_env 4242420001 ''home'' w
     = (Inr (Some (sample_peer\<lparr>p_status := Provisioning\<rparr>)), w') \<and> w_peers w' = [reserved_row sample_peer 9]
       \<and> w_fs w' = w_fs w"
proof -
  have asn: "uint (p_asn sample_peer) = 4242420001" by (simp add: sample_peer_def)
  have "identity_of (reserved_row sample_peer 9) = (4242420001, ''home'')"
    unfolding identity_of_def by (simp add: asn) (simp add: sample_peer_def)
  then show ?thesis
    by (simp add: get_peer_def acquire_def execute_def and_then_def ext_call_def sql_select_def
        assms read_reserved_row Let_def)
qed

lemma one_peer_locked:
  "w_peers (note_lock ev (await sample_env one_peer_world)) = [reserved_row sample_peer 9]"
  "w_fs (note_lock ev (await sample_env one_peer_world)) = []"
  "kernel_view (note_lock ev (await sample_env one_peer_world)) = kernel_view one_peer_world"
  "bird_view (note_lock ev (await sample_env one_peer_world)) = bird_view one_peer_world"
  by (simp_all add: await_quiet[OF sample_env_quiet] one_peer_world_def empty_world_def kernel_view_def bird_view_def)

lemma sample_set_status:
  assumes "w_peers w = [r]" "c_peer_id r = 5"
  shows "\<exists>w' t. set_status sample_env 5 st w = (Inr True, w') \<and> w_fs w' = w_fs w
     \<and> w_peers w' = [r\<lparr>c_status := status_to_str st, r_updated_at := t\<rparr>]"
  using assms
  by (simp add: set_status_def acquire_def execute_def and_then_def ext_call_def read_clock_def
      sql_update_peer_def Let_def peers_unique_def enqueue_peer_change_def) blast

lemma sample_list_one:
  assumes "w_peers w = [r]" "row_to_peer (\<lambda>_. Inr []) r = Inr p"
  shows "\<exists>w'. list_peers sample_env w = (Inr [p], w') \<and> w_fs w' = w_fs w \<and> w_peers w' = w_peers w"
  using assms by (simp add: list_peers_def acquire_def execute_def and_then_def ext_call_def sql_select_def
      order_rows_def)

lemma sample_nft:
  assumes "w_peers w = [r]" "row_to_peer (\<lambda>_. Inr []) r = Inr p"
  shows "\<exists>w'. sync_nft_ports sample_env w = (Inr (), w') \<and> w_fs w' = w_fs w \<and> w_peers w' = w_peers w"
  using sample_list_one[OF assms]
  by (auto simp: sync_nft_ports_def sync_nft_ports_for_def with_lock_def and_then_def run_nft_batch_def
      run_nft_batch_inner_def Let_def)

text \<open>Once the row is marked, removing the peer's external state has nothing to write and no link to delete.\<close>

lemma sample_remove:
  assumes "w_peers w = [(reserved_row sample_peer 9)\<lparr>c_status := ''deleting'', r_updated_at := t\<rparr>]"
    and "w_fs w = []" "k_links (w_kernel w) = []"
  shows "\<exists>w'. remove_external_state sample_env sample_manager p w = (Inr (), w') \<and> w_peers w' = w_peers w"
proof -
  obtain w1 where w1: "list_peers sample_env w = (Inr [sample_peer\<lparr>p_status := Deleting\<rparr>], w1)" "w_fs w1 = []"
    "w_peers w1 = w_peers w"
    using sample_list_one[OF assms(1) sample_marked] assms(2) by auto
  obtain w2 where w2: "sync_bird_configs_for sample_env sample_manager [sample_peer\<lparr>p_status := Deleting\<rparr>] False w1
      = (Inr (), w2)" "w_peers w2 = w_peers w1" "kernel_view w2 = kernel_view w1"
    using sample_sync_nothing[OF w1(2)] by (auto simp: db_view_eq)
  have "kernel_view w1 = kernel_view w"
    using keepsD[OF store_keeps(11)[OF sample_env_quiet, of kernel_view] w1(1)] by simp
  with w2(3) assms(3) have "k_links (w_kernel w2) = []" by (simp add: kernel_view_def)
  moreover have "sync_bird_configs sample_env sample_manager w = (Inr (), w2)"
    using w1 w2 by (simp add: sync_bird_configs_def and_then_def)
  ultimately show ?thesis
    using w1 w2
    by (simp add: remove_external_state_def and_then_def delete_interface_def new_connection_def find_link_def
        dump_links_def ext_call_def Let_def scan_for_link_ok(1)[of _ "[]", simplified])
qed

lemma sample_delete:
  "\<exists>w'. delete_peer sample_env sample_manager 4242420001 ''home'' one_peer_world
     = (Inr (sample_peer\<lparr>p_status := Provisioning\<rparr>), w')"
proof -
  let ?p = "sample_peer\<lparr>p_status := Provisioning\<rparr>"
  have pid: "p_peer_id ?p = 5" "c_peer_id (reserved_row sample_peer 9) = 5" by (simp_all add: sample_peer_def)
  let ?lock = "operation_lock 4242420001 ''home''"
  obtain w2 where w2: "get_peer sample_env 4242420001 ''home'' (note_lock (Acquired ?lock) (await sample_env one_peer_world))
      = (Inr (Some ?p), w2)" "w_peers w2 = [reserved_row sample_peer 9]" "w_fs w2 = []"
    using sample_get_peer[OF one_peer_locked(1)] one_peer_locked(2) by metis
  obtain w3 t where w3: "set_status sample_env 5 Deleting w2 = (Inr True, w3)" "w_fs w3 = w_fs w2"
    "w_peers w3 = [(reserved_row sample_peer 9)\<lparr>c_status := ''deleting'', r_updated_at := t\<rparr>]"
    using sample_set_status[OF w2(2) pid(2), of Deleting] by auto
  obtain w4 where w4: "sync_nft_ports sample_env w3 = (Inr (), w4)" "w_fs w4 = w_fs w3" "w_peers w4 = w_peers w3"
    using sample_nft[OF w3(3) sample_marked] by blast
  have "kernel_view w4 = kernel_view w3" using sync_nft_matches[OF sample_calm w4(1)] by blast
  moreover have "kernel_view w3 = kernel_view w2" "kernel_view w2 = kernel_view one_peer_world"
    using status_views(1)[OF sample_env_quiet w3(1)] get_views(1)[OF sample_env_quiet w2(1)] one_peer_locked(3)
    by (simp_all add: kernel_view_def)
  ultimately have "k_links (w_kernel w4) = []"
    by (simp add: kernel_view_def one_peer_world_def empty_world_def)
  then obtain w5 where w5: "remove_external_state sample_env sample_manager ?p w4 = (Inr (), w5)"
    "w_peers w5 = w_peers w4"
    using sample_remove[of w4 t ?p] w2(3) w3(2,3) w4(2,3) by auto
  have "w_peers w5 = [(reserved_row sample_peer 9)\<lparr>c_status := ''deleting'', r_updated_at := t\<rparr>]"
    using w5(2) w4(3) w3(3) by simp
  then have "\<exists>w'. db_delete_peer sample_env 5 w5 = (Inr True, w')"
    using pid(2) by (simp add: db_delete_peer_def acquire_def execute_def and_then_def ext_call_def
        sql_delete_peer_def Let_def)
  then show ?thesis
    using w2(1) w3(1) w4(1) w5(1) pid
    by (auto simp: delete_peer_def with_lock_run and_then_def attempt_def found_or_def)
qed



theorem delete_peer_outcome_witness:
  "\<exists>w'. delete_peer sample_env sample_manager 4242420001 ''home'' one_peer_world
       = (Inr (sample_peer\<lparr>p_status := Provisioning\<rparr>), w')
     \<and> bird_matches sample_env sample_manager w' \<and> nft_matches w'"
proof -
  obtain w' where run: "delete_peer sample_env sample_manager 4242420001 ''home'' one_peer_world
      = (Inr (sample_peer\<lparr>p_status := Provisioning\<rparr>), w')" using sample_delete by blast
  have "\<forall>r\<in>set (w_peers one_peer_world). c_peer_id r < 2 ^ 31"
    by (simp add: one_peer_world_def sample_peer_def)
  from delete_peer_outcome[OF sample_calm one_peer_sound this run] run show ?thesis by blast
qed



section \<open>Creating a peer\<close>

lemma keeps_resolve_endpoint [frame_rules]:
  "quiet E \<Longrightarrow> tick_free v \<Longrightarrow> keeps v (resolve_endpoint E e)"
  by (simp add: keeps_def resolve_endpoint_def await_quiet tick_free_def)

lemma keeps_apply_wireguard:
  assumes "quiet E" "beside_kernel v"
  shows "keeps v (apply_wireguard E m p)"
proof -
  have "tick_free v" using assms(2) by (simp add: beside_kernel_def)
  then show ?thesis
    unfolding apply_wireguard_def by (intro frame_rules netlink_keeps[OF assms] assms)
qed

definition wireguard_requests :: "env \<Rightarrow> peer_manager \<Rightarrow> peer \<Rightarrow> world \<Rightarrow> nl_request list \<Rightarrow> bool" where
  "wireguard_requests E m p w reqs =
     (\<exists>index index' priv_key peer_key address.
        reqs = (if find (has_name (p_iface_name p)) (k_links (w_kernel w)) = None
            then [AddWireguardLink (p_iface_name p)] else [])
          @ [set_link_request E index (p_peer_id p) (p_mtu p),
             device_request priv_key peer_key (p_iface_name p) (p_listen_port p) address,
             ReplaceAddress index' (IpV6 (p_local_ll_ip p)) 64]
        \<and> key_from_base64 E (local_wg_privkey m) = Some priv_key
        \<and> key_from_base64 E (as_str (p_pubkey p)) = Some peer_key
        \<and> resolved E (p_endpoint p) address)"

lemma apply_peer_ok:
  assumes "calm E" "sound m w" "apply_peer E m p w = (Inr (), w')"
  shows "bird_matches E m w' \<and> sound m w' \<and> db_view w' = db_view w \<and> nft_view w' = nft_view w
    \<and> (\<exists>reqs. accepted E w w' reqs \<and> wireguard_requests E m p w reqs)"
proof -
  note C = calmD[OF assms(1)]
  obtain w1 where a: "apply_wireguard E m p w = (Inr (), w1)" and s: "sync_bird_configs E m w1 = (Inr (), w')"
    using assms(3) unfolding apply_peer_def and_then_Inr by auto
  have v: "db_view w1 = db_view w" "bird_view w1 = bird_view w" "nft_view w1 = nft_view w"
    using keepsD[OF keeps_apply_wireguard[OF C(1), of db_view] a]
      keepsD[OF keeps_apply_wireguard[OF C(1), of bird_view] a]
      keepsD[OF keeps_apply_wireguard[OF C(1), of nft_view] a] by simp_all
  have S: "bird_matches E m w'" "sound m w'" "db_view w' = db_view w1"
    using sync_bird_matches[OF assms(1) sound_about[OF assms(2) v(1,2)] s] by simp_all
  have k: "kernel_view w' = kernel_view w1" "nft_view w' = nft_view w1"
    using keepsD[OF bird_keeps(2)[OF C(1), of kernel_view] s] keepsD[OF bird_keeps(2)[OF C(1), of nft_view] s]
    by simp_all
  have "\<exists>reqs. accepted E w w1 reqs \<and> wireguard_requests E m p w reqs"
    using apply_wireguard_run[OF C(1,4) a] unfolding wireguard_requests_def by blast
  then have "\<exists>reqs. accepted E w w' reqs \<and> wireguard_requests E m p w reqs"
    using accepted_view(2)[OF _ k(1)] by blast
  with S v k show ?thesis by simp
qed

lemma listen_port_views:
  assumes "quiet E" "listen_port_in_use E port exc w = (r, w')"
  shows "db_view w' = db_view w \<and> bird_view w' = bird_view w \<and> nft_view w' = nft_view w"
  using keepsD[OF netlink_keeps(5)[OF assms(1), of db_view] assms(2)]
    keepsD[OF netlink_keeps(5)[OF assms(1), of bird_view] assms(2)]
    keepsD[OF netlink_keeps(5)[OF assms(1), of nft_view] assms(2)] by simp



lemma lasting_views:
  "lasting w' = lasting w \<Longrightarrow> w_peers w' = w_peers w \<and> kernel_view w' = kernel_view w
     \<and> bird_view w' = bird_view w \<and> nft_view w' = nft_view w"
  by (simp add: lasting_def)

lemma reserve_once:
  assumes "quiet E" "db_reserve_peer E p False w = (Inr b, w')"
  shows "kernel_view w' = kernel_view w \<and> bird_view w' = bird_view w \<and> nft_view w' = nft_view w
    \<and> (if b then \<exists>now n. varchar 32 (p_peer_name p) = Some n
           \<and> w_peers w' = w_peers w @ [(reserved_row p now)\<lparr>c_peer_name := n\<rparr>]
       else w_peers w' = w_peers w)"
proof -
  have views: "kernel_view w' = kernel_view w" "bird_view w' = bird_view w" "nft_view w' = nft_view w"
    using keepsD[OF store_keeps(3)[OF assms(1), of kernel_view] assms(2)]
      keepsD[OF store_keeps(3)[OF assms(1), of bird_view] assms(2)]
      keepsD[OF store_keeps(3)[OF assms(1), of nft_view] assms(2)] by simp_all
  obtain now n where q: "fst (sql_insert_peer (reserved_row p now) w) = Inr n" "b = (n = 1)"
    "db_view w' = db_view (snd (sql_insert_peer (reserved_row p now) w))"
    using db_reserve_peer_ok[OF assms] by (auto simp: Let_def)
  show ?thesis
  proof (cases "varchar 32 (p_peer_name p)")
    case None
    with q(1) show ?thesis by (simp add: sql_insert_peer_def)
  next
    case (Some nm)
    let ?r = "(reserved_row p now)\<lparr>c_peer_name := nm\<rparr>"
    show ?thesis
    proof (cases "conflicts ?r (w_peers w)")
      case True
      with q Some views show ?thesis by (simp add: sql_insert_peer_def Let_def db_view_eq)
    next
      case False
      then have "sql_insert_peer (reserved_row p now) w
          = (Inr 1, enqueue_peer_change ''INSERT'' ?r (w\<lparr>w_peers := w_peers w @ [?r]\<rparr>))"
        using Some by (simp add: sql_insert_peer_def Let_def)
      with q have "b" "w_peers w' = w_peers w @ [?r]"
        by (simp_all add: db_view_eq enqueue_peer_change_def)
      with views Some show ?thesis by auto
    qed
  qed
qed

lemma reserve_loop_ok:
  assumes "quiet E" "asn \<noteq> local_asn m"
  shows "reserve_loop E m pid asn name key ep pair mtu is w = (Inr p, w') \<Longrightarrow>
    (\<exists>i\<in>set is. p = build_peer pid asn name key ep pair (probe_port asn i) mtu)
    \<and> (\<exists>now n. varchar 32 name = Some n \<and> w_peers w' = w_peers w @ [(reserved_row p now)\<lparr>c_peer_name := n\<rparr>])
    \<and> kernel_view w' = kernel_view w \<and> bird_view w' = bird_view w \<and> nft_view w' = nft_view w"
proof (induction "is" arbitrary: w)
  case (Cons i "is")
  let ?p = "build_peer pid asn name key ep pair (probe_port asn i) mtu"
  obtain used w1 where used: "listen_port_in_use E (probe_port asn i) None w = (Inr used, w1)"
    and r1: "(if used then reserve_loop E m pid asn name key ep pair mtu is
        else and_then (db_reserve_peer E ?p (asn = local_asn m)) (\<lambda>reserved.
          if reserved then ret ?p
          else and_then (peer_exists E asn name) (\<lambda>exists.
            if exists then throw (AlreadyExists asn name)
            else reserve_loop E m pid asn name key ep pair mtu is))) w1 = (Inr p, w')"
    using Cons.prems unfolding reserve_loop.simps Let_def and_then_Inr[of "listen_port_in_use E _ None"]
    by blast
  have v1: "w_peers w1 = w_peers w" "kernel_view w1 = kernel_view w" "bird_view w1 = bird_view w"
    "nft_view w1 = nft_view w"
    using lasting_views[OF keepsD[OF rolled_back_keeps(4)[OF assms(1)] used]] by simp_all
  show ?case
  proof (cases used)
    case True
    with r1 have "reserve_loop E m pid asn name key ep pair mtu is w1 = (Inr p, w')" by simp
    from Cons.IH[OF this] v1 show ?thesis by auto
  next
    case False
    have "(asn = local_asn m) = False" using assms(2) by simp
    with False r1 obtain b w2 where res: "db_reserve_peer E ?p False w1 = (Inr b, w2)"
      and r2: "(if b then ret ?p else and_then (peer_exists E asn name) (\<lambda>exists.
            if exists then throw (AlreadyExists asn name)
            else reserve_loop E m pid asn name key ep pair mtu is)) w2 = (Inr p, w')"
      by (auto simp: and_then_Inr)
    note once = reserve_once[OF assms(1) res]
    show ?thesis
    proof (cases b)
      case True
      with r2 once v1 show ?thesis by (auto simp: build_peer_def)
    next
      case False
      with r2 obtain ex w3 where ex: "peer_exists E asn name w2 = (Inr ex, w3)"
        and r3: "reserve_loop E m pid asn name key ep pair mtu is w3 = (Inr p, w')"
        by (auto simp: and_then_Inr split: if_splits)
      have "w_peers w3 = w_peers w2" "kernel_view w3 = kernel_view w2" "bird_view w3 = bird_view w2"
        "nft_view w3 = nft_view w2"
        using lasting_views[OF keepsD[OF rolled_back_keeps(3)[OF assms(1)] ex]] by simp_all
      with Cons.IH[OF r3] once v1 False show ?thesis by auto
    qed
  qed
qed simp

lemma reserve_peer_ok:
  assumes "quiet E" "asn \<noteq> local_asn m" "reserve_peer E m asn name key ep ll mtu w = (Inr p, w')"
  shows "(\<exists>pid port. uint pid < 2 ^ 31 \<and> port \<in> probe_port asn ` set increments
      \<and> p = build_peer pid asn name key ep
          (case ll of None \<Rightarrow> (asn_link_local (local_asn m), asn_link_local asn) | Some v \<Rightarrow> v) port mtu)
    \<and> (\<exists>now n. varchar 32 name = Some n \<and> w_peers w' = w_peers w @ [(reserved_row p now)\<lparr>c_peer_name := n\<rparr>])
    \<and> kernel_view w' = kernel_view w \<and> bird_view w' = bird_view w \<and> nft_view w' = nft_view w"
proof -
  let ?pair = "case ll of None \<Rightarrow> (asn_link_local (local_asn m), asn_link_local asn) | Some v \<Rightarrow> v"
  obtain pid w1 where a: "allocate_peer_id E w = (Inr pid, w1)"
    and l: "reserve_loop E m pid asn name key ep ?pair mtu increments w1 = (Inr p, w')"
    using assms(3) by (auto simp: reserve_peer_def Let_def and_then_Inr)
  have "uint pid < 2 ^ 31"
  proof -
    have "pid = of_int (w_peer_seq w + 1)" "0 \<le> w_peer_seq w + 1" "w_peer_seq w + 1 < 2 ^ 31"
      using allocate_peer_id_ok[OF assms(1) a] by simp_all
    then show ?thesis by (simp only: unsigned_of_int take_bit_int_eq_self) (simp add: take_bit_int_eq_self)
  qed
  with reserve_loop_ok[OF assms(1,2) l] have "\<exists>pid port. uint pid < 2 ^ 31 \<and> port \<in> probe_port asn ` set increments
      \<and> p = build_peer pid asn name key ep ?pair port mtu" by blast
  moreover have "w_peers w1 = w_peers w" "kernel_view w1 = kernel_view w" "bird_view w1 = bird_view w"
    "nft_view w1 = nft_view w"
    using lasting_views[OF keepsD[OF rolled_back_keeps(2)[OF assms(1)] a]] by simp_all
  ultimately show ?thesis using reserve_loop_ok[OF assms(1,2) l] by simp
qed



text \<open>The rows after the last step: the reserved one is marked as active.\<close>

lemma new_row_alone:
  "peers_unique (rows @ [r]) \<Longrightarrow> x \<in> set (rows @ [r]) \<Longrightarrow> c_peer_id x = c_peer_id r \<Longrightarrow> x = r"
  by (auto simp: peers_unique_def) (metis imageI)

lemma mark_new_row:
  assumes "peers_unique (rows @ [r])" "c_peer_id r = pid"
  shows "mark pid s t (rows @ [r]) = rows @ [r\<lparr>c_status := s, r_updated_at := t\<rparr>]"
proof -
  have "r \<notin> set rows" using assms(1) by (auto simp: peers_unique_def)
  then have "\<forall>x\<in>set rows. c_peer_id x \<noteq> pid" using new_row_alone[OF assms(1)] assms(2) by auto
  then show ?thesis using assms(2) by (auto simp: mark_def intro!: map_idI)
qed

text \<open>The steps of a successful creation, and what the reservation has done before the first outside effect.\<close>

lemma create_peer_steps:
  assumes "calm E" "sound m w" "asn \<noteq> local_asn m" "varchar 32 name = Some name"
    and "create_peer E m asn name key ep ll mtu w = (Inr p, w')"
  obtains q w2 w3 w4 w5 ev pid port now where "(uint asn, name) \<notin> identity_of ` set (w_peers w)"
    and "q = build_peer pid asn name key ep
        (case ll of None \<Rightarrow> (asn_link_local (local_asn m), asn_link_local asn) | Some v \<Rightarrow> v) port
        (case mtu of None \<Rightarrow> 1420 | Some v \<Rightarrow> v)"
    and "uint pid < 2 ^ 31" "port \<in> probe_port asn ` set increments"
    and "w_peers w2 = w_peers w @ [reserved_row q now]" "kernel_view w2 = kernel_view w" "sound m w2"
    and "apply_peer E m q w2 = (Inr (), w3)" "sync_nft_ports E w3 = (Inr (), w4)"
    and "set_status E (p_peer_id q) Active w4 = (Inr True, w5)" "w' = note_lock ev w5" "p = q\<lparr>p_status := Active\<rparr>"
proof -
  note C = calmD[OF assms(1)]
  have other: "(asn = local_asn m) = False" using assms(3) by simp
  let ?mtu = "case mtu of None \<Rightarrow> 1420 | Some v \<Rightarrow> v"
  let ?lock = "operation_lock asn name"
  obtain w1 w2 q w3 w4 w5 where ex: "peer_exists E asn name (note_lock (Acquired ?lock) (await E w)) = (Inr False, w1)"
    and res: "reserve_peer E m asn name key ep ll ?mtu (note_lock (Acquired PortLock) (await E w1)) = (Inr q, w2)"
    and steps: "apply_peer E m q (note_lock (Released PortLock) w2) = (Inr (), w3)" "sync_nft_ports E w3 = (Inr (), w4)"
      "set_status E (p_peer_id q) Active w4 = (Inr True, w5)" "w' = note_lock (Released ?lock) w5"
      "p = q\<lparr>p_status := Active\<rparr>"
    using assms(5) unfolding create_peer_def with_lock_run other
    by (auto simp: case_sum_run and_then_Inr with_lock_run split: if_splits)
  let ?w1 = "note_lock (Acquired PortLock) (await E w1)"
  have v1: "w_peers ?w1 = w_peers w" "kernel_view ?w1 = kernel_view w" "bird_view ?w1 = bird_view w"
    using lasting_views[OF keepsD[OF rolled_back_keeps(3)[OF C(1)] ex]] C(1)
    by (simp_all add: await_quiet kernel_view_def bird_view_def)
  have new: "(uint asn, name) \<notin> identity_of ` set (w_peers w)"
    using peer_exists_ok[OF C(1) ex] C(1) by (auto simp: await_quiet)
  have lockfree: "db_inv (note_lock ev v) = db_inv v" for ev v by (simp add: db_inv_def)
  have pres: "db_inv (note_lock ev (await E v))" if "db_inv v" for ev v
    using that quiet_stable[OF C(1)] lockfree by (simp add: stable_def)
  have "db_inv ?w1"
    using preservesD[OF store_preserves_db_inv(8)[OF quiet_stable[OF C(1)]] pres ex] assms(2) pres
    by (simp add: sound_def)
  then have inv2: "db_inv w2" by (rule preservesD[OF preserves_reserve_peer[OF quiet_stable[OF C(1)]] _ res])
  note R = reserve_peer_ok[OF C(1) assms(3) res]
  obtain pid port where q: "q = build_peer pid asn name key ep
        (case ll of None \<Rightarrow> (asn_link_local (local_asn m), asn_link_local asn) | Some v \<Rightarrow> v) port ?mtu"
      "uint pid < 2 ^ 31" "port \<in> probe_port asn ` set increments"
    using R by blast
  have named: "(reserved_row q now)\<lparr>c_peer_name := name\<rparr> = reserved_row q now" for now
    by (simp add: q(1) build_peer_def reserved_row_def peer_to_cols_def peer_cols.defs)
  obtain now where rows2: "w_peers w2 = w_peers w @ [reserved_row q now]" using R assms(4) v1 named by auto
  let ?w2 = "note_lock (Released PortLock) w2"
  have "kernel_view ?w2 = kernel_view w" "sound m ?w2" "w_peers ?w2 = w_peers w @ [reserved_row q now]"
    using R v1 inv2 assms(2) rows2 lockfree by (simp_all add: sound_def bird_view_def)
  with new q steps show thesis using that by blast
qed


section \<open>An example of a creation\<close>

abbreviation sample_q :: peer where "sample_q \<equiv> sample_peer\<lparr>p_status := Provisioning\<rparr>"

definition fresh_world :: world where
  "fresh_world = empty_world\<lparr>w_peer_seq := 4\<rparr>"

lemma fresh_sound: "sound sample_manager fresh_world"
  using bird_layout_fresh
  by (simp add: sound_def fresh_world_def db_inv_def empty_world_def peers_unique_def events_ok_def
      sample_manager_def)

lemma sample_wireguard:
  assumes "w_kernel w = \<lparr>k_links = [], k_devices = []\<rparr>"
  shows "\<exists>w'. apply_wireguard sample_env sample_manager sample_q w = (Inr (), w')"
  by (simp add: assms apply_wireguard_def ensure_wg_interface_def new_connection_def find_link_def
      dump_links_def nl_send_def configure_peer_def configure_local_address_def and_then_def
      ext_call_def Let_def sample_peer_def accept_request_def has_name_def
      parse_interface_name_def scan_for_link_ok(1)[of _ "[_]", simplified] ok_or_def)

lemma sample_q_row: "row_to_peer (\<lambda>_. Inr []) (reserved_row sample_q t) = Inr sample_q"
proof -
  have "storable (\<lambda>_. Inr []) sample_q" using storable_sample by (simp add: storable_def)
  from read_reserved_row[OF this] show ?thesis by simp
qed

lemma sample_apply_peer:
  assumes "w_kernel w = \<lparr>k_links = [], k_devices = []\<rparr>" "w_fs w = []"
    and "w_peers w = [r]" "row_to_peer (\<lambda>_. Inr []) r = Inr sample_q"
  shows "\<exists>w'. apply_peer sample_env sample_manager sample_q w = (Inr (), w')"
proof -
  obtain w1 where w1: "apply_wireguard sample_env sample_manager sample_q w = (Inr (), w1)"
    using sample_wireguard[OF assms(1)] by blast
  have v: "w_fs w1 = []" "w_peers w1 = [r]"
    using keepsD[OF keeps_apply_wireguard[OF sample_env_quiet, of bird_view] w1]
      keepsD[OF keeps_apply_wireguard[OF sample_env_quiet, of db_view] w1] assms(2,3)
    by (simp_all add: bird_view_def db_view_eq)
  obtain w2 where w2: "list_peers sample_env w1 = (Inr [sample_q], w2)" "w_fs w2 = []"
    using sample_list_one[OF v(2) assms(4)] v(1) by auto
  obtain w3 where "sync_bird_configs_for sample_env sample_manager [sample_q] False w2 = (Inr (), w3)"
    using sample_sync[OF w2(2)] by blast
  with w1 w2 show ?thesis by (simp add: apply_peer_def sync_bird_configs_def and_then_def)
qed

lemma sample_increments: "increments = 0 # map of_nat [1 ..< 10000]"
  unfolding increments_def by (subst upt_conv_Cons) simp_all

lemma sample_reserve:
  assumes "w_peers w = []" "w_peer_seq w = 4" "w_kernel w = w_kernel empty_world"
  shows "\<exists>w'. reserve_peer sample_env sample_manager 4242420001 ''home'' (p_pubkey sample_peer) None
      (Some (p_local_ll_ip sample_peer, p_remote_ll_ip sample_peer)) 1420 w = (Inr sample_q, w')
    \<and> w_peers w' = [reserved_row sample_q 1000]"
proof -
  have "probe_port 4242420001 0 = 20001" by (simp add: probe_port_def Let_def)
  moreover have "build_peer 5 4242420001 ''home'' (p_pubkey sample_peer) None
      (p_local_ll_ip sample_peer, p_remote_ll_ip sample_peer) 20001 1420 = sample_q"
  proof -
    have "show_u32 5 = ''5''" by code_simp
    then show ?thesis by (simp add: build_peer_def sample_peer_def)
  qed
  moreover have "varchar 32 ''home'' = Some ''home''" by code_simp
  moreover have "p_peer_name sample_q = ''home''" by (simp add: sample_peer_def)
  moreover have "(reserved_row sample_q 1000)\<lparr>c_peer_name := ''home''\<rparr> = reserved_row sample_q 1000"
    by (simp add: sample_peer_def reserved_row_def peer_to_cols_def peer_cols.defs)
  ultimately show ?thesis using assms
    by (simp add: reserve_peer_def allocate_peer_id_def sample_increments Let_def and_then_def acquire_def
        execute_def ext_call_def sql_nextval_peer_id_def empty_world_def in_word_range_def
        listen_port_in_use_def device_list_def db_reserve_peer_def read_clock_def tx_begin_def tx_execute_def
        tx_commit_def tx_call_def sql_insert_peer_def conflicts_def enqueue_peer_change_def sample_manager_def
        unix_timestamp_def map_err_def await_def)
qed



lemma sample_creation:
  "\<exists>w'. create_peer sample_env sample_manager 4242420001 ''home'' (p_pubkey sample_peer) None
      (Some (p_local_ll_ip sample_peer, p_remote_ll_ip sample_peer)) None fresh_world = (Inr sample_peer, w')"
proof -
  let ?w0 = "note_lock (Acquired (operation_lock 4242420001 ''home'')) (await sample_env fresh_world)"
  have w0: "w_peers ?w0 = []" "w_peer_seq ?w0 = 4" "w_kernel ?w0 = w_kernel empty_world" "kernel_view ?w0 = kernel_view fresh_world"
      "bird_view ?w0 = bird_view fresh_world" "sound sample_manager ?w0"
    using fresh_sound db_inv_tick[of _ fresh_world] db_inv_lock_free
    by (simp_all add: fresh_world_def empty_world_def kernel_view_def bird_view_def sound_def lock_free_def)
  obtain w1 where w1: "peer_exists sample_env 4242420001 ''home'' ?w0 = (Inr False, w1)"
    using w0(1) by (simp add: peer_exists_def acquire_def execute_def and_then_def ext_call_def sql_select_def Let_def)
  let ?w1 = "note_lock (Acquired PortLock) (await sample_env w1)"
  have lw: "w_peers ?w1 = []" "w_peer_seq ?w1 = 4" "w_kernel ?w1 = w_kernel empty_world" "kernel_view ?w1 = kernel_view fresh_world"
      "bird_view ?w1 = bird_view fresh_world" "sound sample_manager ?w1"
    using sound_about[OF w0(6), of ?w1] peer_exists_ok[OF sample_env_quiet w1]
      lasting_views[OF keepsD[OF rolled_back_keeps(3)[OF sample_env_quiet] w1]] w0(1-5)
    by (simp_all add: await_quiet[OF sample_env_quiet] db_view_eq kernel_view_def bird_view_def)
  have other: "(4242420001 :: u32) \<noteq> local_asn sample_manager" by (simp add: sample_manager_def)
  obtain v2 where v2: "reserve_peer sample_env sample_manager 4242420001 ''home'' (p_pubkey sample_peer) None
      (Some (p_local_ll_ip sample_peer, p_remote_ll_ip sample_peer)) 1420 ?w1 = (Inr sample_q, v2)"
    "w_peers v2 = [reserved_row sample_q 1000]" using sample_reserve[OF lw(1-3)] by blast
  let ?w2 = "note_lock (Released PortLock) v2"
  have v: "kernel_view ?w2 = kernel_view fresh_world" "bird_view ?w2 = bird_view fresh_world" "sound sample_manager ?w2"
    using reserve_peer_ok[OF sample_env_quiet other v2(1)] lw(4-6) db_inv_lock_free
      preservesD[OF preserves_reserve_peer[OF quiet_stable[OF sample_env_quiet]] _ v2(1)]
    by (simp_all add: sound_def bird_view_def lock_free_def)
  then have "w_kernel ?w2 = \<lparr>k_links = [], k_devices = []\<rparr>" "w_fs ?w2 = []"
    by (simp_all add: kernel_view_def bird_view_def fresh_world_def empty_world_def)
  then obtain w3 where w3: "apply_peer sample_env sample_manager sample_q ?w2 = (Inr (), w3)"
    using sample_apply_peer v2(2) sample_q_row by fastforce
  have rows3: "w_peers w3 = [reserved_row sample_q 1000]"
    using apply_peer_ok[OF sample_calm v(3) w3] v2(2) by (simp add: db_view_eq)
  obtain w4 where w4: "sync_nft_ports sample_env w3 = (Inr (), w4)" "w_peers w4 = w_peers w3"
    using sample_nft[OF rows3 sample_q_row] by blast
  have "c_peer_id (reserved_row sample_q 1000) = 5" by (simp add: sample_peer_def)
  then obtain w5 where w5: "set_status sample_env 5 Active w4 = (Inr True, w5)"
    using sample_set_status[of w4 "reserved_row sample_q 1000" Active] w4(2) rows3 by auto
  have "p_peer_id sample_q = 5" "sample_q\<lparr>p_status := Active\<rparr> = sample_peer" by (simp_all add: sample_peer_def)
  moreover have "with_lock sample_env PortLock (reserve_peer sample_env sample_manager 4242420001 ''home''
      (p_pubkey sample_peer) None (Some (p_local_ll_ip sample_peer, p_remote_ll_ip sample_peer)) 1420) w1
      = (Inr sample_q, ?w2)" using v2(1) unfolding with_lock_run by blast
  ultimately show ?thesis
    using w1 w3 w4(1) w5 other
    by (simp add: create_peer_def with_lock_def[of _ "operation_lock 4242420001 ''home''"] and_then_def attempt_def)
qed




section \<open>Updating a peer\<close>

lemma update_desired_rows:
  assumes "quiet E" "update_peer_desired E d w = (Inr b, w')"
  shows "\<exists>now. w_peers w' = map (\<lambda>r. if c_peer_id r = sint (p_peer_id d) then desired_columns d now r else r) (w_peers w)"
proof -
  obtain now n where q: "fst (sql_update_peer (desired_columns d now) (sint (p_peer_id d)) w) = Inr n"
      "db_view w' = db_view (snd (sql_update_peer (desired_columns d now) (sint (p_peer_id d)) w))"
    using update_peer_desired_ok[OF assms] unfolding Let_def by blast
  then have "w_peers w' = map (\<lambda>r. if c_peer_id r = sint (p_peer_id d) then desired_columns d now r else r) (w_peers w)"
    by (auto simp: sql_update_peer_def Let_def enqueue_fold db_view_eq split: if_splits)
  then show ?thesis by blast
qed

lemma read_desired_row:
  assumes old: "row_to_peer decode r = Inr old" "c_peer_id r < 2 ^ 31"
    and d: "p_peer_id d = p_peer_id old" "p_asn d = p_asn old" "p_peer_name d = p_peer_name old"
    and key: "valid_pubkey decode (p_pubkey d)"
  shows "row_to_peer decode (desired_columns d now r) = Inr (d\<lparr>p_status := Provisioning\<rparr>)"
proof -
  note F = row_to_peer_fields[OF old(1)]
  have id: "sint (p_peer_id d) = c_peer_id r" using row_id[OF old] d(1) by simp
  have asn: "uint (p_asn d) = c_asn r"
    using F(2,13) d(2) by (auto simp: in_word_range_def unsigned_of_int take_bit_int_eq_self)
  have name: "p_peer_name d = c_peer_name r" using F(3) d(3) by simp
  have "row_to_peer decode (desired_columns d now r) = row_to_peer decode (peer_to_cols d ''provisioning'')"
    by (rule row_to_peer_cong)
      (simp add: desired_columns_def peer_to_cols_def peer_cols.defs id asn name)
  moreover have "uint (p_peer_id d) < 2 ^ 31"
  proof (rule ccontr)
    assume "\<not> uint (p_peer_id d) < 2 ^ 31"
    then have "c_peer_id r < 0" using sint_large[of "p_peer_id d"] id by simp
    then show False using F(12) by (simp add: in_word_range_def)
  qed
  then have "storable decode d" using key by (simp add: storable_def)
  ultimately show ?thesis by (simp add: row_to_peer_cols)
qed

lemma sound_update:
  assumes "calm E" "sound m w" "update_peer_desired E d w = (r, w')"
  shows "sound m w' \<and> kernel_view w' = kernel_view w \<and> bird_view w' = bird_view w \<and> nft_view w' = nft_view w"
proof -
  have v: "kernel_view w' = kernel_view w" "bird_view w' = bird_view w" "nft_view w' = nft_view w"
    using keepsD[OF store_keeps(5)[OF calmD(1)[OF assms(1)], of kernel_view] assms(3)]
      keepsD[OF store_keeps(5)[OF calmD(1)[OF assms(1)], of bird_view] assms(3)]
      keepsD[OF store_keeps(5)[OF calmD(1)[OF assms(1)], of nft_view] assms(3)] by simp_all
  moreover have "db_inv w'"
    using preservesD[OF store_preserves_db_inv(5)[OF quiet_stable[OF calmD(1)[OF assms(1)]]] _ assms(3)] assms(2)
    by (simp add: sound_def)
  ultimately show ?thesis using assms(2) by (simp add: sound_def bird_view_def)
qed

lemma only_row:
  "distinct (map c_peer_id rows) \<Longrightarrow> r \<in> set rows \<Longrightarrow>
   map (\<lambda>x. if c_peer_id x = c_peer_id r then f x else x) rows
   = map (\<lambda>x. if c_peer_id x = c_peer_id r then f r else x) rows"
  by (auto simp: distinct_map dest: inj_onD)

lemma rows_after_update:
  assumes ids: "distinct (map c_peer_id rows)" and r: "r \<in> set rows"
    and read: "row_to_peer decode (desired_columns d now r) = Inr (d\<lparr>p_status := Provisioning\<rparr>)"
  shows "\<exists>row. row_to_peer decode row = Inr (d\<lparr>p_status := Active\<rparr>)
    \<and> mark (c_peer_id r) ''active'' t (map (\<lambda>x. if c_peer_id x = c_peer_id r then desired_columns d now x else x) rows)
      = map (\<lambda>x. if c_peer_id x = c_peer_id r then row else x) rows"
proof -
  let ?row = "(desired_columns d now r)\<lparr>c_status := ''active'', r_updated_at := t\<rparr>"
  have "mark (c_peer_id r) ''active'' t (map (\<lambda>x. if c_peer_id x = c_peer_id r then desired_columns d now r else x) rows)
      = map (\<lambda>x. if c_peer_id x = c_peer_id r then ?row else x) rows"
    by (simp add: mark_def comp_def if_distrib cong: if_cong)
  then have "mark (c_peer_id r) ''active'' t (map (\<lambda>x. if c_peer_id x = c_peer_id r then desired_columns d now x else x) rows)
      = map (\<lambda>x. if c_peer_id x = c_peer_id r then ?row else x) rows"
    unfolding only_row[OF ids r, of "desired_columns d now"] .
  moreover have "row_to_peer decode ?row = Inr (d\<lparr>p_status := Active\<rparr>)"
    using row_to_peer_status[OF read] by simp
  ultimately show ?thesis by blast
qed

text \<open>The steps of a successful update, up to the first outside effect.\<close>

lemma update_peer_steps:
  assumes "calm E" "sound m w" "\<forall>r\<in>set (w_peers w). c_peer_id r < 2 ^ 31" "valid_pubkey (b64_decode E) key"
    and "update_peer E m asn name key ep ll mtu w = (Inr p, w')"
  obtains r old d w2 w3 w4 ev now where "r \<in> set (w_peers w)" "identity_of r = (uint asn, name)"
    and "row_to_peer (b64_decode E) r = Inr old" "p_status old \<noteq> Deleting"
    and "d = desired_peer m old key ep ll mtu asn" "sint (p_peer_id d) = c_peer_id r"
    and "row_to_peer (b64_decode E) (desired_columns d now r) = Inr (d\<lparr>p_status := Provisioning\<rparr>)"
    and "w_peers w2 = map (\<lambda>x. if c_peer_id x = c_peer_id r then desired_columns d now x else x) (w_peers w)"
    and "sound m w2" "kernel_view w2 = kernel_view w" "nft_view w2 = nft_view w"
    and "apply_peer E m d w2 = (Inr (), w3)"
    and "set_status E (p_peer_id d) Active w3 = (Inr True, w4)" "w' = note_lock ev w4" "p = d\<lparr>p_status := Active\<rparr>"
proof -
  note C = calmD[OF assms(1)]
  let ?lock = "operation_lock asn name"
  obtain w1 old w2 w3 w4 where got: "get_peer E asn name (note_lock (Acquired ?lock) (await E w)) = (Inr (Some old), w1)"
    and alive: "p_status old \<noteq> Deleting"
    and upd: "update_peer_desired E (desired_peer m old key ep ll mtu asn) w1 = (Inr True, w2)"
    and rest: "apply_peer E m (desired_peer m old key ep ll mtu asn) w2 = (Inr (), w3)"
      "set_status E (p_peer_id (desired_peer m old key ep ll mtu asn)) Active w3 = (Inr True, w4)" "w' = note_lock (Released ?lock) w4"
      "p = (desired_peer m old key ep ll mtu asn)\<lparr>p_status := Active\<rparr>"
    using assms(5) unfolding update_peer_def with_lock_run
    by (auto simp: case_sum_run and_then_Inr Let_def split: if_splits)
  let ?d = "desired_peer m old key ep ll mtu asn"
  obtain r where r: "find (\<lambda>r. identity_of r = (uint asn, name)) (w_peers w) = Some r"
    and read: "row_to_peer (b64_decode E) r = Inr old" and db1: "db_view w1 = db_view w"
    using get_peer_ok[OF C(1) got] C(1) by (auto simp: db_view_eq await_quiet)
  then have r_in: "r \<in> set (w_peers w)" "identity_of r = (uint asn, name)" by (auto simp: find_Some_iff)
  then have small: "c_peer_id r < 2 ^ 31" using assms(3) by blast
  have id: "sint (p_peer_id ?d) = c_peer_id r" using row_id[OF read small] by (simp add: desired_peer_def)
  have v1: "kernel_view w1 = kernel_view w" "bird_view w1 = bird_view w" "nft_view w1 = nft_view w"
    using get_views(1)[OF C(1) got] C(1) by simp_all
  note S2 = sound_update[OF assms(1) sound_about[OF assms(2) db1 v1(2)] upd]
  obtain now where "w_peers w2 = map (\<lambda>x. if c_peer_id x = c_peer_id r then desired_columns ?d now x else x) (w_peers w)"
    using update_desired_rows[OF C(1) upd] id db1 by (auto simp: db_view_eq)
  moreover have "row_to_peer (b64_decode E) (desired_columns ?d now r) = Inr (?d\<lparr>p_status := Provisioning\<rparr>)" for now
    using read_desired_row[OF read small, of ?d] assms(4) by (simp add: desired_peer_def)
  moreover have "sound m w2" "kernel_view w2 = kernel_view w" "nft_view w2 = nft_view w"
    using S2 v1 by simp_all
  ultimately show thesis using that[OF r_in read alive refl id _ _ _ _ _ rest] by blast
qed

text \<open>A replacement of one row by another one, as wanted and with the same port, opens the same ports.\<close>

lemma image_selected:
  assumes "\<And>x. x \<in> A \<Longrightarrow> P (f x) = P x" "\<And>x. x \<in> A \<Longrightarrow> g (f x) = g x"
  shows "g ` {y \<in> f ` A. P y} = g ` {x \<in> A. P x}"
proof -
  have "{y \<in> f ` A. P y} = f ` {x \<in> A. P x}" using assms(1) by auto
  then have "g ` {y \<in> f ` A. P y} = (\<lambda>x. g (f x)) ` {x \<in> A. P x}" by (simp add: image_image)
  also have "\<dots> = g ` {x \<in> A. P x}" using assms(2) by (intro image_cong) auto
  finally show ?thesis .
qed

lemma open_ports_replace:
  assumes "distinct (map c_peer_id rows)" "r \<in> set rows" "desired_row row = desired_row r"
    and "(of_int (c_listen_port row) :: u16) = of_int (c_listen_port r)"
  shows "open_ports (map (\<lambda>x. if c_peer_id x = c_peer_id r then row else x) rows) = open_ports rows"
proof -
  let ?f = "\<lambda>x. if c_peer_id x = c_peer_id r then row else x"
  have "x = r" if "x \<in> set rows" "c_peer_id x = c_peer_id r" for x
    using assms(1,2) that by (auto simp: distinct_map dest: inj_onD)
  then have same: "desired_row (?f x) = desired_row x \<and> (of_int (c_listen_port (?f x)) :: u16) = of_int (c_listen_port x)"
    if "x \<in> set rows" for x using that assms(3,4) by auto
  then show ?thesis unfolding open_ports_def set_map by (intro image_selected) blast+
qed

lemma replaced_row_wanted:
  assumes "row_to_peer decode r = Inr old" "row_to_peer decode row = Inr p"
    and "p_listen_port p = p_listen_port old" "desired_status (p_status p) = desired_status (p_status old)"
  shows "desired_row row = desired_row r" "(of_int (c_listen_port row) :: u16) = of_int (c_listen_port r)"
  using assms desired_status_row row_to_peer_fields(9) by metis+


lemma sample_updating:
  "\<exists>w'. update_peer sample_env sample_manager 4242420001 ''home'' (p_pubkey sample_peer) None
      (Some (p_local_ll_ip sample_peer, p_remote_ll_ip sample_peer)) None one_peer_world = (Inr sample_peer, w')"
proof -
  let ?row = "desired_columns sample_q 1000 (reserved_row sample_peer 9)"
  have pid: "p_peer_id sample_q = 5" "c_peer_id (reserved_row sample_peer 9) = 5" "c_peer_id ?row = 5"
    by (simp_all add: sample_peer_def desired_columns_def)
  have desired: "desired_peer sample_manager sample_q (p_pubkey sample_peer) None
      (Some (p_local_ll_ip sample_peer, p_remote_ll_ip sample_peer)) None 4242420001 = sample_q"
    by (simp add: desired_peer_def)
  have read: "row_to_peer (\<lambda>_. Inr []) ?row = Inr sample_q"
    using read_desired_row[OF read_reserved_row[OF storable_sample], of 9 sample_q 1000] storable_sample pid(2)
    by (simp add: storable_def)
  let ?w0 = "note_lock (Acquired (operation_lock 4242420001 ''home'')) (await sample_env one_peer_world)"
  obtain w1 where w1: "get_peer sample_env 4242420001 ''home'' ?w0 = (Inr (Some sample_q), w1)"
    "w_peers w1 = [reserved_row sample_peer 9]" using sample_get_peer[OF one_peer_locked(1)] by blast
  then obtain w2 where w2: "update_peer_desired sample_env sample_q w1 = (Inr True, w2)" "w_peers w2 = [?row]"
    using pid by (simp add: update_peer_desired_def acquire_def execute_def and_then_def ext_call_def read_clock_def
        sql_update_peer_def Let_def peers_unique_def enqueue_peer_change_def unix_timestamp_def)
  have v1: "kernel_view w1 = kernel_view one_peer_world" "bird_view w1 = bird_view one_peer_world"
    using get_views(1)[OF sample_env_quiet w1(1)] one_peer_locked(3,4) by metis+
  then have "sound sample_manager w1"
    using sound_about[OF one_peer_sound, of w1] get_peer_ok[OF sample_env_quiet w1(1)]
    by (simp add: db_view_eq await_quiet[OF sample_env_quiet])
  note S2 = sound_update[OF sample_calm this w2(1)]
  have "w_kernel w2 = \<lparr>k_links = [], k_devices = []\<rparr>" "w_fs w2 = []"
    using S2 v1 by (simp_all add: kernel_view_def bird_view_def one_peer_world_def empty_world_def)
  then obtain w3 where w3: "apply_peer sample_env sample_manager sample_q w2 = (Inr (), w3)"
    using sample_apply_peer w2(2) read by blast
  have rows3: "w_peers w3 = [?row]" using apply_peer_ok[OF sample_calm _ w3] S2 w2(2) by (simp add: db_view_eq)
  obtain w4 where w4: "set_status sample_env 5 Active w3 = (Inr True, w4)"
    using sample_set_status[OF rows3 pid(3), of Active] by blast
  have "p_status sample_q \<noteq> Deleting" "sample_q\<lparr>p_status := Active\<rparr> = sample_peer" by (simp_all add: sample_peer_def)
  then show ?thesis using w1(1) w2(1) w3 w4 desired pid(1)
    by (simp add: update_peer_def with_lock_run and_then_def attempt_def found_or_def Let_def)
qed


end
