(* ===== verification/Recovery.thy ===== *)
theory Recovery
  imports Outcomes
begin

text \<open>
  What the job of pending changes and the recovery at startup leave behind, in the terms of
  \<open>Outcomes\<close>.
\<close>

section \<open>Rows by their id\<close>

lemma sound_ids: "sound m w \<Longrightarrow> distinct (map c_peer_id (w_peers w))"
  by (simp add: sound_def db_inv_def peers_unique_def)

lemma same_id: "distinct (map c_peer_id rows) \<Longrightarrow> r \<in> set rows \<Longrightarrow> x \<in> set rows \<Longrightarrow> c_peer_id x = c_peer_id r \<Longrightarrow> x = r"
  by (auto simp: distinct_map dest: inj_onD)

lemma id_small: "sint (pid :: u32) < 2147483648"
  using sint_lt[of pid] by simp

section \<open>Changes made while changes are applied\<close>

definition newer :: "world \<Rightarrow> world \<Rightarrow> bool" where
  "newer w w' =
     (w_event_seq w \<le> w_event_seq w'
      \<and> (\<forall>e\<in>set (w_events w'). e \<in> set (w_events w) \<or> w_event_seq w < ev_event_id e))"

lemma newer_same: "db_view w' = db_view w \<Longrightarrow> newer w w'"
  by (simp add: newer_def db_view_eq)

lemma newer_trans: "newer w1 w2 \<Longrightarrow> newer w2 w3 \<Longrightarrow> newer w1 w3"
  unfolding newer_def by fastforce

lemma newer_enqueued:
  assumes "w_event_seq w' = w_event_seq w + int (length rows)"
    and "w_events w' = w_events w @ new_events op (w_event_seq w) rows"
  shows "newer w w'"
  using assms new_events_range[of _ op "w_event_seq w" rows] by (auto simp: newer_def)

lemma newer_set_status:
  assumes "quiet E" "set_status E pid st w = (Inr b, w')"
  shows "newer w w'"
proof -
  obtain now n where q: "fst (sql_update_peer (\<lambda>r. r\<lparr>c_status := status_to_str st, r_updated_at := now\<rparr>) (sint pid) w) = Inr n"
      "db_view w' = db_view (snd (sql_update_peer (\<lambda>r. r\<lparr>c_status := status_to_str st, r_updated_at := now\<rparr>) (sint pid) w))"
    using set_status_ok[OF assms] unfolding Let_def by blast
  then show ?thesis
    by (intro newer_enqueued[where op = "''UPDATE''"])
      (auto simp: sql_update_peer_def Let_def enqueue_fold db_view_eq split: if_splits)
qed

lemma newer_delete:
  assumes "quiet E" "db_delete_peer E pid w = (Inr b, w')"
  shows "newer w w'"
  using db_delete_peer_ok[OF assms]
  by (intro newer_enqueued[where op = "''DELETE''"])
    (auto simp: sql_delete_peer_def Let_def enqueue_fold_id db_view_eq)

section \<open>Status changes that change no output\<close>

lemma settled_active:
  assumes "calm E" "sound m w" "bird_matches E m w"
    and r: "\<And>r. r \<in> set (w_peers w) \<Longrightarrow> c_peer_id r = sint pid \<Longrightarrow> desired_row r"
    and run: "set_status E pid Active w = (Inr b, w')"
  shows "sound m w' \<and> bird_matches E m w' \<and> newer w w' \<and> nft_matches w' = nft_matches w"
proof -
  note C = calmD[OF assms(1)]
  have v: "bird_view w' = bird_view w" "nft_view w' = nft_view w" using status_views(1)[OF C(1) run] by simp_all
  obtain t where rows: "w_peers w' = mark (sint pid) ''active'' t (w_peers w)"
    using set_status_rows[OF C(1) run] by auto
  have "same_output E m (w_peers w') (w_peers w)" unfolding rows using r by (intro same_output_mark) simp
  from matches_same_output[OF this] v assms(3) have "bird_matches E m w'" "nft_matches w' = nft_matches w" by simp_all
  then show ?thesis
    using sound_store(1)[OF assms(1,2) v(1) run] newer_set_status[OF C(1) run] by blast
qed

lemma dropped_unwanted:
  assumes "calm E" "sound m w" "bird_matches E m w"
    and r: "\<And>r. r \<in> set (w_peers w) \<Longrightarrow> c_peer_id r = sint pid \<Longrightarrow> \<not> desired_row r"
    and run: "db_delete_peer E pid w = (Inr b, w')"
  shows "sound m w' \<and> bird_matches E m w' \<and> newer w w' \<and> nft_matches w' = nft_matches w"
proof -
  note C = calmD[OF assms(1)]
  have v: "bird_view w' = bird_view w" "nft_view w' = nft_view w" using status_views(2)[OF C(1) run] by simp_all
  have "w_peers w' = filter (\<lambda>r. c_peer_id r \<noteq> sint pid) (w_peers w)" using db_delete_rows[OF C(1) run] by simp
  then have "same_output E m (w_peers w') (w_peers w)" using r by (auto intro!: same_output_filter)
  from matches_same_output[OF this] v assms(3) have "bird_matches E m w'" "nft_matches w' = nft_matches w" by simp_all
  then show ?thesis using sound_store(2)[OF assms(1,2) v(1) run] newer_delete[OF C(1) run] by blast
qed

section \<open>Pending changes\<close>

text \<open>The part of \<open>apply_peer_change\<close> between reading the peer and synchronizing the ports.\<close>

definition settle :: "env \<Rightarrow> peer_manager \<Rightarrow> peer \<Rightarrow> peer option \<Rightarrow> unit io" where
  "settle E m snapshot current =
     (case current of
        Some p \<Rightarrow>
          if p_status p \<noteq> Deleting \<and> p_status p \<noteq> Disabled then
            and_then (apply_peer E m p) (\<lambda>_.
            if p_status p \<noteq> Active then
              and_then (set_status E (p_peer_id p) Active) (\<lambda>found.
              found_or found (p_asn p) (p_peer_name p))
            else ret ())
          else if p_status p = Deleting then
            and_then (remove_external_state E m p) (\<lambda>_. finish_delete E p)
          else remove_external_state E m p
      | None \<Rightarrow> remove_external_state E m snapshot)"

lemma settle_ok:
  assumes "calm E" "sound m w" and run: "settle E m snapshot current w = (Inr (), w')"
    and current: "\<And>p. current = Some p \<Longrightarrow> \<exists>r\<in>set (w_peers w). c_peer_id r < 2 ^ 31 \<and> row_to_peer (b64_decode E) r = Inr p"
  shows "sound m w' \<and> bird_matches E m w' \<and> newer w w'"
proof -
  note C = calmD[OF assms(1)]
  have removed: "sound m w1 \<and> bird_matches E m w1 \<and> newer w w1 \<and> w_peers w1 = w_peers w"
    if "remove_external_state E m p w = (Inr (), w1)" for p w1
    using remove_external_ok[OF assms(1,2) that] newer_same by (auto simp: db_view_eq)
  show ?thesis
  proof (cases current)
    case None
    then show ?thesis using run removed by (simp add: settle_def)
  next
    case (Some p)
    then obtain r where r: "r \<in> set (w_peers w)" "c_peer_id r < 2 ^ 31" "row_to_peer (b64_decode E) r = Inr p"
      using current by blast
    have id: "c_peer_id r = sint (p_peer_id p)" using row_id[OF r(3,2)] by simp
    note wanted = desired_status_row[OF r(3)]
    consider (keep) "p_status p \<noteq> Deleting \<and> p_status p \<noteq> Disabled" | (delete) "p_status p = Deleting"
      | (disable) "p_status p = Disabled" by blast
    then show ?thesis
    proof cases
      case keep
      then obtain w1 where app: "apply_peer E m p w = (Inr (), w1)"
        and rest: "w' = w1 \<or> (\<exists>b. set_status E (p_peer_id p) Active w1 = (Inr b, w'))"
        using run Some by (auto simp: settle_def and_then_Inr split: if_splits)
      note A = apply_peer_ok[OF assms(1,2) app]
      have "desired_row x" if "x \<in> set (w_peers w1)" "c_peer_id x = sint (p_peer_id p)" for x
        using same_id[OF sound_ids[OF assms(2)] r(1), of x] that id wanted keep A
        by (simp add: desired_status_def db_view_eq)
      note settled = settled_active[OF assms(1) _ _ this]
      have B: "sound m w1" "bird_matches E m w1" "newer w w1" using A newer_same by blast+
      from rest show ?thesis
      proof
        assume "\<exists>b. set_status E (p_peer_id p) Active w1 = (Inr b, w')"
        then show ?thesis using settled[OF B(1,2)] newer_trans[OF B(3)] by blast
      qed (use B in simp)
    next
      case delete
      then obtain w1 b where ext: "remove_external_state E m p w = (Inr (), w1)"
        and del: "db_delete_peer E (p_peer_id p) w1 = (Inr b, w')"
        using run Some by (auto simp: settle_def finish_delete_def and_then_Inr)
      note R = removed[OF ext]
      have "\<not> desired_row x" if "x \<in> set (w_peers w1)" "c_peer_id x = sint (p_peer_id p)" for x
        using same_id[OF sound_ids[OF assms(2)] r(1), of x] that id wanted delete R by (simp add: desired_status_def)
      then have "sound m w' \<and> bird_matches E m w' \<and> newer w1 w'" using dropped_unwanted[OF assms(1) _ _ _ del] R by blast
      then show ?thesis using R newer_trans[of w w1 w'] by blast
    next
      case disable
      then show ?thesis using run Some removed by (simp add: settle_def)
    qed
  qed
qed

lemma apply_peer_change_ok:
  assumes "calm E" "sound m w" "apply_peer_change E m change w = (Inr (), w')"
  shows "sound m w' \<and> bird_matches E m w' \<and> nft_matches w' \<and> newer w w'"
proof -
  note C = calmD[OF assms(1)]
  let ?lock = "operation_lock (p_asn (ch_peer change)) (p_peer_name (ch_peer change))"
  let ?w0 = "note_lock (Acquired ?lock) (await E w)"
  obtain current w1 w2 w3 where got: "get_peer_by_id E (p_peer_id (ch_peer change)) ?w0 = (Inr current, w1)"
    and settled: "settle E m (ch_peer change) current w1 = (Inr (), w2)"
    and nft: "sync_nft_ports E w2 = (Inr (), w3)" and w': "w' = note_lock (Released ?lock) w3"
    using assms(3) unfolding apply_peer_change_def settle_def[symmetric] Let_def
    by (auto simp: with_lock_run and_then_Inr)
  note G = get_peer_by_id_ok[OF C(1) got]
  have v1: "db_view w1 = db_view w" "bird_view w1 = bird_view w"
    using G get_views(2)[OF C(1) got] await_views[OF C(1), of w] note_lock_views by metis+
  have "\<exists>r\<in>set (w_peers w1). c_peer_id r < 2 ^ 31 \<and> row_to_peer (b64_decode E) r = Inr p" if "current = Some p" for p
    using G that v1(1) await_views(1)[OF C(1), of w] by (auto simp: db_view_eq find_Some_iff intro!: bexI id_small)
  note S = settle_ok[OF assms(1) sound_about[OF assms(2) v1] settled this]
  have N: "db_view w' = db_view w2" "bird_view w' = bird_view w2" "nft_matches w'"
    using sync_nft_matches[OF assms(1) nft] by (simp_all add: w')
  have "sound m w'" "bird_matches E m w'" using S N sound_about bird_matches_cong by blast+
  moreover have "newer w w'" using newer_same[OF v1(1)] S newer_same[of w' w2] N newer_trans by blast
  ultimately show ?thesis using N by blast
qed

lemma list_peer_changes_ok:
  assumes "calm E" "list_peer_changes E w = (Inr changes, w')"
  shows "map ch_event_id changes = map ev_event_id (sort_key ev_event_id (w_events w))
    \<and> db_view w' = db_view w \<and> bird_view w' = bird_view w \<and> nft_view w' = nft_view w"
proof -
  note C = calmD[OF assms(1)]
  obtain rows w1 where q: "and_then (acquire E) (\<lambda>_. execute E (sql_select (\<lambda>w. sort_key ev_event_id (w_events w)))) w
      = (Inr rows, w1)"
    and rest: "lift_res (collect_results (\<lambda>row.
       res_bind (row_to_peer (b64_decode E) row) (\<lambda>p.
         Inr \<lparr>ch_event_id = ev_event_id row, ch_operation = ev_operation row, ch_peer = p\<rparr>)) rows) w1
      = (Inr changes, w')"
    using assms(2) unfolding list_peer_changes_def and_then_assoc[symmetric] by (auto simp only: and_then_Inr)
  have "rows = sort_key ev_event_id (w_events w)" "db_view w1 = db_view w"
    using acquire_execute_ok'[OF C(1) db_statements(10)[of "sort_key ev_event_id"] q] by (simp_all add: sql_select_def)
  moreover have "list_all2 (\<lambda>row c. ch_event_id c = ev_event_id row) rows changes" "w' = w1"
    using rest by (auto simp: collect_results_Inr res_bind_Inr elim!: list_all2_mono)
  moreover have "map ch_event_id cs = map ev_event_id rs" if "list_all2 (\<lambda>row c. ch_event_id c = ev_event_id row) rs cs" for rs cs
    using that by induction simp_all
  moreover have "bird_view w' = bird_view w" "nft_view w' = nft_view w"
    using keepsD[OF store_keeps(13)[OF C(1), of bird_view] assms(2)]
      keepsD[OF store_keeps(13)[OF C(1), of nft_view] assms(2)] by simp_all
  ultimately show ?thesis by blast
qed

lemma delete_peer_change_ok:
  assumes "calm E" "sound m w" "delete_peer_change E eid w = (Inr b, w')"
  shows "sound m w' \<and> w_events w' = filter (\<lambda>e. ev_event_id e \<noteq> eid) (w_events w) \<and> w_event_seq w' = w_event_seq w
    \<and> bird_matches E m w' = bird_matches E m w \<and> nft_matches w' = nft_matches w"
proof -
  note C = calmD[OF assms(1)]
  obtain n where "and_then (acquire E) (\<lambda>_. execute E (sql_delete_event eid)) w = (Inr n, w')"
    using assms(3) unfolding delete_peer_change_def and_then_assoc[symmetric] and_then_Inr by auto
  from acquire_execute_ok'[OF C(1) db_statements(8) this]
  have db: "db_view w' = db_view (snd (sql_delete_event eid w))" by blast
  have v: "bird_view w' = bird_view w" "nft_view w' = nft_view w"
    using keepsD[OF store_keeps(14)[OF C(1), of bird_view] assms(3)]
      keepsD[OF store_keeps(14)[OF C(1), of nft_view] assms(3)] by simp_all
  have "w_peers w' = w_peers w" using db by (simp add: db_view_eq sql_delete_event_def)
  with v have "bird_matches E m w' = bird_matches E m w" "nft_matches w' = nft_matches w"
    by (simp_all add: bird_matches_def nft_matches_def bird_view_def nft_view_def)
  moreover have "sound m w'"
    using preservesD[OF store_preserves_db_inv(14)[OF quiet_stable[OF C(1)]] _ assms(3)] assms(2) v(1)
    by (simp add: sound_def bird_view_def)
  ultimately show ?thesis using db by (simp add: db_view_eq sql_delete_event_def)
qed

text \<open>The ids that are answered, and what may have been added meanwhile.\<close>

definition answered :: "int set \<Rightarrow> world \<Rightarrow> world \<Rightarrow> bool" where
  "answered ids w w' =
     (w_event_seq w \<le> w_event_seq w'
      \<and> (\<forall>e\<in>set (w_events w'). e \<in> set (w_events w) \<and> ev_event_id e \<notin> ids \<or> w_event_seq w < ev_event_id e))"

lemma answered_step:
  assumes "newer w w1" "w_events w2 = filter (\<lambda>e. ev_event_id e \<noteq> eid) (w_events w1)" "w_event_seq w2 = w_event_seq w1"
    and "answered ids w2 w'"
  shows "answered (insert eid ids) w w'"
  using assms unfolding newer_def answered_def by fastforce

text \<open>What happens for one change.\<close>

definition sync_one :: "env \<Rightarrow> peer_manager \<Rightarrow> peer_change \<Rightarrow> peer_error option \<Rightarrow> peer_error option io" where
  "sync_one E m change first_error =
     and_then (attempt (apply_peer_change E m change)) (\<lambda>applied.
     case applied of
          Inr _ \<Rightarrow>
            and_then (attempt (delete_peer_change E (ch_event_id change))) (\<lambda>deleted.
            case deleted of
              Inr _ \<Rightarrow> ret first_error
            | Inl error \<Rightarrow> ret (if first_error = None then Some error else first_error))
        | Inl error \<Rightarrow> ret (if first_error = None then Some error else first_error))"

lemma sync_changes_Cons:
  "sync_changes E m (c # cs) first_error = and_then (sync_one E m c first_error) (sync_changes E m cs)"
  by (simp add: sync_one_def and_then_assoc)

lemma sync_one_None:
  assumes "sync_one E m c first_error w = (Inr None, w')"
  shows "first_error = None \<and> (\<exists>w1 b. apply_peer_change E m c w = (Inr (), w1)
    \<and> delete_peer_change E (ch_event_id c) w1 = (Inr b, w'))"
proof -
  obtain applied w1 where w1: "apply_peer_change E m c w = (applied, w1)" by fastforce
  obtain deleted w2 where w2: "delete_peer_change E (ch_event_id c) w1 = (deleted, w2)" by fastforce
  show ?thesis using assms w1 w2
    by (cases applied; cases deleted; cases first_error) (auto simp: sync_one_def and_then_Inr)
qed

lemma first_error_stays: "sync_changes E m changes first_error w = (Inr None, w') \<Longrightarrow> first_error = None"
proof (induction changes arbitrary: first_error w)
  case (Cons c cs)
  from Cons.prems obtain fe w1 where "sync_one E m c first_error w = (Inr fe, w1)" "sync_changes E m cs fe w1 = (Inr None, w')"
    unfolding sync_changes_Cons and_then_Inr by blast
  with Cons.IH show ?case using sync_one_None by blast
qed simp

lemma sync_changes_ok:
  assumes "calm E" "sound m w" "sync_changes E m changes None w = (Inr None, w')"
  shows "sound m w' \<and> answered (ch_event_id ` set changes) w w'
    \<and> (changes \<noteq> [] \<or> bird_matches E m w \<and> nft_matches w \<longrightarrow> bird_matches E m w' \<and> nft_matches w')"
  using assms(2,3)
proof (induction changes arbitrary: w)
  case Nil
  then show ?case by (simp add: answered_def)
next
  case (Cons c cs)
  obtain fe w2 where step: "sync_one E m c None w = (Inr fe, w2)" and rest: "sync_changes E m cs fe w2 = (Inr None, w')"
    using Cons.prems(2) unfolding sync_changes_Cons and_then_Inr by blast
  have "fe = None" by (rule first_error_stays[OF rest])
  with step obtain w1 b where app: "apply_peer_change E m c w = (Inr (), w1)"
    and del: "delete_peer_change E (ch_event_id c) w1 = (Inr b, w2)" using sync_one_None by blast
  note A = apply_peer_change_ok[OF assms(1) Cons.prems(1) app]
  note D = delete_peer_change_ok[OF assms(1) _ del, of m]
  have "sound m w2" "bird_matches E m w2 \<and> nft_matches w2" using A D by blast+
  with Cons.IH[OF this(1)] rest \<open>fe = None\<close> have IH: "sound m w'" "answered (ch_event_id ` set cs) w2 w'"
    "bird_matches E m w' \<and> nft_matches w'" by blast+
  have "newer w w1" using A by blast
  from answered_step[OF this _ _ IH(2), of "ch_event_id c"] D A have "answered (ch_event_id ` set (c # cs)) w w'" by simp
  with IH show ?case by blast
qed


text \<open>Example: a peer was marked for deletion and its change is pending.\<close>

abbreviation leaving :: peer_row where
  "leaving \<equiv> (reserved_row sample_peer 9)\<lparr>c_status := ''deleting'', r_updated_at := 9\<rparr>"

definition pending_world :: world where
  "pending_world = empty_world\<lparr>w_peers := [leaving], w_event_seq := 1,
     w_events := [peer_cols.extend (peer_cols.truncate leaving) \<lparr>ev_event_id = 1, ev_operation = ''UPDATE''\<rparr>]\<rparr>"

lemma pending_sound: "sound sample_manager pending_world"
proof -
  have "char_count (p_peer_name sample_peer) \<le> 32" by code_simp
  moreover have "bird_layout (bird_conf_dir sample_manager) []" using one_peer_sound
    by (simp add: sound_def one_peer_world_def empty_world_def)
  ultimately show ?thesis
    by (simp add: sound_def pending_world_def db_inv_def empty_world_def peers_unique_def events_ok_def)
qed

lemma sample_pending:
  "\<exists>w'. sync_pending_peer_changes sample_env sample_manager pending_world = (Inr (), w')"
proof -
  let ?p = "sample_peer\<lparr>p_status := Deleting\<rparr>"
  have pid: "p_peer_id ?p = 5" "c_peer_id leaving = 5" by (simp_all add: sample_peer_def)
  have read: "row_to_peer (\<lambda>_. Inr []) leaving = Inr ?p" using sample_marked by simp
  let ?c = "\<lparr>ch_event_id = 1, ch_operation = ''UPDATE'', ch_peer = ?p\<rparr>"
  obtain w1 where w1: "list_peer_changes sample_env pending_world = (Inr [?c], w1)" "w_peers w1 = [leaving]"
    "w_fs w1 = []" "k_links (w_kernel w1) = []"
    using read by (simp add: list_peer_changes_def acquire_def execute_def and_then_def ext_call_def sql_select_def
        pending_world_def empty_world_def)
  let ?lock = "operation_lock (p_asn ?p) (p_peer_name ?p)"
  obtain w2 where w2: "get_peer_by_id sample_env 5 (note_lock (Acquired ?lock) (await sample_env w1)) = (Inr (Some ?p), w2)" "w_peers w2 = [leaving]"
    "w_fs w2 = []" "k_links (w_kernel w2) = []"
    using w1(2-) read pid(2)
    by (simp add: get_peer_by_id_def acquire_def execute_def and_then_def ext_call_def sql_select_def)
  obtain w3 where w3: "remove_external_state sample_env sample_manager ?p w2 = (Inr (), w3)" "w_peers w3 = [leaving]"
    using sample_remove[OF w2(2-)] w2(2) by auto
  obtain w4 where w4: "db_delete_peer sample_env 5 w3 = (Inr True, w4)" "w_peers w4 = []"
    using w3(2) pid(2) by (simp add: db_delete_peer_def acquire_def execute_def and_then_def ext_call_def
        sql_delete_peer_def Let_def enqueue_peer_change_def)
  obtain w5 where w5: "sync_nft_ports sample_env w4 = (Inr (), w5)"
    using w4(2) by (simp add: list_peers_def acquire_def execute_def and_then_def ext_call_def sql_select_def
        order_rows_def sync_nft_ports_def sync_nft_ports_for_def with_lock_def run_nft_batch_def run_nft_batch_inner_def Let_def)
  have "apply_peer_change sample_env sample_manager ?c w1 = (Inr (), note_lock (Released ?lock) w5)"
    using w2(1) w3(1) w4(1) w5 pid(1)
    by (simp add: apply_peer_change_def with_lock_def finish_delete_def and_then_def found_or_def Let_def)
  moreover have "\<exists>b w6. delete_peer_change sample_env 1 (note_lock (Released ?lock) w5) = (Inr b, w6)"
    by (simp add: delete_peer_change_def acquire_def execute_def and_then_def ext_call_def sql_delete_event_def)
  ultimately show ?thesis using w1(1)
    by (auto simp: sync_pending_peer_changes_def and_then_def attempt_def)
qed


section \<open>Recovery\<close>

text \<open>A forced synchronization of the peers that were listed.\<close>

lemma forced_sync_matches:
  assumes "calm E" "sound m w"
    and read: "collect_results (row_to_peer (b64_decode E)) (order_rows (collation E) (w_peers w)) = Inr peers"
    and run: "sync_bird_configs_for E m peers True w = (Inr (), w')"
  shows "bird_matches E m w' \<and> sound m w' \<and> db_view w' = db_view w \<and> nft_view w' = nft_view w
    \<and> w_bird_log w' = w_bird_log w @ [fs_get (w_fs w') (current_path m)]"
proof -
  note C = calmD[OF assms(1)]
  have "kept (bird_conf_dir m) None (w_fs (await E w)) \<and> w_bird_log (await E w) = w_bird_log w"
    using assms(2) by (simp add: sound_def kept_def await_quiet[OF C(1)])
  from triple_Inr[OF triple_sync_bird_configs_for[OF quiet_respects[OF C(1)] C(2)] this run]
  obtain desired where d: "desired_configs E m peers [] = Inr desired"
    and post: "serves (bird_conf_dir m) (w_fs w') (map_of desired)" "bird_layout (bird_conf_dir m) (w_fs w')"
      "w_bird_log w' = w_bird_log w @ [fs_get (w_fs w') (current_path m)]" by auto
  have v: "db_view w' = db_view w" "nft_view w' = nft_view w"
    using keepsD[OF bird_keeps(1)[OF C(1), of db_view] run] keepsD[OF bird_keeps(1)[OF C(1), of nft_view] run]
    by simp_all
  have "distinct (map p_peer_id peers)" using collected_ids[OF read] distinct_order_rows[OF sound_ids[OF assms(2)]] .
  note files = desired_configs_files[OF d this]
    peer_files_conf_files[OF read set_order_rows this, of m] desired_configs_ifaces[OF d]
  have "w_peers w' = w_peers w" using v(1) by (simp add: db_view_eq)
  then have "bird_matches E m w'" using post(1) files unfolding bird_matches_def by auto
  moreover have "sound m w'" using aboutD[OF db_inv_about v(1)] assms(2) post(2) by (simp add: sound_def)
  ultimately show ?thesis using v post(3) by blast
qed

lemma listed_ports_match:
  assumes "calm E" "sync_nft_ports_for E peers w = (Inr (), w')"
    and read: "collect_results (row_to_peer (b64_decode E)) (order_rows (collation E) (w_peers w)) = Inr peers"
  shows "nft_matches w' \<and> db_view w' = db_view w \<and> bird_view w' = bird_view w"
proof -
  note C = calmD[OF assms(1)]
  have v: "db_view w' = db_view w" "bird_view w' = bird_view w"
    using keepsD[OF nft_keeps(1)[OF C(1), of db_view] assms(2)]
      keepsD[OF nft_keeps(1)[OF C(1), of bird_view] assms(2)] by simp_all
  have "last (w_nft_log w') = nft_port_batch (desired_ports peers)" "w_nft_log w' \<noteq> []"
    using sync_nft_ports_for_run[OF C(1,3,5) assms(2)] by simp_all
  then have "nft_matches w'"
    using collected_ports[OF read] v(1) by (auto simp: nft_matches_def nft_eval_batch open_ports_def db_view_eq)
  with v show ?thesis by blast
qed

text \<open>The loops over the kernel's links touch nothing else.\<close>

definition unmoved :: "world \<Rightarrow> world \<Rightarrow> bool" where
  "unmoved w w' = (db_view w' = db_view w \<and> bird_view w' = bird_view w \<and> nft_view w' = nft_view w)"

lemma unmoved_trans: "unmoved w1 w2 \<Longrightarrow> unmoved w2 w3 \<Longrightarrow> unmoved w1 w3"
  by (simp add: unmoved_def)

lemma unmoved_for_io:
  assumes "\<And>x w w'. f x w = (Inr (), w') \<Longrightarrow> unmoved w w'" "for_io f xs w = (Inr (), w')"
  shows "unmoved w w'"
  using assms(2)
proof (induction xs arbitrary: w)
  case Nil
  then show ?case by (simp add: unmoved_def)
next
  case (Cons x xs)
  then show ?case using assms(1) unmoved_trans by (fastforce simp: and_then_Inr)
qed

lemma unmoved_keeps:
  assumes "keeps db_view f" "keeps bird_view f" "keeps nft_view f" "f w = (r, w')"
  shows "unmoved w w'"
  using keepsD[OF assms(1,4)] keepsD[OF assms(2,4)] keepsD[OF assms(3,4)] by (simp add: unmoved_def)

lemma matches_unmoved:
  assumes "unmoved w w'"
  shows "sound m w \<Longrightarrow> sound m w'" "bird_matches E m w' = bird_matches E m w" "nft_matches w' = nft_matches w"
  using assms sound_about[of m w w'] bird_matches_cong[of w' w E m] nft_matches_cong[of w' w]
  by (simp_all add: unmoved_def)

lemma unmoved_steps:
  assumes "quiet E"
  shows "apply_wireguard E m p w = (r, w') \<Longrightarrow> unmoved w w'"
    "delete_interface E iface w = (r, w') \<Longrightarrow> unmoved w w'"
    "list_managed_interfaces E w = (ri, w') \<Longrightarrow> unmoved w w'"
    "delete_unlisted E names iface w = (r, w') \<Longrightarrow> unmoved w w'"
    "list_peers E w = (Inr ps, w') \<Longrightarrow> unmoved w w'"
    "get_peer_by_id E pid w = (Inr found, w') \<Longrightarrow> unmoved w w'"
proof -
  show "apply_wireguard E m p w = (r, w') \<Longrightarrow> unmoved w w'"
    by (rule unmoved_keeps[OF keeps_apply_wireguard[OF assms beside_kernel_views(1)] keeps_apply_wireguard[OF assms beside_kernel_views(2)] keeps_apply_wireguard[OF assms beside_kernel_views(3)]])
  show del: "delete_interface E iface w = (r, w') \<Longrightarrow> unmoved w w'" for iface w w' r
    by (rule unmoved_keeps[OF netlink_keeps(6)[OF assms beside_kernel_views(1)] netlink_keeps(6)[OF assms beside_kernel_views(2)] netlink_keeps(6)[OF assms beside_kernel_views(3)]])
  show "list_managed_interfaces E w = (ri, w') \<Longrightarrow> unmoved w w'"
    by (rule unmoved_keeps[OF netlink_keeps(2)[OF assms beside_kernel_views(1)] netlink_keeps(2)[OF assms beside_kernel_views(2)] netlink_keeps(2)[OF assms beside_kernel_views(3)]])
  show "delete_unlisted E names iface w = (r, w') \<Longrightarrow> unmoved w w'"
    using del by (auto simp: delete_unlisted_def unmoved_def split: if_splits)
  show "list_peers E w = (Inr ps, w') \<Longrightarrow> unmoved w w'"
    using list_peers_ok[OF assms] keepsD[OF store_keeps(11)[OF assms, of bird_view]]
      keepsD[OF store_keeps(11)[OF assms, of nft_view]] by (simp add: unmoved_def)
  show "get_peer_by_id E pid w = (Inr found, w') \<Longrightarrow> unmoved w w'"
    using get_peer_by_id_ok[OF assms, of pid w found w'] get_views(2)[OF assms] by (simp add: unmoved_def)
qed

lemma unmoved_delete_changed:
  assumes "quiet E" "delete_changed E c w = (Inr (), w')"
  shows "unmoved w w'"
proof (cases "ch_operation c = ''DELETE''")
  case True
  then obtain found w1 where "get_peer_by_id E (p_peer_id (ch_peer c)) w = (Inr found, w1)"
    and "w' = w1 \<or> delete_interface E (p_iface_name (ch_peer c)) w1 = (Inr (), w')"
    using assms(2) by (auto simp: delete_changed_def and_then_Inr split: if_splits)
  then show ?thesis using unmoved_steps(2,6)[OF assms(1)] unmoved_trans by blast
next
  case False
  then show ?thesis using assms(2) by (simp add: delete_changed_def unmoved_def)
qed

lemma finish_delete_Inr:
  "finish_delete E p w = (Inr (), w') \<longleftrightarrow> db_delete_peer E (p_peer_id p) w = (Inr True, w')"
  by (auto simp: finish_delete_def and_then_Inr)

lemma activate_Inr:
  "activate E p w = (Inr (), w') \<longleftrightarrow>
     (\<exists>w1. set_status E (p_peer_id p) Active
         (note_lock (Acquired (operation_lock (p_asn p) (p_peer_name p))) (await E w)) = (Inr True, w1)
       \<and> w' = note_lock (Released (operation_lock (p_asn p) (p_peer_name p))) w1)"
  by (auto simp: activate_def with_lock_run and_then_Inr)

lemma unmoved_note_lock [simp]: "unmoved w (note_lock ev w') = unmoved w w'" "unmoved (note_lock ev w) w' = unmoved w w'"
  by (simp_all add: unmoved_def)

text \<open>The two loops over the rows.\<close>

abbreviation ids_of :: "peer list \<Rightarrow> int set" where
  "ids_of ps \<equiv> (\<lambda>p. sint (p_peer_id p)) ` set ps"

lemma finish_deletes_ok:
  assumes "calm E" "sound m w" "bird_matches E m w" "nft_matches w"
    and "\<And>r. r \<in> set (w_peers w) \<Longrightarrow> c_peer_id r \<in> ids_of ps \<Longrightarrow> \<not> desired_row r"
    and "for_io (finish_delete E) ps w = (Inr (), w')"
  shows "sound m w' \<and> bird_matches E m w' \<and> nft_matches w' \<and> bird_view w' = bird_view w
    \<and> w_peers w' = filter (\<lambda>r. c_peer_id r \<notin> ids_of ps) (w_peers w)"
  using assms(2-)
proof (induction ps arbitrary: w)
  case (Cons p ps)
  obtain w1 where del: "db_delete_peer E (p_peer_id p) w = (Inr True, w1)"
    and rest: "for_io (finish_delete E) ps w1 = (Inr (), w')"
    using Cons.prems(5) by (auto simp: finish_delete_Inr and_then_Inr)
  have "\<not> desired_row r" if "r \<in> set (w_peers w)" "c_peer_id r = sint (p_peer_id p)" for r
    using Cons.prems(4)[OF that(1)] that(2) by simp
  note D = dropped_unwanted[OF assms(1) Cons.prems(1,2) this del]
  have rows: "w_peers w1 = filter (\<lambda>r. c_peer_id r \<noteq> sint (p_peer_id p)) (w_peers w)"
    and v: "bird_view w1 = bird_view w"
    using db_delete_rows[OF calmD(1)[OF assms(1)] del] status_views(2)[OF calmD(1)[OF assms(1)] del] by simp_all
  have "\<not> desired_row r" if "r \<in> set (w_peers w1)" "c_peer_id r \<in> ids_of ps" for r
    using Cons.prems(4)[of r] that rows by simp
  from Cons.IH[OF _ _ _ this rest] D Cons.prems(3) v
  have IH: "sound m w' \<and> bird_matches E m w' \<and> nft_matches w' \<and> bird_view w' = bird_view w
    \<and> w_peers w' = filter (\<lambda>r. c_peer_id r \<notin> ids_of ps) (w_peers w1)" by simp
  then show ?case by (auto simp: rows intro!: filter_cong)
qed simp

definition activated :: "int set \<Rightarrow> (int \<Rightarrow> int) \<Rightarrow> peer_row list \<Rightarrow> peer_row list" where
  "activated ids ts rows =
     map (\<lambda>r. if c_peer_id r \<in> ids then r\<lparr>c_status := ''active'', r_updated_at := ts (c_peer_id r)\<rparr> else r) rows"

lemma activated_mark:
  "activated ids ts (mark pid ''active'' t rows)
     = activated (insert pid ids) (\<lambda>i. if i \<in> ids then ts i else t) rows"
  by (simp add: activated_def mark_def)

lemma activates_ok:
  assumes "calm E" "sound m w" "bird_matches E m w" "nft_matches w"
    and "\<And>r. r \<in> set (w_peers w) \<Longrightarrow> c_peer_id r \<in> ids_of ps \<Longrightarrow> desired_row r"
    and "for_io (activate E) ps w = (Inr (), w')"
  shows "sound m w' \<and> bird_matches E m w' \<and> nft_matches w' \<and> bird_view w' = bird_view w
    \<and> (\<exists>ts. w_peers w' = activated (ids_of ps) ts (w_peers w))"
  using assms(2-)
proof (induction ps arbitrary: w)
  case Nil
  then show ?case by (simp add: activated_def)
next
  case (Cons p ps)
  note C = calmD[OF assms(1)]
  let ?lock = "operation_lock (p_asn p) (p_peer_name p)" and ?w0 = "\<lambda>l. note_lock (Acquired l) (await E w)"
  obtain v where run: "set_status E (p_peer_id p) Active (?w0 ?lock) = (Inr True, v)"
    and rest: "for_io (activate E) ps (note_lock (Released ?lock) v) = (Inr (), w')"
    using Cons.prems(5) by (auto simp: activate_Inr and_then_Inr)
  let ?w1 = "note_lock (Released ?lock) v"
  have u: "unmoved w (?w0 ?lock)" by (simp add: unmoved_def C(1))
  then have await_rows: "w_peers (?w0 ?lock) = w_peers w" by (simp add: unmoved_def db_view_eq)
  have M: "sound m (?w0 ?lock)" "bird_matches E m (?w0 ?lock)" "nft_matches (?w0 ?lock)"
    using matches_unmoved[OF u] Cons.prems(1-3) by blast+
  have "desired_row r" if "r \<in> set (w_peers (?w0 ?lock))" "c_peer_id r = sint (p_peer_id p)" for r
    using Cons.prems(4)[of r] that await_rows by simp
  note S' = settled_active[OF assms(1) M(1,2) this run]
  have "unmoved v ?w1" by (simp add: unmoved_def)
  with S' M(3) have S: "sound m ?w1" "bird_matches E m ?w1" "nft_matches ?w1"
    using matches_unmoved[of v ?w1] by blast+
  obtain t where rows: "w_peers ?w1 = mark (sint (p_peer_id p)) ''active'' t (w_peers w)"
    using set_status_rows[OF C(1) run] await_rows by auto
  have v: "bird_view ?w1 = bird_view w" using status_views(1)[OF C(1) run] u by (simp add: unmoved_def)
  have "desired_row r" if "r \<in> set (w_peers ?w1)" "c_peer_id r \<in> ids_of ps" for r
    using Cons.prems(4) that unfolding rows mark_def by (auto simp: desired_row_def split: if_splits)
  from Cons.IH[OF S this rest] v obtain ts where
    IH: "sound m w'" "bird_matches E m w'" "nft_matches w'" "bird_view w' = bird_view w"
      "w_peers w' = activated (ids_of ps) ts (w_peers ?w1)" by auto
  then show ?case using activated_mark[of "ids_of ps" ts] unfolding rows by auto
qed

lemma str_to_status_deleting: "str_to_status s = Deleting \<longleftrightarrow> s = ''deleting''"
  unfolding str_to_status_def by (simp split: if_splits)

lemma matched_sets:
  assumes "list_all2 R xs ys"
  shows "(\<forall>x\<in>set xs. \<exists>y\<in>set ys. R x y) \<and> (\<forall>y\<in>set ys. \<exists>x\<in>set xs. R x y)"
  using assms by induction auto

text \<open>The rows behind the peers with a status.\<close>

lemma row_in_ids:
  assumes "sound m w" "\<forall>r\<in>set (w_peers w). c_peer_id r < 2 ^ 31"
    and read: "collect_results (row_to_peer decode) (order_rows le (w_peers w)) = Inr peers"
    and r: "r \<in> set (w_peers w)"
  shows "c_peer_id r \<in> ids_of (filter (\<lambda>p. P (p_status p)) peers) \<longleftrightarrow> P (str_to_status (c_status r))"
proof -
  have l2: "list_all2 (\<lambda>r p. row_to_peer decode r = Inr p) (order_rows le (w_peers w)) peers"
    using read unfolding collect_results_Inr .
  have behind: "\<exists>x\<in>set (w_peers w). row_to_peer decode x = Inr p" if "p \<in> set peers" for p
    using matched_sets[OF l2] that by auto
  have fwd: "\<exists>p\<in>set peers. row_to_peer decode r = Inr p" using matched_sets[OF l2] r by simp
  show ?thesis
  proof
    assume "c_peer_id r \<in> ids_of (filter (\<lambda>p. P (p_status p)) peers)"
    then obtain p where p: "p \<in> set peers" "P (p_status p)" "c_peer_id r = sint (p_peer_id p)" by auto
    then obtain x where x: "x \<in> set (w_peers w)" "row_to_peer decode x = Inr p" using behind by blast
    then have "c_peer_id x = c_peer_id r" using row_id[OF x(2)] assms(2) p(3) by simp
    then have "x = r" using same_id[OF sound_ids[OF assms(1)] r x(1)] by simp
    then show "P (str_to_status (c_status r))" using p(2) row_to_peer_fields(8)[OF x(2)] by simp
  next
    assume P: "P (str_to_status (c_status r))"
    obtain p where p: "p \<in> set peers" "row_to_peer decode r = Inr p" using fwd by blast
    then have "c_peer_id r = sint (p_peer_id p)" "P (p_status p)"
      using row_id[OF p(2)] assms(2) r P row_to_peer_fields(8)[OF p(2)] by simp_all
    with p(1) show "c_peer_id r \<in> ids_of (filter (\<lambda>p. P (p_status p)) peers)" by force
  qed
qed

definition recovered :: "(int \<Rightarrow> int) \<Rightarrow> peer_row list \<Rightarrow> peer_row list" where
  "recovered ts rows =
     map (\<lambda>r. if desired_row r then r\<lparr>c_status := ''active'', r_updated_at := ts (c_peer_id r)\<rparr> else r)
       (filter (\<lambda>r. c_status r \<noteq> ''deleting'') rows)"

text \<open>The part of \<open>recover\<close> before the statuses are written.\<close>

lemma and_then_unit:
  "and_then (m :: unit io) f w = (Inr y, w'') \<longleftrightarrow> (\<exists>w'. m w = (Inr (), w') \<and> f () w' = (Inr y, w''))"
  by (auto simp: and_then_Inr)

lemma recover_steps:
  assumes "calm E" "sound m w" "recover E m w = (Inr (), w')"
  obtains peers w1 w2 where
    "collect_results (row_to_peer (b64_decode E)) (order_rows (collation E) (w_peers w)) = Inr peers"
    and "sound m w1" "bird_matches E m w1" "nft_matches w1" "w_peers w1 = w_peers w"
    and "w_bird_log w1 = w_bird_log w @ [fs_get (w_fs w1) (current_path m)]"
    and "for_io (finish_delete E) (filter (\<lambda>p. p_status p = Deleting) peers) w1 = (Inr (), w2)"
    and "for_io (activate E) (filter (\<lambda>p. desired_status (p_status p)) peers) w2 = (Inr (), w')"
proof -
  note C = calmD[OF assms(1)] and U = unmoved_steps[OF calmD(1)[OF assms(1)]]
  let ?off = "\<lambda>p. with_lock E (operation_lock (p_asn p) (p_peer_name p)) (delete_interface E (p_iface_name p))"
  from assms(3) obtain peers a b c d e ns f g cs h k l where
    list: "list_peers E w = (Inr peers, a)"
    and wg: "for_io (apply_wireguard E m) (filter (\<lambda>p. desired_status (p_status p)) peers) a = (Inr (), b)"
    and nft: "sync_nft_ports_for E peers b = (Inr (), c)"
    and bird: "sync_bird_configs_for E m peers True c = (Inr (), d)"
    and off: "for_io ?off (filter (\<lambda>p. p_status p = Deleting \<or> p_status p = Disabled) peers) d = (Inr (), e)"
    and names: "list_managed_interfaces E e = (Inr ns, f)"
    and unlisted: "for_io (delete_unlisted E (map p_iface_name (filter (\<lambda>p. desired_status (p_status p)) peers))) ns f = (Inr (), g)"
    and listed: "list_peer_changes E g = (Inr cs, h)"
    and changed: "for_io (delete_changed E) cs h = (Inr (), k)"
    and rest: "for_io (finish_delete E) (filter (\<lambda>p. p_status p = Deleting) peers) k = (Inr (), l)"
      "for_io (activate E) (filter (\<lambda>p. desired_status (p_status p)) peers) l = (Inr (), w')"
    unfolding recover_def Let_def and_then_Inr[of "list_peers E"] and_then_Inr[of "list_managed_interfaces E"]
      and_then_Inr[of "list_peer_changes E"] and_then_unit by blast
  have read: "collect_results (row_to_peer (b64_decode E)) (order_rows (collation E) (w_peers w)) = Inr peers"
    using list_peers_ok[OF C(1) list] by blast
  have "unmoved a b" by (rule unmoved_for_io[OF _ wg]) (rule U(1))
  with U(5)[OF list] have before: "unmoved w b" by (rule unmoved_trans)
  note N = listed_ports_match[OF assms(1) nft]
  have same: "w_peers b = w_peers w" "w_peers c = w_peers w" using before N read
    by (simp_all add: unmoved_def db_view_eq)
  have ports: "nft_matches c" "db_view c = db_view b" "bird_view c = bird_view b" using N read same by simp_all
  have "sound m c" using matches_unmoved(1)[OF before assms(2)] sound_about ports by blast
  note F = forced_sync_matches[OF assms(1) this _ bird]
  have D: "bird_matches E m d" "sound m d" "nft_matches d" "w_peers d = w_peers w"
    "w_bird_log d = w_bird_log c @ [fs_get (w_fs d) (current_path m)]"
    using F read same ports(1) nft_matches_cong[of d c] by (simp_all add: db_view_eq)
  have "unmoved e' e''" if "?off p e' = (Inr (), e'')" for p e' e''
    using that U(2)[of "p_iface_name p"] by (fastforce simp: with_lock_run unmoved_def C(1))
  from unmoved_for_io[OF this off] U(3)[OF names] have "unmoved d f" by (rule unmoved_trans)
  moreover have "unmoved f g" by (rule unmoved_for_io[OF _ unlisted]) (rule U(4))
  moreover have "unmoved g h" using list_peer_changes_ok[OF assms(1) listed] by (simp add: unmoved_def)
  moreover have "unmoved h k" by (rule unmoved_for_io[OF unmoved_delete_changed[OF C(1)] changed])
  ultimately have dk: "unmoved d k" using unmoved_trans by blast
  have "bird_view c = bird_view w" using before ports(3) by (simp add: unmoved_def)
  then have "w_bird_log k = w_bird_log w @ [fs_get (w_fs k) (current_path m)]" "w_peers k = w_peers w"
    using D(4,5) dk by (simp_all add: unmoved_def bird_view_def db_view_eq)
  with that[OF read _ _ _ _ _ rest] matches_unmoved[OF dk] D(1-3) show thesis by simp
qed

text \<open>
  C7. A successful recovery: the peers that were being deleted are gone, every other wanted peer is active,
  disabled ones stay as they are, and no row changes otherwise; BIRD's configuration and the open ports are
  those of the rows, and BIRD was told once to read this configuration, whatever it had before.
\<close>

theorem recover_outcome:
  assumes "calm E" "sound m w" "\<forall>r\<in>set (w_peers w). c_peer_id r < 2 ^ 31" "recover E m w = (Inr (), w')"
  shows "(\<exists>ts. w_peers w' = recovered ts (w_peers w))
    \<and> bird_matches E m w' \<and> nft_matches w' \<and> sound m w'
    \<and> w_bird_log w' = w_bird_log w @ [fs_get (w_fs w') (current_path m)]"
proof -
  from recover_steps[OF assms(1,2,4)] obtain peers w1 w2 where
    read: "collect_results (row_to_peer (b64_decode E)) (order_rows (collation E) (w_peers w)) = Inr peers"
    and w1: "sound m w1" "bird_matches E m w1" "nft_matches w1" "w_peers w1 = w_peers w"
      "w_bird_log w1 = w_bird_log w @ [fs_get (w_fs w1) (current_path m)]"
    and dels: "for_io (finish_delete E) (filter (\<lambda>p. p_status p = Deleting) peers) w1 = (Inr (), w2)"
    and acts: "for_io (activate E) (filter (\<lambda>p. desired_status (p_status p)) peers) w2 = (Inr (), w')" .
  note ids = row_in_ids[OF assms(2,3) read]
  have gone: "c_peer_id r \<in> ids_of (filter (\<lambda>p. p_status p = Deleting) peers) \<longleftrightarrow> c_status r = ''deleting''"
    and live: "c_peer_id r \<in> ids_of (filter (\<lambda>p. desired_status (p_status p)) peers) \<longleftrightarrow> desired_row r"
    if "r \<in> set (w_peers w)" for r
    using ids[OF that, of "\<lambda>s. s = Deleting"] ids[OF that, of desired_status]
    by (simp_all add: str_to_status_deleting str_to_status_desired desired_row_def)
  have "\<not> desired_row r" if "r \<in> set (w_peers w1)" "c_peer_id r \<in> ids_of (filter (\<lambda>p. p_status p = Deleting) peers)" for r
    using gone[of r] that w1(4) by (simp add: desired_row_def)
  note D = finish_deletes_ok[OF assms(1) w1(1-3) this dels]
  then have rows2: "w_peers w2 = filter (\<lambda>r. c_status r \<noteq> ''deleting'') (w_peers w)"
    using gone w1(4) by (auto intro!: filter_cong)
  have "desired_row r" if "r \<in> set (w_peers w2)" "c_peer_id r \<in> ids_of (filter (\<lambda>p. desired_status (p_status p)) peers)" for r
    using live[of r] that rows2 by simp
  note A = activates_ok[OF assms(1) _ _ _ this acts]
  then obtain ts where final: "sound m w'" "bird_matches E m w'" "nft_matches w'" "bird_view w' = bird_view w2"
    "w_peers w' = activated (ids_of (filter (\<lambda>p. desired_status (p_status p)) peers)) ts (w_peers w2)"
    using D by blast
  have "w_peers w' = recovered ts (w_peers w)"
    unfolding final(5) rows2 activated_def recovered_def using live by (intro map_cong) auto
  moreover have "w_bird_log w' = w_bird_log w @ [fs_get (w_fs w') (current_path m)]"
    using w1(5) D final(4) by (simp add: bird_view_def)
  ultimately show ?thesis using final(1-3) by blast
qed

lemma sample_recovery: "\<exists>w'. recover sample_env sample_manager pending_world = (Inr (), w')"
proof -
  let ?p = "sample_peer\<lparr>p_status := Deleting\<rparr>"
  have pid: "p_peer_id ?p = 5" "c_peer_id leaving = 5" by (simp_all add: sample_peer_def)
  have read: "row_to_peer (\<lambda>_. Inr []) leaving = Inr ?p" using sample_marked by simp
  have start: "w_peers pending_world = [leaving]" "w_fs pending_world = []" "k_links (w_kernel pending_world) = []"
    by (simp_all add: pending_world_def empty_world_def)
  obtain w1 where w1: "list_peers sample_env pending_world = (Inr [?p], w1)" using sample_list_one[OF start(1) read] by blast
  have u1: "db_view w1 = db_view pending_world" "kernel_view w1 = kernel_view pending_world" "w_fs w1 = []"
    using list_peers_ok[OF sample_env_quiet w1] keepsD[OF store_keeps(11)[OF sample_env_quiet, of kernel_view] w1]
      keepsD[OF store_keeps(11)[OF sample_env_quiet, of bird_view] w1] start(2) by (simp_all add: bird_view_def)
  obtain w2 where w2: "sync_nft_ports_for sample_env [?p] w1 = (Inr (), w2)"
    by (simp add: sync_nft_ports_for_def with_lock_def and_then_def run_nft_batch_def run_nft_batch_inner_def Let_def)
  have u2: "db_view w2 = db_view w1" "kernel_view w2 = kernel_view w1" "w_fs w2 = []"
    using keepsD[OF nft_keeps(1)[OF sample_env_quiet, of db_view] w2] keepsD[OF nft_keeps(1)[OF sample_env_quiet, of kernel_view] w2]
      keepsD[OF nft_keeps(1)[OF sample_env_quiet, of bird_view] w2] u1(3) by (simp_all add: bird_view_def)
  obtain w3 where w3: "sync_bird_configs_for sample_env sample_manager [?p] True w2 = (Inr (), w3)"
    "db_view w3 = db_view w2" "kernel_view w3 = kernel_view w2" using sample_sync_nothing[OF u2(3)] by blast
  have at3: "w_peers w3 = [leaving]" "w_events w3 = w_events pending_world" "k_links (w_kernel w3) = []"
    using u1 u2 w3 start by (simp_all add: db_view_eq kernel_view_def)
  let ?lock = "operation_lock (p_asn ?p) (p_peer_name ?p)"
  obtain w4 where w4: "with_lock sample_env ?lock (delete_interface sample_env (p_iface_name ?p)) w3 = (Inr (), w4)"
    "w_peers w4 = [leaving]" "w_events w4 = w_events pending_world" "k_links (w_kernel w4) = []"
    using at3 by (simp add: with_lock_def and_then_def delete_interface_def new_connection_def find_link_def
        dump_links_def ext_call_def Let_def scan_for_link_ok(1)[of _ "[]", simplified])
  obtain w5 where w5: "list_managed_interfaces sample_env w4 = (Inr [], w5)"
    "w_peers w5 = [leaving]" "w_events w5 = w_events pending_world"
    using w4(2-) by (simp add: and_then_def list_managed_interfaces_def new_connection_def
        dump_links_def ext_call_def Let_def)
  obtain w6 where w6: "list_peer_changes sample_env w5
      = (Inr [\<lparr>ch_event_id = 1, ch_operation = ''UPDATE'', ch_peer = ?p\<rparr>], w6)" "w_peers w6 = [leaving]"
    using w5(2,3) read by (simp add: list_peer_changes_def acquire_def execute_def and_then_def ext_call_def sql_select_def
        pending_world_def)
  obtain w7 where w7: "db_delete_peer sample_env 5 w6 = (Inr True, w7)"
    using w6(2) pid(2) by (simp add: db_delete_peer_def acquire_def execute_def and_then_def ext_call_def
        sql_delete_peer_def Let_def)
  show ?thesis using w1 w2 w3(1) w4(1) w5(1) w6(1) w7 pid(1)
    by (simp add: recover_def and_then_def Let_def delete_changed_def finish_delete_def found_or_def
        desired_status_def)
qed

theorem recover_outcome_witness:
  "\<exists>w'. recover sample_env sample_manager pending_world = (Inr (), w')
     \<and> bird_matches sample_env sample_manager w' \<and> nft_matches w' \<and> w_peers w' = []"
proof -
  obtain w' where run: "recover sample_env sample_manager pending_world = (Inr (), w')" using sample_recovery by blast
  have "\<forall>r\<in>set (w_peers pending_world). c_peer_id r < 2 ^ 31" by (simp add: pending_world_def sample_peer_def)
  note done_it = recover_outcome[OF sample_calm pending_sound this run]
  have "recovered ts (w_peers pending_world) = []" for ts by (simp add: recovered_def pending_world_def)
  with done_it run show ?thesis by auto
qed

end
