(* ===== verification/Isolation.thy ===== *)
theory Isolation
  imports Outcomes
begin

text \<open>
  An operation on one peer leaves the rows of every other peer alone, whatever fails on the way:
  \<open>owned\<close> says that an id belongs to the peer of the request, and is kept by everything that the
  operations and their compensations do once they know the id.
\<close>

section \<open>The rows of the others\<close>

definition others :: "u32 \<Rightarrow> rstr \<Rightarrow> peer_row list \<Rightarrow> peer_row list" where
  "others asn name rows = filter (\<lambda>r. identity_of r \<noteq> (uint asn, name)) rows"

definition owned :: "u32 \<Rightarrow> rstr \<Rightarrow> peer_row list \<Rightarrow> u32 \<Rightarrow> world \<Rightarrow> bool" where
  "owned asn name rest pid w =
     (others asn name (w_peers w) = rest
      \<and> (\<forall>r\<in>set (w_peers w). c_peer_id r = sint pid \<longrightarrow> identity_of r = (uint asn, name)))"

lemma owned_about: "about db_view (owned asn name rest pid)"
  by (simp add: about_def owned_def db_view_def)

lemma owned_lock_free [frame_rules]: "lock_free (owned asn name rest pid)"
  by (rule about_lock_free[OF owned_about]) simp

lemma about_stable: "quiet E \<Longrightarrow> about db_view I \<Longrightarrow> stable E I"
  using aboutD db_view_await unfolding stable_def by blast

lemma owned_stable: "quiet E \<Longrightarrow> stable E (owned asn name rest pid)"
  by (rule about_stable[OF _ owned_about])

lemma others_map:
  assumes "\<And>r. r \<in> set rows \<Longrightarrow> f r = r \<or> identity_of r = (uint asn, name) \<and> identity_of (f r) = (uint asn, name)"
  shows "others asn name (map f rows) = others asn name rows"
  using assms by (induction rows) (force simp: others_def)+

lemma owned_update:
  assumes "owned asn name rest pid w" "\<And>r. c_peer_id (f r) = c_peer_id r \<and> identity_of (f r) = identity_of r"
  shows "owned asn name rest pid (snd (sql_update_peer f (sint pid) w))"
proof -
  let ?f = "\<lambda>r. if c_peer_id r = sint pid then f r else r"
  have "others asn name (map ?f (w_peers w)) = others asn name (w_peers w)"
    by (rule others_map) (use assms in \<open>auto simp: owned_def\<close>)
  then show ?thesis
    using assms by (auto simp: sql_update_peer_def Let_def enqueue_fold owned_def)
qed

lemma owned_delete:
  assumes "owned asn name rest pid w"
  shows "owned asn name rest pid (snd (sql_delete_peer (sint pid) w))"
proof -
  have "others asn name (filter (\<lambda>r. c_peer_id r \<noteq> sint pid) (w_peers w)) = others asn name (w_peers w)"
    unfolding others_def filter_filter by (rule filter_cong) (use assms in \<open>auto simp: owned_def\<close>)
  then show ?thesis using assms by (auto simp: sql_delete_peer_def Let_def enqueue_fold_id owned_def)
qed

section \<open>What keeps them\<close>

lemma keeps_rows_read:
  assumes "stable E I"
  shows "preserves I (peer_exists E asn name)" "preserves I (get_peer E asn name)" "preserves I (list_peers E)"
  unfolding peer_exists_def get_peer_def list_peers_def
  by (intro frame_rules assms preserves_execute; simp add: sql_select_def)+

lemma owned_writes:
  assumes "quiet E"
  shows "preserves (owned asn name rest pid) (set_status E pid st)"
    "preserves (owned asn name rest pid) (db_delete_peer E pid)"
    "p_peer_id p = pid \<Longrightarrow> preserves (owned asn name rest pid) (update_peer_desired E p)"
proof -
  note st = owned_stable[OF assms]
  show "preserves (owned asn name rest pid) (set_status E pid st)"
    unfolding set_status_def by (intro frame_rules preserves_execute st owned_update) (simp_all add: identity_of_def)
  show "preserves (owned asn name rest pid) (db_delete_peer E pid)"
    unfolding db_delete_peer_def by (intro frame_rules preserves_execute st owned_delete)
  show "preserves (owned asn name rest pid) (update_peer_desired E p)" if "p_peer_id p = pid"
    unfolding update_peer_desired_def that
    by (intro frame_rules preserves_execute st owned_update) (simp_all add: identity_of_def)
qed

text \<open>Everything outside the database.\<close>

lemma external_keeps:
  assumes "quiet E" "about db_view I"
  shows "preserves I (listen_port_in_use E port exc)" "preserves I (apply_peer E m p)"
    "preserves I (remove_external_state E m p)" "preserves I (sync_nft_ports E)"
proof -
  note st = about_stable[OF assms]
  note list = keeps_rows_read(3)[OF st]
  note net = netlink_preserves[OF st assms(2) beside_kernel_views(1)]
    nft_preserves(2)[OF st assms(2) beside_nft_views(1) lock_free_views(1) list]
    bird_preserves(2)[OF st assms(2) beside_fs_views(1) lock_free_views(1) list]
    preserves_resolve_endpoint[OF st]
  show "preserves I (listen_port_in_use E port exc)" "preserves I (sync_nft_ports E)" by (rule net)+
  show "preserves I (apply_peer E m p)" "preserves I (remove_external_state E m p)"
    unfolding apply_peer_def apply_wireguard_def remove_external_state_def by (intro frame_rules net)+
qed

lemma compensations_keep:
  assumes "quiet E" "p_peer_id p = pid"
  shows "preserves (owned asn name rest pid) (compensate_failed_create E m p)"
    "preserves (owned asn name rest pid) (compensate_failed_update E m p)"
    "preserves (owned asn name rest pid) (restore_deleted E m p)"
  unfolding compensate_failed_create_def compensate_failed_update_def restore_deleted_def assms(2)
  by (intro frame_rules external_keeps[OF assms(1) owned_about] owned_writes[OF assms(1)] assms(2))+

section \<open>Reservation\<close>

text \<open>
  A reservation adds at most one row, of the request's peer: a second attempt for the same id conflicts
  with the row that a transaction may have left although its commit reported an error.
\<close>

definition reserved_once :: "u32 \<Rightarrow> rstr \<Rightarrow> u32 \<Rightarrow> peer_row list \<Rightarrow> world \<Rightarrow> bool" where
  "reserved_once asn name pid rows w =
     (w_peers w = rows \<or> (\<exists>row. w_peers w = rows @ [row] \<and> c_peer_id row = sint pid
        \<and> identity_of row = (uint asn, name)))"

lemma reserved_once_about: "about db_view (reserved_once asn name pid rows)"
  by (simp add: about_def reserved_once_def db_view_def)

lemma reserved_once_insert:
  assumes "varchar 32 (p_peer_name p) = Some (p_peer_name p)"
    and "reserved_once (p_asn p) (p_peer_name p) (p_peer_id p) rows w"
  shows "reserved_once (p_asn p) (p_peer_name p) (p_peer_id p) rows (snd (sql_insert_peer (reserved_row p now) w))"
  using assms by (auto simp: reserved_once_def sql_insert_peer_def Let_def conflicts_def enqueue_peer_change_def identity_of_def)

lemma preserves_triple: "preserves I m \<longleftrightarrow> triple I m (\<lambda>_. I) (\<lambda>_. I)"
proof
  show "preserves I m" if "triple I m (\<lambda>_. I) (\<lambda>_. I)"
  proof (rule preservesI)
    fix w assume w: "I w"
    obtain r w' where run: "m w = (r, w')" by fastforce
    show "I (snd (m w))" using run triple_Inr[OF that w] triple_Inl[OF that w] by (cases r) simp_all
  qed
qed (rule tripleI; blast dest: preservesD)

lemma preserves_tx:
  assumes about: "\<And>w w'. w_peers w = w_peers w' \<Longrightarrow> I w = I w'" and q: "\<And>w. I w \<Longrightarrow> I (snd (q w))"
  shows "preserves I (and_then (tx_execute E q) (\<lambda>(n, pending).
           and_then (if test then tx_rollback E else tx_commit E pending) (\<lambda>_. ret (g n))))"
  unfolding preserves_triple
proof (rule triple_and_then)
  have tick: "I (w\<lparr>w_tick := n\<rparr>) = I w" "I (w\<lparr>w_tick := n, w_event_seq := k\<rparr>) = I w" for w n k by (rule about; simp)+
  show "triple I (tx_execute E q) (\<lambda>(n, pending) w. I w \<and> I pending) (\<lambda>_. I)"
  proof (rule triple_pre)
    fix w assume w: "I w"
    let ?w = "w\<lparr>w_tick := Suc (w_tick w)\<rparr>"
    have "I (snd (q ?w))" using q w tick by simp
    then show "triple (\<lambda>v. v = w) (tx_execute E q) (\<lambda>(n, pending) w. I w \<and> I pending) (\<lambda>_. I)"
      using w unfolding triple_def tx_execute_def tx_call_run Let_def
      by (cases "db_fault E (w_tick w)"; cases "q ?w"; cases "fst (q ?w)") (auto simp: map_err_def tick)
  qed
  fix x :: "'a \<times> world"
  obtain n pending where x: "x = (n, pending)" by fastforce
  show "triple (case x of (n, pending) \<Rightarrow> \<lambda>w. I w \<and> I pending)
      (case x of (n, pending) \<Rightarrow> and_then (if test then tx_rollback E else tx_commit E pending) (\<lambda>_. ret (g n)))
      (\<lambda>_. I) (\<lambda>_. I)"
    unfolding x prod.case
  proof (rule triple_and_then[where R = "\<lambda>_. I"])
    have commit: "I (w\<lparr>w_tick := t, w_peers := w_peers pending, w_events := es, w_event_seq := k, w_notifies := ns\<rparr>)"
      if "I pending" for w t es k ns
    proof -
      have "I (w\<lparr>w_tick := t, w_peers := w_peers pending, w_events := es, w_event_seq := k, w_notifies := ns\<rparr>) = I pending"
        by (rule about) simp
      with that show ?thesis by simp
    qed
    show "triple (\<lambda>w. I w \<and> I pending) (if test then tx_rollback E else tx_commit E pending) (\<lambda>_. I) (\<lambda>_. I)"
      unfolding triple_def
    proof (intro allI impI)
      fix w assume "I w \<and> I pending"
      then show "case (if test then tx_rollback E else tx_commit E pending) w of (Inl e, w') \<Rightarrow> I w' | (Inr x, w') \<Rightarrow> I w'"
        by (cases test; cases "db_fault E (w_tick w)")
          (simp_all add: tx_rollback_def tx_commit_def tx_call_run Let_def tick commit map_err_def)
    qed
    show "triple I (ret (g n)) (\<lambda>_. I) (\<lambda>_. I)" by (rule triple_ret)
  qed
qed

lemma reserve_keeps_once:
  assumes quiet: "quiet E" and name: "varchar 32 name = Some name"
  shows "preserves (reserved_once asn name pid rows) (reserve_loop E m pid asn name key ep pair mtu incs)"
proof -
  let ?I = "reserved_once asn name pid rows"
  note st = about_stable[OF quiet reserved_once_about]
  have insert: "preserves ?I (db_reserve_peer E (build_peer pid asn name key ep pair port mtu) test)" for port test
    unfolding db_reserve_peer_def
  proof (rule preserves_and_then[OF preserves_acquire[OF st]], rule preserves_and_then[OF preserves_tx_begin[OF st]],
      rule preserves_and_then[OF preserves_read_clock], rule preserves_tx)
    show "?I w = ?I w'" if "w_peers w = w_peers w'" for w w' using that by (simp add: reserved_once_def)
    show "?I (snd (sql_insert_peer (reserved_row (build_peer pid asn name key ep pair port mtu) now) w))"
      if "?I w" for w now
      using reserved_once_insert[of "build_peer pid asn name key ep pair port mtu"] that name by (simp add: build_peer_def)
  qed
  show ?thesis
  proof (induction incs)
    case (Cons i incs)
    show ?case
      unfolding reserve_loop.simps Let_def
      by (intro frame_rules insert Cons.IH keeps_rows_read[OF st] external_keeps[OF quiet reserved_once_about])
  qed (simp add: frame_rules)
qed

section \<open>The operations\<close>

text \<open>The state in which an operation finds the database, and what it has to leave.\<close>

definition found_rows :: "peer_row list \<Rightarrow> world \<Rightarrow> bool" where
  "found_rows rows w = (db_inv w \<and> w_peers w = rows)"

lemma found_rows_about: "about db_view (found_rows rows)"
  unfolding about_def
proof (intro allI impI)
  fix w w' :: world assume same: "db_view w = db_view w'"
  show "found_rows rows w = found_rows rows w'"
    using aboutD[OF db_inv_about same] same by (simp add: found_rows_def db_view_eq)
qed

definition spared :: "u32 \<Rightarrow> rstr \<Rightarrow> peer_row list \<Rightarrow> world \<Rightarrow> bool" where
  "spared asn name rows w = (others asn name (w_peers w) = others asn name rows)"

lemma owned_spared: "owned asn name (others asn name rows) pid w \<Longrightarrow> spared asn name rows w"
  by (simp add: owned_def spared_def)

lemma triple_owned:
  "preserves (owned asn name (others asn name rows) pid) m \<Longrightarrow>
   triple (owned asn name (others asn name rows) pid) m (\<lambda>_. spared asn name rows) (\<lambda>_. spared asn name rows)"
  unfolding preserves_triple by (erule triple_weaken) (simp_all add: owned_spared)

lemma triple_lock:
  assumes "stable E P" "lock_free P" "\<And>x. lock_free (Q x)" "\<And>e. lock_free (F e)" "triple P m Q F"
  shows "triple P (with_lock E l m) Q F"
proof (rule tripleI)
  have P: "P (note_lock (Acquired l) (await E w))" if "P w" for w
    using assms(1,2) that by (simp add: stable_def lock_free_def)
  show "Q x w'" if "P w" "with_lock E l m w = (Inr x, w')" for w x w'
    using that(2) triple_Inr[OF assms(5) P[OF that(1)]] assms(3) by (auto simp: with_lock_run lock_free_def)
  show "F e w'" if "P w" "with_lock E l m w = (Inl e, w')" for w e w'
    using that(2) triple_Inl[OF assms(5) P[OF that(1)]] assms(4) by (auto simp: with_lock_run lock_free_def)
qed

text \<open>The id that a lookup or a reservation hands to the operation is the peer's own.\<close>

lemma triple_get_peer:
  assumes quiet: "quiet E" and small: "\<forall>r\<in>set rows. c_peer_id r < 2 ^ 31"
  shows "triple (found_rows rows) (get_peer E asn name)
    (\<lambda>found w. case found of None \<Rightarrow> spared asn name rows w
       | Some p \<Rightarrow> owned asn name (others asn name rows) (p_peer_id p) w) (\<lambda>_. spared asn name rows)"
proof (rule tripleI)
  fix w found w' assume w: "found_rows rows w" and run: "get_peer E asn name w = (Inr found, w')"
  note ok = get_peer_ok[OF quiet run]
  have rows: "w_peers w = rows" "w_peers w' = rows" and ids: "distinct (map c_peer_id rows)"
    using ok w db_invD(1)[of w] by (auto simp: found_rows_def db_view_eq peers_unique_def)
  show "case found of None \<Rightarrow> spared asn name rows w'
      | Some p \<Rightarrow> owned asn name (others asn name rows) (p_peer_id p) w'"
  proof (cases found)
    case (Some p)
    then obtain r where r: "r \<in> set rows" "identity_of r = (uint asn, name)" "row_to_peer (b64_decode E) r = Inr p"
      using ok rows(1) by (auto simp: find_Some_iff dest: nth_mem)
    then have "sint (p_peer_id p) = c_peer_id r" using small by (intro row_id) auto
    then have "identity_of x = (uint asn, name)" if "x \<in> set rows" "c_peer_id x = sint (p_peer_id p)" for x
      using that ids r by (auto simp: distinct_map dest: inj_onD)
    then show ?thesis using Some rows(2) by (simp add: owned_def)
  qed (simp add: spared_def rows(2))
next
  fix w e w' assume w: "found_rows rows w" and run: "get_peer E asn name w = (Inl e, w')"
  have "found_rows rows w'"
    by (rule preservesD[OF keeps_rows_read(2)[OF about_stable[OF quiet found_rows_about]] w run])
  then show "spared asn name rows w'" by (simp add: found_rows_def spared_def)
qed

lemma reserve_peer_spares:
  assumes quiet: "quiet E" and name: "varchar 32 name = Some name"
    and run: "reserve_peer E m asn name key ep ll mtu w = (r, w')"
  shows "spared asn name (w_peers w) w'"
proof -
  let ?rows = "w_peers w"
  let ?P = "\<lambda>w. w_peers w = ?rows"
  have "stable E ?P" by (rule about_stable[OF quiet]) (simp add: about_def db_view_def)
  then have alloc: "preserves ?P (allocate_peer_id E)"
    unfolding allocate_peer_id_def by (intro frame_rules preserves_execute) (simp_all add: sql_nextval_peer_id_def)
  obtain a w1 where a: "allocate_peer_id E w = (a, w1)" by fastforce
  have w1: "w_peers w1 = ?rows" using preservesD[OF alloc _ a] by simp
  show ?thesis
  proof (cases a)
    case (Inl e)
    then have "w' = w1" using run a by (simp add: reserve_peer_def and_then_def)
    then show ?thesis using w1 by (simp add: spared_def)
  next
    case (Inr pid)
    have "reserved_once asn name pid ?rows w1" using w1 by (simp add: reserved_once_def)
    moreover have "reserve_loop E m pid asn name key ep
        (case ll of None \<Rightarrow> (asn_link_local (local_asn m), asn_link_local asn) | Some pair \<Rightarrow> pair) mtu increments w1 = (r, w')"
      using run a Inr by (simp add: reserve_peer_def and_then_def Let_def)
    ultimately have "reserved_once asn name pid ?rows w'" by (rule preservesD[OF reserve_keeps_once[OF quiet name]])
    then show ?thesis by (auto simp: reserved_once_def spared_def others_def)
  qed
qed

lemma triple_reserve_peer:
  assumes quiet: "quiet E" and name: "varchar 32 name = Some name"
  shows "triple (found_rows rows) (reserve_peer E m asn name key ep ll mtu)
    (\<lambda>p w. if asn = local_asn m then spared asn name rows w
          else owned asn name (others asn name rows) (p_peer_id p) w) (\<lambda>_. spared asn name rows)"
proof (rule tripleI)
  fix w p w' assume w: "found_rows rows w" and run: "reserve_peer E m asn name key ep ll mtu w = (Inr p, w')"
  have rows: "w_peers w = rows" and inv: "db_inv w" using w by (simp_all add: found_rows_def)
  have spared: "spared asn name rows w'" using reserve_peer_spares[OF quiet name run] rows by simp
  show "if asn = local_asn m then spared asn name rows w' else owned asn name (others asn name rows) (p_peer_id p) w'"
  proof (cases "asn = local_asn m")
    case False
    from reserve_peer_ok[OF quiet False run] obtain pid port pair now n where
      p: "p = build_peer pid asn name key ep pair port mtu" and n: "varchar 32 name = Some n"
      and w': "w_peers w' = rows @ [(reserved_row p now)\<lparr>c_peer_name := n\<rparr>]" unfolding rows by metis
    have "n = name" using n name by simp
    have "db_inv w'"
      by (rule preservesD[OF preserves_reserve_peer[OF about_stable[OF quiet db_inv_about]] inv run])
    then have "distinct (map c_peer_id (w_peers w'))" using db_invD(1) by (simp add: peers_unique_def)
    then have "c_peer_id x \<noteq> sint (p_peer_id p)" if "x \<in> set rows" for x using that unfolding w' by (auto simp: image_iff)
    then show ?thesis using False spared \<open>n = name\<close> unfolding owned_def spared_def w'
      by (auto simp: p build_peer_def identity_of_def)
  qed (use spared in simp)
next
  fix w e w' assume "found_rows rows w" "reserve_peer E m asn name key ep ll mtu w = (Inl e, w')"
  then show "spared asn name rows w'" using reserve_peer_spares[OF quiet name] by (auto simp: found_rows_def)
qed

section \<open>The operations, whatever fails\<close>

lemma triple_case_sum [triple_rules]:
  "(\<And>e. s = Inl e \<Longrightarrow> triple P (f e) Q F) \<Longrightarrow> (\<And>x. s = Inr x \<Longrightarrow> triple P (g x) Q F) \<Longrightarrow>
   triple P (case s of Inl e \<Rightarrow> f e | Inr x \<Rightarrow> g x) Q F"
  by (cases s) simp_all

lemma spared_lock_free: "lock_free (spared asn name rows)" "lock_free (found_rows rows)"
  by (simp_all add: lock_free_def spared_def found_rows_def db_inv_def)

lemma triple_found:
  assumes "\<And>p. preserves (owned asn name (others asn name rows) (p_peer_id p)) (f p)"
  shows "triple (case found of None \<Rightarrow> spared asn name rows | Some p \<Rightarrow> owned asn name (others asn name rows) (p_peer_id p))
    (and_then (lift_res (ok_or e found)) f) (\<lambda>_. spared asn name rows) (\<lambda>_. spared asn name rows)"
proof (cases found)
  case None
  then show ?thesis by (simp add: ok_or_def triple_def and_then_def)
next
  case (Some p)
  then have "and_then (lift_res (ok_or e found)) f = f p" by (simp add: ok_or_def and_then_def fun_eq_iff)
  then show ?thesis using Some triple_owned[OF assms] by simp
qed

lemma with_get_peer:
  assumes quiet: "quiet E" and small: "\<forall>r\<in>set rows. c_peer_id r < 2 ^ 31"
    and f: "\<And>p. preserves (owned asn name (others asn name rows) (p_peer_id p)) (f p)"
  shows "triple (found_rows rows) (with_lock E l (and_then (get_peer E asn name) (\<lambda>found.
    and_then (lift_res (ok_or e found)) f))) (\<lambda>_. spared asn name rows) (\<lambda>_. spared asn name rows)"
proof (rule triple_lock[OF about_stable[OF quiet found_rows_about] spared_lock_free(2) spared_lock_free(1,1)])
  show "triple (found_rows rows) (and_then (get_peer E asn name) (\<lambda>found. and_then (lift_res (ok_or e found)) f))
      (\<lambda>_. spared asn name rows) (\<lambda>_. spared asn name rows)"
  proof (rule triple_and_then[where R = "\<lambda>found. case found of None \<Rightarrow> spared asn name rows
        | Some p \<Rightarrow> owned asn name (others asn name rows) (p_peer_id p)"])
    show "triple (found_rows rows) (get_peer E asn name) (\<lambda>found. case found of None \<Rightarrow> spared asn name rows
        | Some p \<Rightarrow> owned asn name (others asn name rows) (p_peer_id p)) (\<lambda>_. spared asn name rows)"
      by (rule triple_weaken[OF triple_get_peer[OF quiet small]]) (auto split: option.splits)
  qed (rule triple_found[OF f])
qed

lemma update_delete_spare:
  assumes quiet: "quiet E" and small: "\<forall>r\<in>set rows. c_peer_id r < 2 ^ 31"
  shows "triple (found_rows rows) (update_peer E m asn name key uep ll umtu) (\<lambda>_. spared asn name rows) (\<lambda>_. spared asn name rows)"
    "triple (found_rows rows) (delete_peer E m asn name) (\<lambda>_. spared asn name rows) (\<lambda>_. spared asn name rows)"
proof -
  note rules = frame_rules external_keeps[OF quiet owned_about] owned_writes[OF quiet] compensations_keep[OF quiet]
  show "triple (found_rows rows) (update_peer E m asn name key uep ll umtu) (\<lambda>_. spared asn name rows) (\<lambda>_. spared asn name rows)"
    unfolding update_peer_def Let_def
    by (rule with_get_peer[OF assms]) (intro rules; simp add: desired_peer_def rules)
  show "triple (found_rows rows) (delete_peer E m asn name) (\<lambda>_. spared asn name rows) (\<lambda>_. spared asn name rows)"
    unfolding delete_peer_def by (rule with_get_peer[OF assms]) (intro rules refl)
qed

lemma triple_guard:
  "(\<And>w. P w \<Longrightarrow> F e w) \<Longrightarrow> triple P m Q F \<Longrightarrow> triple P (if b then throw e else m) Q F"
  by (simp add: triple_throw)

lemma triple_stop:
  assumes "preserves (owned asn name (others asn name rows) pid) m"
  shows "triple (\<lambda>w. if b then spared asn name rows w else owned asn name (others asn name rows) pid w)
    (if b then ret x else m) (\<lambda>_. spared asn name rows) (\<lambda>_. spared asn name rows)"
  using triple_owned[OF assms] by (simp add: triple_ret)

lemma create_spares:
  assumes quiet: "quiet E" and name: "varchar 32 name = Some name"
  shows "triple (found_rows rows) (create_peer E m asn name key ep ll mtu) (\<lambda>_. spared asn name rows) (\<lambda>_. spared asn name rows)"
proof -
  let ?S = "spared asn name rows" and ?P = "found_rows rows"
  note st = about_stable[OF quiet found_rows_about]
  note rules = frame_rules external_keeps[OF quiet owned_about] owned_writes[OF quiet] compensations_keep[OF quiet]
  have found: "?S w" if "?P w" for w using that by (simp add: found_rows_def spared_def)
  have reserve: "triple ?P (with_lock E PortLock (reserve_peer E m asn name key ep ll mtu'))
      (\<lambda>p w. if asn = local_asn m then ?S w else owned asn name (others asn name rows) (p_peer_id p) w) (\<lambda>_. ?S)" for mtu'
    by (rule triple_lock[OF st spared_lock_free(2) _ spared_lock_free(1) triple_reserve_peer[OF assms]])
      (simp add: lock_free_def owned_def spared_def)
  show ?thesis
    unfolding create_peer_def
  proof (rule triple_lock[OF st spared_lock_free(2) spared_lock_free(1,1)],
      rule triple_and_then[where R = "\<lambda>_. ?P"], goal_cases)
    case 1
    show ?case
      by (rule triple_weaken[OF keeps_rows_read(1)[OF st, unfolded preserves_triple]]) (assumption | erule found)+
  next
    case 2
    show ?case
      by (rule triple_guard[OF found], assumption, rule triple_and_then[OF reserve], rule triple_stop)
        (intro rules refl)
  qed
qed

text \<open>
  C10. Isolation: creating, updating or deleting a peer, whatever it answers and whichever call of the
  database, the kernel, BIRD or nftables fails on the way, compensations included, leaves the rows
  of every other (ASN, name) pair exactly as they are, provided the ids of the table are those of
  an \<open>INTEGER\<close> column and the name fits its column, as the handler checks.
\<close>

theorem peer_isolation:
  assumes "quiet E" "db_inv w" "\<forall>r\<in>set (w_peers w). c_peer_id r < 2 ^ 31" "varchar 32 name = Some name"
  shows "others asn name (w_peers (snd (create_peer E m asn name key ep ll mtu w))) = others asn name (w_peers w)
    \<and> others asn name (w_peers (snd (update_peer E m asn name key uep ll umtu w))) = others asn name (w_peers w)
    \<and> others asn name (w_peers (snd (delete_peer E m asn name w))) = others asn name (w_peers w)"
proof -
  have w: "found_rows (w_peers w) w" using assms(2) by (simp add: found_rows_def)
  have run: "others asn name (w_peers (snd (op w))) = others asn name (w_peers w)"
    if "triple (found_rows (w_peers w)) op (\<lambda>_. spared asn name (w_peers w)) (\<lambda>_. spared asn name (w_peers w))"
    for op :: "peer io"
    using triple_Inr[OF that w] triple_Inl[OF that w] unfolding spared_def by (cases "op w"; cases "fst (op w)") auto
  show ?thesis
    using run[OF create_spares[OF assms(1,4)]] run[OF update_delete_spare(1)[OF assms(1,3)]]
      run[OF update_delete_spare(2)[OF assms(1,3)]] by blast
qed

theorem peer_isolation_witness:
  "others 4242420009 ''away'' (w_peers (snd (create_peer sample_env sample_manager 4242420009 ''away''
      (p_pubkey sample_peer) None None None one_peer_world))) = [reserved_row sample_peer 9]
   \<and> others 4242420001 ''home'' (w_peers (snd (delete_peer sample_env sample_manager 4242420001 ''home''
      one_peer_world))) = []"
proof -
  have "db_inv one_peer_world" using one_peer_sound by (simp add: sound_def)
  moreover have "\<forall>r\<in>set (w_peers one_peer_world). c_peer_id r < 2 ^ 31"
    by (simp add: one_peer_world_def sample_peer_def)
  moreover have "varchar 32 ''away'' = Some ''away''" "varchar 32 ''home'' = Some ''home''" by code_simp+
  moreover have "others 4242420009 ''away'' (w_peers one_peer_world) = [reserved_row sample_peer 9]"
    "others 4242420001 ''home'' (w_peers one_peer_world) = []"
    by (simp_all add: one_peer_world_def sample_peer_def others_def identity_of_def)
  ultimately show ?thesis using peer_isolation[OF sample_env_quiet, of one_peer_world] by metis
qed

end
