(* ===== verification/Locks.thy ===== *)
theory Locks
  imports Handle Lifecycle
begin

text \<open>
  The mutexes of \<open>src/manager.rs\<close>: one per pair of ASN and peer name (\<open>lock_peer\<close>), one for the ports, one
  for nftables and one for BIRD. Every operation takes them in the order of \<open>rank\<close> and releases
  them on every way out; the tasks that run the operations therefore exclude each other, never
  block each other for good, and come to an end.
\<close>

section \<open>The discipline of one task\<close>

fun rank :: "lock_id \<Rightarrow> nat" where
  "rank (PeerLock asn name) = 0"
| "rank PortLock = 1"
| "rank NftLock = 1"
| "rank BirdLock = 1"

text \<open>
  What a trace does to the locks held, the newest first: only a lock above all those held may be
  taken, and only the newest may be released.
\<close>

fun run_locks :: "lock_id list \<Rightarrow> lock_event list \<Rightarrow> lock_id list option" where
  "run_locks held [] = Some held"
| "run_locks held (Acquired l # es) =
     (if list_all (\<lambda>h. rank h < rank l) held then run_locks (l # held) es else None)"
| "run_locks held (Released l # es) =
     (case held of [] \<Rightarrow> None | h # hs \<Rightarrow> if h = l then run_locks hs es else None)"

lemma run_locks_append:
  "run_locks held (es @ es') = (case run_locks held es of None \<Rightarrow> None | Some h \<Rightarrow> run_locks h es')"
proof (induction es arbitrary: held)
  case (Cons e es)
  then show ?case by (cases e; cases held) simp_all
qed simp

text \<open>A trace that leaves the locks as they were, whatever locks below \<open>n\<close> are held.\<close>

definition balanced :: "nat \<Rightarrow> lock_event list \<Rightarrow> bool" where
  "balanced n es = (\<forall>held. list_all (\<lambda>h. rank h < n) held \<longrightarrow> run_locks held es = Some held)"

lemma balanced_Nil: "balanced n []"
  by (simp add: balanced_def)

lemma balanced_append: "balanced n es \<Longrightarrow> balanced n es' \<Longrightarrow> balanced n (es @ es')"
  by (simp add: balanced_def run_locks_append)

lemma balanced_scope:
  assumes "n \<le> rank l" "balanced (Suc (rank l)) es"
  shows "balanced n (Acquired l # es @ [Released l])"
  unfolding balanced_def
proof (intro allI impI)
  fix held :: "lock_id list" assume held: "list_all (\<lambda>h. rank h < n) held"
  then have low: "list_all (\<lambda>h. rank h < rank l) held" using assms(1) by (auto simp: list_all_iff)
  then have "list_all (\<lambda>h. rank h < Suc (rank l)) (l # held)" by (auto simp: list_all_iff)
  with assms(2) have "run_locks (l # held) es = Some (l # held)" unfolding balanced_def by blast
  with low show "run_locks held (Acquired l # es @ [Released l]) = Some held" by (simp add: run_locks_append)
qed

definition orderly :: "nat \<Rightarrow> 'a io \<Rightarrow> bool" where
  "orderly n m = (\<forall>w. \<exists>es. w_locks (snd (m w)) = w_locks w @ es \<and> balanced n es)"

named_theorems lock_rules \<open>operations that take their locks in order\<close>

lemma orderlyD: "orderly n m \<Longrightarrow> m w = (r, w') \<Longrightarrow> \<exists>es. w_locks w' = w_locks w @ es \<and> balanced n es"
  unfolding orderly_def by (metis snd_conv)

lemma orderlyI: "(\<And>w r w'. m w = (r, w') \<Longrightarrow> \<exists>es. w_locks w' = w_locks w @ es \<and> balanced n es) \<Longrightarrow> orderly n m"
  unfolding orderly_def by (metis prod.collapse)

lemma orderly_silent: "keeps w_locks m \<Longrightarrow> orderly n m"
  unfolding orderly_def keeps_def by (metis append_Nil2 balanced_Nil)

lemma orderly_and_then [lock_rules]:
  assumes "orderly n m" "\<And>x. orderly n (f x)"
  shows "orderly n (and_then m f)"
proof (rule orderlyI)
  fix w r w' assume run: "and_then m f w = (r, w')"
  obtain a w1 where m: "m w = (a, w1)" by fastforce
  obtain es where es: "w_locks w1 = w_locks w @ es" "balanced n es" using orderlyD[OF assms(1) m] by blast
  show "\<exists>es. w_locks w' = w_locks w @ es \<and> balanced n es"
  proof (cases a)
    case (Inl e)
    then show ?thesis using run m es by (auto simp: and_then_def)
  next
    case (Inr x)
    then have "f x w1 = (r, w')" using run m by (simp add: and_then_def)
    from orderlyD[OF assms(2) this] obtain es' where "w_locks w' = w_locks w1 @ es'" "balanced n es'" by blast
    with es have "w_locks w' = w_locks w @ es @ es' \<and> balanced n (es @ es')" by (simp add: balanced_append)
    then show ?thesis by blast
  qed
qed

lemma orderly_with_lock [lock_rules]:
  assumes "n \<le> rank l" "orderly (Suc (rank l)) m"
  shows "orderly n (with_lock E l m)"
proof (rule orderlyI)
  fix w r w' assume "with_lock E l m w = (r, w')"
  then obtain w1 where m: "m (note_lock (Acquired l) (await E w)) = (r, w1)" and w': "w' = note_lock (Released l) w1"
    unfolding with_lock_run by blast
  obtain es where "w_locks w1 = w_locks w @ Acquired l # es" "balanced (Suc (rank l)) es"
    using orderlyD[OF assms(2) m] by auto
  then have "w_locks w' = w_locks w @ Acquired l # es @ [Released l] \<and> balanced n (Acquired l # es @ [Released l])"
    using balanced_scope[OF assms(1)] w' by simp
  then show "\<exists>es. w_locks w' = w_locks w @ es \<and> balanced n es" by blast
qed

lemma orderly_basic [lock_rules]:
  "orderly n (ret x)" "orderly n (throw e)" "orderly n (lift_res r)" "orderly n (read_clock E)"
  "orderly n (Pair r)"
  by (intro orderly_silent frame_rules)+

lemma orderly_attempt [lock_rules]: "orderly n m \<Longrightarrow> orderly n (attempt m)"
  unfolding orderly_def attempt_def by (auto split: prod.splits) (metis snd_conv)

lemma orderly_if [lock_rules]: "(b \<Longrightarrow> orderly n m) \<Longrightarrow> (\<not> b \<Longrightarrow> orderly n m') \<Longrightarrow> orderly n (if b then m else m')"
  by simp

lemma orderly_case_option [lock_rules]:
  "orderly n m \<Longrightarrow> (\<And>x. orderly n (f x)) \<Longrightarrow> orderly n (case opt of None \<Rightarrow> m | Some x \<Rightarrow> f x)"
  by (cases opt) simp_all

lemma orderly_case_sum [lock_rules]:
  "(\<And>x. orderly n (f x)) \<Longrightarrow> (\<And>x. orderly n (g x)) \<Longrightarrow> orderly n (case s of Inl x \<Rightarrow> f x | Inr x \<Rightarrow> g x)"
  by (cases s) simp_all

lemma orderly_case_prod [lock_rules]:
  "(\<And>x y. orderly n (f x y)) \<Longrightarrow> orderly n (case p of (x, y) \<Rightarrow> f x y)"
  by (cases p) simp

lemma orderly_for_io [lock_rules]:
  "(\<And>x. x \<in> set xs \<Longrightarrow> orderly n (f x)) \<Longrightarrow> orderly n (for_io f xs)"
  by (induction xs) (auto intro!: lock_rules)

lemma orderly_found_or [lock_rules]: "orderly n (found_or b asn name)"
  unfolding found_or_def by (intro lock_rules)

section \<open>Operations that take no lock\<close>

lemma locks_stable: "stable E (\<lambda>w. w_locks w = L)"
  by (simp add: stable_def)

lemma locks_about: "about w_locks (\<lambda>w. w_locks w = L)"
  by (simp add: about_def)

lemma locks_beside [simp]: "beside_kernel w_locks" "beside_nft w_locks" "beside_fs w_locks"
  by (simp_all add: beside_kernel_def beside_nft_def beside_fs_def tick_free_def)

lemma orderly_unlocked: "(\<And>L. preserves (\<lambda>w. w_locks w = L) m) \<Longrightarrow> orderly n m"
  by (rule orderly_silent) (simp add: keeps_preserves)

lemma orderly_store [lock_rules]:
  "orderly n (insert_nonce E asn nonce t)" "orderly n (consume_nonce E asn nonce t)"
  "orderly n (db_reserve_peer E p test)" "orderly n (allocate_peer_id E)"
  "orderly n (update_peer_desired E p)" "orderly n (set_status E pid st)" "orderly n (db_delete_peer E pid)"
  "orderly n (peer_exists E asn name)" "orderly n (get_peer E asn name)" "orderly n (get_peer_by_id E pid)"
  "orderly n (list_peers E)" "orderly n (get_peer_infos_by_asn E asn)" "orderly n (list_peer_changes E)"
  "orderly n (delete_peer_change E eid)"
  by (intro orderly_silent store_keeps_undisturbed undisturbed_locks beside_db_views)+

lemma orderly_netlink [lock_rules]:
  "orderly n (ensure_wg_interface E iface pid mtu)" "orderly n (list_managed_interfaces E)"
  "orderly n (configure_local_address E iface address)" "orderly n (configure_peer E iface key port pubkey ep)"
  "orderly n (listen_port_in_use E port exc)" "orderly n (delete_interface E iface)"
  by (intro orderly_unlocked netlink_preserves[OF locks_stable locks_about] locks_beside)+

lemma orderly_nft_batch [lock_rules]: "orderly n (run_nft_batch E batch)"
  by (intro orderly_unlocked preserves_run_nft_batch[OF locks_stable locks_about] locks_beside)

lemma orderly_bird_body [lock_rules]: "orderly n (sync_bird_locked E m peers force_reload)"
  by (intro orderly_unlocked bird_preserves(3)[OF locks_stable locks_about] locks_beside)

lemma orderly_resolve [lock_rules]: "orderly n (resolve_endpoint E e)"
  by (intro orderly_unlocked preserves_resolve_endpoint locks_stable)

lemma orderly_registry_check [lock_rules]: "orderly n (registry_check E a asn key)"
  by (intro orderly_unlocked preserves_registry_check locks_stable)

lemma orderly_with_permit [lock_rules]:
  assumes "orderly n m"
  shows "orderly n (with_permit m)"
proof (rule orderlyI)
  fix w r w' assume run: "with_permit m w = (r, w')"
  let ?w = "w\<lparr>w_permits := w_permits w - 1\<rparr>"
  obtain a w1 where m: "m ?w = (a, w1)" by fastforce
  then have "w_locks w' = w_locks w \<or> w_locks w' = w_locks w1"
    using run by (auto simp: with_permit_def split: if_splits)
  moreover obtain es where "w_locks w1 = w_locks w @ es" "balanced n es" using orderlyD[OF assms m] by auto
  ultimately show "\<exists>es. w_locks w' = w_locks w @ es \<and> balanced n es" using balanced_Nil by force
qed

section \<open>The operations\<close>

lemma orderly_sync [lock_rules]:
  assumes "n \<le> 1"
  shows "orderly n (sync_nft_ports_for E peers)" "orderly n (sync_nft_ports E)"
    "orderly n (sync_bird_configs_for E m peers force_reload)" "orderly n (sync_bird_configs E m)"
proof -
  show nft: "orderly n (sync_nft_ports_for E peers)" for peers
    unfolding sync_nft_ports_for_def by (intro lock_rules) (use assms in simp)
  show bird: "orderly n (sync_bird_configs_for E m peers force_reload)" for peers force_reload
    unfolding sync_bird_configs_for_def by (intro lock_rules) (use assms in simp)
  show "orderly n (sync_nft_ports E)" "orderly n (sync_bird_configs E m)"
    unfolding sync_nft_ports_def sync_bird_configs_def by (intro lock_rules nft bird)+
qed

lemma orderly_external [lock_rules]:
  assumes "n \<le> 1"
  shows "orderly n (apply_wireguard E m p)" "orderly n (apply_peer E m p)" "orderly n (remove_external_state E m p)"
    "orderly n (compensate_failed_create E m p)" "orderly n (compensate_failed_update E m p)"
    "orderly n (restore_deleted E m p)"
  unfolding apply_wireguard_def apply_peer_def remove_external_state_def compensate_failed_create_def
    compensate_failed_update_def restore_deleted_def
  by (intro lock_rules assms)+

lemma orderly_reserve_loop [lock_rules]:
  "orderly n (reserve_loop E m pid asn name key ep pair mtu is)"
  by (induction "is") (auto simp: Let_def intro!: lock_rules)

lemma orderly_reserve_peer [lock_rules]: "orderly n (reserve_peer E m asn name key ep ll mtu)"
  unfolding reserve_peer_def Let_def by (intro lock_rules)

text \<open>The scope of a peer's lock: below it no other is held, inside it the others may be taken.\<close>

lemma orderly_operation [lock_rules]: "orderly 1 m \<Longrightarrow> orderly 0 (with_lock E (operation_lock asn name) m)"
  by (rule orderly_with_lock) (simp_all add: operation_lock_def)

lemma orderly_manager [lock_rules]:
  "orderly 0 (create_peer E m asn name key ep ll mtu)" "orderly 0 (update_peer E m asn name key uep ll umtu)"
  "orderly 0 (delete_peer E m asn name)" "orderly 0 (activate E p)" "orderly 0 (apply_peer_change E m change)"
proof -
  have port: "orderly 1 (with_lock E PortLock (reserve_peer E m asn name key ep ll mtu'))" for mtu'
    by (intro orderly_with_lock lock_rules) simp
  show "orderly 0 (create_peer E m asn name key ep ll mtu)"
    unfolding create_peer_def by (intro orderly_operation port lock_rules; simp)
  show "orderly 0 (update_peer E m asn name key uep ll umtu)"
    unfolding update_peer_def Let_def by (intro orderly_operation lock_rules; simp)
  show "orderly 0 (delete_peer E m asn name)"
    unfolding delete_peer_def by (intro orderly_operation lock_rules; simp)
  show "orderly 0 (activate E p)"
    unfolding activate_def by (intro orderly_operation lock_rules)
  show "orderly 0 (apply_peer_change E m change)"
    unfolding apply_peer_change_def finish_delete_def Let_def by (intro orderly_operation lock_rules; simp)
qed

lemma orderly_recover [lock_rules]: "orderly 0 (recover E m)"
  unfolding recover_def delete_unlisted_def delete_changed_def finish_delete_def Let_def
  by (intro orderly_operation lock_rules; simp)

lemma orderly_pending [lock_rules]: "orderly 0 (sync_pending_peer_changes E m)"
proof -
  have "orderly 0 (sync_changes E m changes err)" for changes err
    by (induction changes arbitrary: err) (auto intro!: lock_rules)
  then show ?thesis unfolding sync_pending_peer_changes_def by (intro lock_rules)
qed

lemma orderly_challenge [lock_rules]:
  "orderly n (issue_challenge E asn)" "orderly n (authorize_request E a asn key sig nonce t msg)"
proof -
  have "orderly n (issue_attempts E asn t k)" for t k
  proof (induction k)
    case (Suc k)
    have "orderly n (and_then (insert_nonce E asn nonce t) (\<lambda>inserted.
        if inserted then ret (nonce, t) else issue_attempts E asn t k))" for nonce
      by (intro lock_rules Suc)
    then show ?case by (simp add: orderly_def Let_def)
  qed (simp add: lock_rules)
  then show "orderly n (issue_challenge E asn)" unfolding issue_challenge_def by (intro lock_rules)
  show "orderly n (authorize_request E a asn key sig nonce t msg)"
    unfolding authorize_request_def by (intro lock_rules)
qed

section \<open>The tasks of the service\<close>

datatype task =
    Request api_request
  | NewChallenge u32
  | GetPeers u32
  | Recovery
  | PendingChanges
  | ReconcilePorts

fun run_task :: "env \<Rightarrow> app_state \<Rightarrow> task \<Rightarrow> unit io" where
  "run_task E st (Request r) = and_then (run_request E st r) (\<lambda>_. ret ())"
| "run_task E st (NewChallenge asn) = and_then (handle_create_challenge E st asn) (\<lambda>_. ret ())"
| "run_task E st (GetPeers asn) = and_then (handle_get_peers E st asn) (\<lambda>_. ret ())"
| "run_task E st Recovery = recover E (st_manager st)"
| "run_task E st PendingChanges = sync_pending_peer_changes E (st_manager st)"
| "run_task E st ReconcilePorts = sync_nft_ports E"

lemma orderly_task: "orderly 0 (run_task E st t)"
proof (cases t)
  case (Request r)
  have "orderly 0 (perform E (st_manager st) sr)" for sr by (cases sr) (simp_all add: lock_rules)
  then show ?thesis
    unfolding Request run_task.simps run_request_shape authorize_def by (intro lock_rules)
next
  case (NewChallenge asn)
  then show ?thesis by (simp add: handle_create_challenge_def lock_rules)
qed (auto simp: handle_get_peers_def manager_get_peer_infos_by_asn_def intro!: lock_rules)

text \<open>
  Whatever fails and whatever other tasks do, a task (a request, the recovery, the job of pending changes, the
  periodic reconciler) takes each lock only above those it holds (a peer's before those of the ports,
  nftables and BIRD, of which it holds one at a time), releases the newest first, and holds none when
  it ends, also when it ends with an error.
\<close>

theorem task_locks_in_order:
  "\<exists>trace. w_locks (snd (run_task E st t w)) = w_locks w @ trace \<and> run_locks [] trace = Some []"
  using orderly_task[of E st t] unfolding orderly_def balanced_def by (metis list.pred_inject(1))

section \<open>Many tasks at once\<close>

text \<open>
  Tasks in progress, each with the locks it holds and the lock events it has still to perform. A task
  waits at a lock that is held, by itself or by another: the mutexes are not reentrant.
\<close>

type_synonym running = "lock_id list \<times> lock_event list"

inductive pool_step :: "running list \<Rightarrow> running list \<Rightarrow> bool" where
  take_free: "\<forall>t\<in>set (xs @ (held, Acquired l # es) # ys). l \<notin> set (fst t) \<Longrightarrow>
     pool_step (xs @ (held, Acquired l # es) # ys) (xs @ (l # held, es) # ys)"
| give_back: "pool_step (xs @ (held, Released l # es) # ys) (xs @ (remove1 l held, es) # ys)"

definition pool_ok :: "running list \<Rightarrow> bool" where
  "pool_ok ts = (list_all (\<lambda>(held, es). run_locks held es = Some []) ts \<and> distinct (concat (map fst ts)))"

definition remaining :: "running list \<Rightarrow> nat" where
  "remaining ts = sum_list (map (\<lambda>t. length (snd t)) ts)"

definition all_done :: "running list \<Rightarrow> bool" where
  "all_done ts = list_all (\<lambda>t. t = ([], [])) ts"

lemma run_locks_Acquired:
  "run_locks held (Acquired l # es) = Some hs \<Longrightarrow> list_all (\<lambda>h. rank h < rank l) held \<and> run_locks (l # held) es = Some hs"
  by (simp split: if_splits)

lemma run_locks_Released:
  "run_locks held (Released l # es) = Some hs \<Longrightarrow> \<exists>rest. held = l # rest \<and> run_locks rest es = Some hs"
  by (auto split: list.splits if_splits)

lemma pool_ok_insert:
  "pool_ok (xs @ (held, es) # ys) \<longleftrightarrow>
     pool_ok (xs @ ys) \<and> run_locks held es = Some [] \<and> distinct held
     \<and> (\<forall>l\<in>set held. \<forall>t\<in>set (xs @ ys). l \<notin> set (fst t))"
  unfolding pool_ok_def by (auto 0 3)

lemma pool_step_ok: "pool_step ts ts' \<Longrightarrow> pool_ok ts \<Longrightarrow> pool_ok ts'"
proof (induction rule: pool_step.induct)
  case (take_free xs held l es ys)
  then have "run_locks (l # held) es = Some []" using run_locks_Acquired unfolding pool_ok_insert by blast
  moreover have "l \<notin> set held" "\<forall>t\<in>set (xs @ ys). l \<notin> set (fst t)" using take_free.hyps by auto
  ultimately show ?case using take_free.prems unfolding pool_ok_insert by simp
next
  case (give_back xs held l es ys)
  then have "run_locks held (Released l # es) = Some []" unfolding pool_ok_insert by blast
  from run_locks_Released[OF this] obtain rest where "held = l # rest" "run_locks rest es = Some []" by blast
  then show ?case using give_back unfolding pool_ok_insert by simp
qed

lemma pool_step_remaining: "pool_step ts ts' \<Longrightarrow> remaining ts = Suc (remaining ts')"
  by (induction rule: pool_step.induct) (simp_all add: remaining_def)

text \<open>Among the tasks that wait, one that wants a lock of the highest rank is not kept waiting.\<close>

lemma pool_progress:
  assumes "pool_ok ts" "\<not> all_done ts"
  shows "\<exists>ts'. pool_step ts ts'"
proof (cases "\<exists>held l es. (held, Released l # es) \<in> set ts")
  case True
  then show ?thesis using give_back by (metis split_list)
next
  case False
  have runs: "run_locks held es = Some []" if "(held, es) \<in> set ts" for held es
    using assms(1) that by (auto simp: pool_ok_def list_all_iff)
  have wants: "\<exists>l es'. es = Acquired l # es' \<and> (\<forall>h\<in>set held. rank h < rank l)"
    if t: "(held, es) \<in> set ts" "(held, es) \<noteq> ([], [])" for held es
  proof (cases es)
    case Nil
    then show ?thesis using runs[OF t(1)] t(2) by simp
  next
    case (Cons e es')
    then obtain l where "e = Acquired l" using False t(1) by (cases e) auto
    with Cons runs[OF t(1)] show ?thesis by (auto simp: list_all_iff split: if_splits)
  qed
  let ?wanted = "{l. \<exists>held es. (held, Acquired l # es) \<in> set ts}"
  have "?wanted \<subseteq> (\<lambda>t. case hd (snd t) of Acquired l \<Rightarrow> l | Released l \<Rightarrow> l) ` set ts"
    by (force split: lock_event.split)
  then have fin: "finite (rank ` ?wanted)" by (meson finite_imageI finite_set finite_subset)
  obtain held es where waiting: "(held, es) \<in> set ts" "(held, es) \<noteq> ([], [])"
    using assms(2) unfolding all_done_def list_all_iff by auto
  then obtain l es' where "es = Acquired l # es'" using wants by blast
  with waiting(1) have "l \<in> ?wanted" by blast
  then have "?wanted \<noteq> {}" by blast
  then have "Max (rank ` ?wanted) \<in> rank ` ?wanted" by (intro Max_in[OF fin]) simp
  then obtain l where l: "Max (rank ` ?wanted) = rank l" "l \<in> ?wanted" by (rule imageE)
  have top: "rank l' \<le> rank l" if "l' \<in> ?wanted" for l'
    using Max_ge[OF fin imageI[OF that]] unfolding l(1) .
  from l(2) obtain held es where task: "(held, Acquired l # es) \<in> set ts" by blast
  have "l \<notin> set (fst t)" if mem: "t \<in> set ts" for t
  proof
    assume held: "l \<in> set (fst t)"
    obtain h es where t: "t = (h, es)" by (cases t)
    have "(h, es) \<noteq> ([], [])" using held t by auto
    with wants[of h es] obtain l' es' where "es = Acquired l' # es'" "rank l < rank l'"
      using mem held t by auto
    with top[of l'] mem t show False by force
  qed
  with task show ?thesis using take_free by (metis split_list)
qed

lemma pool_reaches_ok: "pool_step\<^sup>*\<^sup>* ts ts' \<Longrightarrow> pool_ok ts \<Longrightarrow> pool_ok ts'"
  by (induction rule: rtranclp_induct) (auto intro: pool_step_ok)

lemma pool_finishes: "pool_ok ts \<Longrightarrow> \<exists>ts'. pool_step\<^sup>*\<^sup>* ts ts' \<and> all_done ts'"
proof (induction "remaining ts" arbitrary: ts rule: less_induct)
  case less
  show ?case
  proof (cases "all_done ts")
    case False
    then obtain ts1 where step: "pool_step ts ts1" using pool_progress[OF less.prems] by blast
    then obtain ts' where "pool_step\<^sup>*\<^sup>* ts1 ts'" "all_done ts'"
      using less.hyps[of ts1] pool_step_ok less.prems pool_step_remaining[OF step] by auto
    with step show ?thesis by (meson converse_rtranclp_into_rtranclp)
  qed blast
qed

text \<open>The lock events of one run of a task, in its own environment and from its own world.\<close>

definition lock_trace :: "env \<Rightarrow> app_state \<Rightarrow> task \<Rightarrow> world \<Rightarrow> lock_event list" where
  "lock_trace E st t w = drop (length (w_locks w)) (w_locks (snd (run_task E st t w)))"

definition started :: "(env \<times> app_state \<times> task \<times> world) list \<Rightarrow> running list" where
  "started runs = map (\<lambda>(E, st, t, w). ([], lock_trace E st t w)) runs"

lemma lock_trace_ok: "run_locks [] (lock_trace E st t w) = Some []"
proof -
  obtain es where "w_locks (snd (run_task E st t w)) = w_locks w @ es" "balanced 0 es"
    using orderly_task[of E st t] unfolding orderly_def by blast
  then show ?thesis by (simp add: lock_trace_def balanced_def)
qed

lemma started_ok: "pool_ok (started runs)"
  by (induction runs) (auto simp: started_def pool_ok_def lock_trace_ok)

lemma pool_steps_remaining: "(pool_step ^^ k) ts ts' \<Longrightarrow> remaining ts = k + remaining ts'"
  by (induction k arbitrary: ts') (auto dest: pool_step_remaining)

text \<open>Example: two reconcilers, the first in its critical section.\<close>

lemma sample_trace:
  "lock_trace sample_env sample_state ReconcilePorts empty_world = [Acquired NftLock, Released NftLock]"
  by (simp add: lock_trace_def sync_nft_ports_def sync_nft_ports_for_def list_peers_def acquire_def execute_def
      and_then_def ext_call_def sql_select_def with_lock_def run_nft_batch_def run_nft_batch_inner_def
      order_rows_def empty_world_def Let_def)

definition two_reconcilers :: "(env \<times> app_state \<times> task \<times> world) list" where
  "two_reconcilers =
     [(sample_env, sample_state, ReconcilePorts, empty_world), (sample_env, sample_state, ReconcilePorts, empty_world)]"

lemma sample_first_step:
  "pool_step (started two_reconcilers)
     [([NftLock], [Released NftLock]), ([], [Acquired NftLock, Released NftLock])]"
  using take_free[of "[]" "[]" NftLock "[Released NftLock]" "[([], [Acquired NftLock, Released NftLock])]"]
  by (simp add: started_def two_reconcilers_def sample_trace)

text \<open>
  C16. Mutual exclusion without deadlock: however any number of tasks are scheduled, no lock is ever held twice, by two
  tasks or by one (so no two operations on the same peer, and no two synchronizations of the ports or
  of BIRD, are in their critical sections together); and either all have finished, holding no lock, or one of them
  can go on.
\<close>

theorem tasks_never_deadlock:
  assumes "pool_step\<^sup>*\<^sup>* (started runs) ts"
  shows "distinct (concat (map fst ts)) \<and> (list_all (\<lambda>t. t = ([], [])) ts \<or> (\<exists>ts'. pool_step ts ts'))"
  using pool_progress pool_reaches_ok[OF assms started_ok] unfolding all_done_def pool_ok_def by blast

theorem tasks_never_deadlock_witness:
  "\<exists>ts'. pool_step [([NftLock], [Released NftLock]), ([], [Acquired NftLock, Released NftLock])] ts'"
  using tasks_never_deadlock[OF r_into_rtranclp[of pool_step, OF sample_first_step]] by simp



end
