(* ===== verification/Rows.thy ===== *)
theory Rows
  imports Handle Lifecycle
begin

text \<open>
  The type of the rows that the service writes: what a row of \<open>peers\<close>, and the copy of it in a change
  event, holds beyond the constraints of the schema. A row of this type always reads back
  (\<open>row_to_peer\<close>), so no row the service wrote can make a later listing fail.
\<close>

section \<open>Typed peers and rows\<close>

definition ll_pair :: "ipv6_addr \<Rightarrow> ipv6_addr \<Rightarrow> bool" where
  "ll_pair a b = (is_unicast_link_local a \<and> is_unicast_link_local b \<and> a \<noteq> b)"

definition peer_typed :: "peer_manager \<Rightarrow> b64_decoder \<Rightarrow> peer \<Rightarrow> bool" where
  "peer_typed m decode p =
     (storable decode p \<and> p_asn p \<noteq> local_asn m \<and> peer_name_ok (p_peer_name p)
      \<and> p_iface_name p = ''wgp'' @ show_u32 (p_peer_id p)
      \<and> ll_pair (p_local_ll_ip p) (p_remote_ll_ip p)
      \<and> 20000 \<le> uint (p_listen_port p) \<and> uint (p_listen_port p) < 30000)"

definition known_status :: "rstr \<Rightarrow> bool" where
  "known_status s = (s \<in> {''provisioning'', ''active'', ''deleting'', ''disabled''})"

definition row_typed :: "peer_manager \<Rightarrow> b64_decoder \<Rightarrow> 'a peer_cols_scheme \<Rightarrow> bool" where
  "row_typed m decode r =
     (c_peer_id r < 2 ^ 31 \<and> known_status (c_status r) \<and> in_word_range 16 (c_mtu r)
      \<and> (case row_to_peer decode r of Inl _ \<Rightarrow> False | Inr p \<Rightarrow> peer_typed m decode p))"

lemma row_typedE:
  assumes "row_typed m decode r"
  obtains p where "row_to_peer decode r = Inr p" "peer_typed m decode p" "c_peer_id r = sint (p_peer_id p)"
    "known_status (c_status r)" "in_word_range 16 (c_mtu r)"
proof -
  obtain p where p: "row_to_peer decode r = Inr p" "peer_typed m decode p" and id: "c_peer_id r < 2 ^ 31"
    using assms by (auto simp: row_typed_def split: sum.splits)
  note F = row_to_peer_fields(1,12)[OF p(1)]
  have "uint (p_peer_id p) = c_peer_id r" using F by (simp add: in_word_range_def unsigned_of_int take_bit_int_eq_self)
  then have "c_peer_id r = sint (p_peer_id p)" using id by (simp add: sint_small)
  with p assms that show thesis by (simp add: row_typed_def)
qed

lemma peer_typed_status [simp]: "peer_typed m decode (p\<lparr>p_status := st\<rparr>) = peer_typed m decode p"
  by (simp add: peer_typed_def storable_def)

lemma row_typed_cols:
  assumes "peer_typed m decode p" "known_status st"
  shows "row_typed m decode (peer_to_cols p st)"
proof -
  have p: "storable decode p" using assms(1) by (simp add: peer_typed_def)
  have "c_peer_id (peer_to_cols p st) < 2 ^ 31"
    using p by (simp add: peer_to_cols_def storable_def sint_small)
  moreover have "known_status (c_status (peer_to_cols p st))" "in_word_range 16 (c_mtu (peer_to_cols p st))"
    using assms(2) in_range_uint by (simp_all add: peer_to_cols_def)
  ultimately show ?thesis using assms(1) row_to_peer_cols[OF p] by (simp add: row_typed_def)
qed

lemma row_typed_cong:
  assumes "peer_cols.truncate r = peer_cols.truncate r'"
  shows "row_typed m decode r = row_typed m decode r'"
proof -
  have "c_peer_id r = c_peer_id r'" "c_status r = c_status r'" "c_mtu r = c_mtu r'"
    using assms by (simp_all add: peer_cols.defs)
  then show ?thesis unfolding row_typed_def row_to_peer_cong[OF assms] by simp
qed

lemma row_typed_truncate [simp]:
  "row_typed m decode (peer_cols.extend (peer_cols.truncate r) ext) = row_typed m decode r"
  by (rule row_typed_cong) (simp add: peer_cols.defs)

lemma row_typed_reserved:
  assumes "peer_typed m decode p"
  shows "row_typed m decode (reserved_row p now)"
proof -
  have "row_typed m decode (reserved_row p now) = row_typed m decode (peer_to_cols p ''provisioning'')"
    unfolding reserved_row_def by (rule row_typed_cong) (simp add: peer_cols.defs)
  then show ?thesis using row_typed_cols[OF assms] by (simp add: known_status_def)
qed

lemma row_typed_desired:
  assumes "row_typed m decode r" "peer_typed m decode p" "c_peer_id r = sint (p_peer_id p)"
  shows "row_typed m decode (desired_columns p now r)"
proof -
  obtain q where q: "row_to_peer decode r = Inr q" "peer_typed m decode q" using row_typedE[OF assms(1)] by blast
  let ?p = "p\<lparr>p_asn := p_asn q, p_peer_name := p_peer_name q\<rparr>"
  have p: "peer_typed m decode ?p" using assms(2) q(2) by (simp add: peer_typed_def storable_def)
  have "c_asn r = uint (p_asn q)" "c_peer_name r = p_peer_name q"
    using row_to_peer_fields(2,3,13)[OF q(1)] by (auto simp: in_word_range_def unsigned_of_int take_bit_int_eq_self)
  then have "row_typed m decode (desired_columns p now r) = row_typed m decode (peer_to_cols ?p ''provisioning'')"
    by (intro row_typed_cong) (simp add: desired_columns_def peer_to_cols_def peer_cols.defs assms(3))
  then show ?thesis using row_typed_cols[OF p] by (simp add: known_status_def)
qed

lemma row_typed_mark:
  assumes "row_typed m decode r" "known_status s"
  shows "row_typed m decode (r\<lparr>c_status := s, r_updated_at := t\<rparr>)"
proof -
  obtain p where p: "row_to_peer decode r = Inr p" "peer_typed m decode p" using row_typedE[OF assms(1)] by blast
  have "row_to_peer decode (r\<lparr>c_status := s, r_updated_at := t\<rparr>) = Inr (p\<lparr>p_status := str_to_status s\<rparr>)"
    by (rule row_to_peer_status[OF p(1)])
  then show ?thesis using assms p(2) by (simp add: row_typed_def)
qed

section \<open>Typed tables\<close>

definition typed :: "peer_manager \<Rightarrow> b64_decoder \<Rightarrow> world \<Rightarrow> bool" where
  "typed m decode w =
     ((\<forall>r\<in>set (w_peers w). row_typed m decode r) \<and> (\<forall>e\<in>set (w_events w). row_typed m decode e)
      \<and> 0 \<le> w_peer_seq w)"

lemma typed_about: "about db_view (typed m decode)"
  by (simp add: about_def db_view_def typed_def)

lemma typed_lock_free: "lock_free (typed m decode)"
  by (simp add: lock_free_def typed_def)

lemma typedI:
  "(\<And>r. r \<in> set (w_peers w) \<Longrightarrow> row_typed m decode r) \<Longrightarrow> (\<And>e. e \<in> set (w_events w) \<Longrightarrow> row_typed m decode e) \<Longrightarrow>
   0 \<le> w_peer_seq w \<Longrightarrow> typed m decode w"
  by (simp add: typed_def)

lemma new_events_typed:
  "e \<in> set (new_events op k rows) \<Longrightarrow> (\<And>r. r \<in> set rows \<Longrightarrow> row_typed m decode r) \<Longrightarrow> row_typed m decode e"
  by (induction rows arbitrary: k) auto

lemma typed_enqueue:
  assumes "typed m decode w" "\<And>r. r \<in> set rows \<Longrightarrow> row_typed m decode (f r)"
  shows "typed m decode (fold (\<lambda>r. enqueue_peer_change op (f r)) rows w)"
proof -
  have "row_typed m decode e" if "e \<in> set (new_events op (w_event_seq w) (map f rows))" for e
    using new_events_typed[OF that] assms(2) by fastforce
  then show ?thesis using assms(1) by (auto simp: enqueue_fold typed_def)
qed

lemma typed_insert:
  assumes "typed m decode w" "row_typed m decode r"
  shows "typed m decode (snd (sql_insert_peer r w))"
proof -
  obtain p where p: "row_to_peer decode r = Inr p" "peer_typed m decode p" using row_typedE[OF assms(2)] by blast
  then have "peer_name_ok (c_peer_name r)" using row_to_peer_fields(3)[OF p(1)] by (simp add: peer_typed_def)
  then have "\<forall>c\<in>set (c_peer_name r). byte c < 128" "length (c_peer_name r) \<le> 32"
    using name_char_plain by (auto simp: peer_name_ok_def list_all_iff)
  then have vc: "varchar 32 (c_peer_name r) = Some (c_peer_name r)" by (simp add: varchar_id char_count_ascii)
  have "typed m decode (w\<lparr>w_peers := w_peers w @ [r]\<rparr>)" using assms by (auto simp: typed_def)
  from typed_enqueue[OF this, of "[r]" id "''INSERT''"] assms(2) show ?thesis
    using assms(1) by (simp add: sql_insert_peer_def vc)
qed

lemma typed_update:
  assumes "typed m decode w" "\<And>r. row_typed m decode r \<Longrightarrow> c_peer_id r = pid \<Longrightarrow> row_typed m decode (f r)"
  shows "typed m decode (snd (sql_update_peer f pid w))"
proof -
  let ?rows = "map (\<lambda>r. if c_peer_id r = pid then f r else r) (w_peers w)"
  have old: "row_typed m decode r" if "r \<in> set (w_peers w)" for r using assms(1) that by (simp add: typed_def)
  have "row_typed m decode x" if x: "x \<in> set ?rows" for x
  proof -
    obtain r where "r \<in> set (w_peers w)" "x = (if c_peer_id r = pid then f r else r)" using x by auto
    then show ?thesis using old assms(2) by (cases "c_peer_id r = pid") simp_all
  qed
  then have "typed m decode (w\<lparr>w_peers := ?rows\<rparr>)" using assms(1) by (simp add: typed_def del: set_map)
  then have "typed m decode (fold (\<lambda>r. enqueue_peer_change ''UPDATE'' (f r)) (filter (\<lambda>r. c_peer_id r = pid) (w_peers w))
      (w\<lparr>w_peers := ?rows\<rparr>))" by (rule typed_enqueue) (use old assms(2) in simp)
  then show ?thesis using assms(1) unfolding sql_update_peer_def Let_def by simp
qed

lemma typed_delete:
  assumes "typed m decode w"
  shows "typed m decode (snd (sql_delete_peer pid w))"
proof -
  have "typed m decode (w\<lparr>w_peers := filter (\<lambda>r. c_peer_id r \<noteq> pid) (w_peers w)\<rparr>)" using assms by (auto simp: typed_def)
  from typed_enqueue[OF this, of "filter (\<lambda>r. c_peer_id r = pid) (w_peers w)" id "''DELETE''"]
  show ?thesis using assms unfolding sql_delete_peer_def Let_def id_def by (simp add: typed_def)
qed

lemma typed_other:
  "typed m decode w \<Longrightarrow> typed m decode (snd (sql_insert_nonce nonce asn t w))"
  "typed m decode w \<Longrightarrow> typed m decode (snd (sql_consume_nonce nonce asn t now w))"
  "typed m decode w \<Longrightarrow> typed m decode (snd (sql_delete_expired_nonces now w))"
  "typed m decode w \<Longrightarrow> typed m decode (snd (sql_delete_event eid w))"
  "typed m decode w \<Longrightarrow> typed m decode (snd (sql_nextval_peer_id w))"
  "typed m decode w \<Longrightarrow> typed m decode (snd (sql_select f w))"
  unfolding sql_insert_nonce_def sql_consume_nonce_def sql_delete_expired_nonces_def sql_delete_event_def
    sql_nextval_peer_id_def sql_select_def typed_def
  by simp_all

section \<open>Typed rows read back\<close>

lemma typed_rows_read:
  assumes "\<forall>r\<in>set rows. row_typed m decode r"
  shows "\<exists>peers. collect_results (row_to_peer decode) rows = Inr peers \<and> (\<forall>p\<in>set peers. peer_typed m decode p)"
  using assms
proof (induction rows)
  case (Cons r rows)
  then obtain p where "row_to_peer decode r = Inr p" "peer_typed m decode p" using row_typedE by (metis list.set_intros(1))
  with Cons show ?case by auto
qed simp

end
