(* ===== verification/Answers.thy ===== *)
theory Answers
  imports Rows Locks
begin

text \<open>
  Which errors the operations return, as the status of their response, while the tables stay typed
  (\<open>Rows\<close>): \<open>answers I S m\<close> says that \<open>m\<close> keeps \<open>I\<close> and that every error it returns has a status in \<open>S\<close>.
  The rules follow the constructs of the monad; the properties are that every task keeps the
  tables typed, and the statuses with which each handler can answer.
\<close>

section \<open>Errors of an operation\<close>

definition err_status :: "peer_error \<Rightarrow> nat" where
  "err_status e = fst (into_response e)"

lemma err_status_simps [simp]:
  "err_status (UnauthorizedChallenge s) = 403" "err_status (Validation s) = 400" "err_status RegistryMismatch = 403"
  "err_status (RegistryUnavailable s) = 503" "err_status (NotFound a n) = 404" "err_status (AlreadyExists a n) = 409"
  "err_status (NetlinkError io s) = 500" "err_status (BirdConfigIo io s) = 500" "err_status (BirdReload s) = 500"
  "err_status (Nftables s) = 500" "err_status (Database d) = 500" "err_status (SignatureVerificationFailed s) = 400"
  by (simp_all add: err_status_def)

definition answers :: "(world \<Rightarrow> bool) \<Rightarrow> nat set \<Rightarrow> 'a io \<Rightarrow> bool" where
  "answers I S m = (\<forall>w r w'. I w \<longrightarrow> m w = (r, w') \<longrightarrow> I w' \<and> (\<forall>e. r = Inl e \<longrightarrow> err_status e \<in> S))"

text \<open>What a returned value satisfies.\<close>

definition yields :: "(world \<Rightarrow> bool) \<Rightarrow> ('a \<Rightarrow> bool) \<Rightarrow> 'a io \<Rightarrow> bool" where
  "yields I Q m = (\<forall>w x w'. I w \<longrightarrow> m w = (Inr x, w') \<longrightarrow> Q x)"

named_theorems answer_rules \<open>operations whose errors are known\<close>

lemma answersI:
  "(\<And>w r w'. I w \<Longrightarrow> m w = (r, w') \<Longrightarrow> I w') \<Longrightarrow>
   (\<And>w e w'. I w \<Longrightarrow> m w = (Inl e, w') \<Longrightarrow> err_status e \<in> S) \<Longrightarrow> answers I S m"
  unfolding answers_def by blast

lemma answers_state: "answers I S m \<Longrightarrow> I w \<Longrightarrow> m w = (r, w') \<Longrightarrow> I w'"
  unfolding answers_def by blast

lemma answers_error: "answers I S m \<Longrightarrow> I w \<Longrightarrow> m w = (Inl e, w') \<Longrightarrow> err_status e \<in> S"
  unfolding answers_def by blast

lemma answers_mono: "answers I S m \<Longrightarrow> S \<subseteq> S' \<Longrightarrow> answers I S' m"
  unfolding answers_def by blast

abbreviation anywhere :: "world \<Rightarrow> bool" where
  "anywhere \<equiv> \<lambda>_. True"

lemma answers_split: "preserves I m \<Longrightarrow> answers anywhere S m \<Longrightarrow> answers I S m"
  by (rule answersI) (blast dest: preservesD answers_error)+

lemma answers_basic [answer_rules]:
  "answers I S (ret x)" "err_status e \<in> S \<Longrightarrow> answers I S (throw e)" "answers I S (read_clock E)"
  "(\<And>e. r = Inl e \<Longrightarrow> err_status e \<in> S) \<Longrightarrow> answers I S (lift_res r)"
  "(\<And>e. r = Inl e \<Longrightarrow> err_status e \<in> S) \<Longrightarrow> answers I S (Pair r)"
  by (auto simp: answers_def read_clock_def)

lemma answers_and_then_yields:
  assumes "answers I S m" "yields I Q m" "\<And>x. Q x \<Longrightarrow> answers I S (f x)"
  shows "answers I S (and_then m f)"
proof (rule answersI)
  fix w r w' assume I: "I w" and run: "and_then m f w = (r, w')"
  obtain a w1 where m: "m w = (a, w1)" by fastforce
  have I1: "I w1" by (rule answers_state[OF assms(1) I m])
  show "I w'"
  proof (cases a)
    case (Inr x)
    then have "Q x" using assms(2) I m unfolding yields_def by blast
    with Inr run m show ?thesis using answers_state[OF assms(3) I1] by (simp add: and_then_def)
  qed (use run m I1 in \<open>simp add: and_then_def\<close>)
next
  fix w e w' assume I: "I w" and run: "and_then m f w = (Inl e, w')"
  obtain a w1 where m: "m w = (a, w1)" by fastforce
  have I1: "I w1" by (rule answers_state[OF assms(1) I m])
  show "err_status e \<in> S"
  proof (cases a)
    case (Inl d)
    then show ?thesis using run m answers_error[OF assms(1) I] by (simp add: and_then_def)
  next
    case (Inr x)
    then have "Q x" using assms(2) I m unfolding yields_def by blast
    with Inr run m show ?thesis using answers_error[OF assms(3) I1] by (simp add: and_then_def)
  qed
qed

lemma answers_and_then [answer_rules]:
  "answers I S m \<Longrightarrow> (\<And>x. answers I S (f x)) \<Longrightarrow> answers I S (and_then m f)"
  by (rule answers_and_then_yields[where Q = "\<lambda>_. True"]) (simp_all add: yields_def)

lemma answers_attempt [answer_rules]: "answers I UNIV m \<Longrightarrow> answers I S (attempt m)"
  unfolding answers_def attempt_def by (auto split: prod.splits)

lemma and_then_lift: "and_then (lift_res (Inl e)) f = throw e" "and_then (lift_res (Inr x)) f = f x"
  by (simp_all add: and_then_def lift_res_def throw_def fun_eq_iff)

text \<open>\<open>match m.await\<close> whose error branch returns the error after some work.\<close>

lemma answers_rethrow:
  assumes "answers I S0 m" "\<And>x. answers I S (k (Inr x))" "\<And>e. err_status e \<in> S0 \<Longrightarrow> answers I S (k (Inl e))"
  shows "answers I S (and_then (attempt m) k)"
proof (rule answers_and_then_yields[where Q = "\<lambda>r. \<forall>e. r = Inl e \<longrightarrow> err_status e \<in> S0"])
  show "answers I S (attempt m)" by (rule answers_attempt[OF answers_mono[OF assms(1)]]) simp
  show "yields I (\<lambda>r. \<forall>e. r = Inl e \<longrightarrow> err_status e \<in> S0) (attempt m)"
    by (auto simp: yields_def dest: answers_error[OF assms(1)])
  show "answers I S (k r)" if "\<forall>e. r = Inl e \<longrightarrow> err_status e \<in> S0" for r
    using that assms(2,3) by (cases r) simp_all
qed

lemma answers_if [answer_rules]:
  "(b \<Longrightarrow> answers I S m) \<Longrightarrow> (\<not> b \<Longrightarrow> answers I S m') \<Longrightarrow> answers I S (if b then m else m')"
  by simp

lemma answers_case_option [answer_rules]:
  "(opt = None \<Longrightarrow> answers I S m) \<Longrightarrow> (\<And>x. opt = Some x \<Longrightarrow> answers I S (f x)) \<Longrightarrow>
   answers I S (case opt of None \<Rightarrow> m | Some x \<Rightarrow> f x)"
  by (cases opt) simp_all

lemma answers_case_sum [answer_rules]:
  "(\<And>x. s = Inl x \<Longrightarrow> answers I S (f x)) \<Longrightarrow> (\<And>x. s = Inr x \<Longrightarrow> answers I S (g x)) \<Longrightarrow>
   answers I S (case s of Inl x \<Rightarrow> f x | Inr x \<Rightarrow> g x)"
  by (cases s) simp_all

lemma answers_case_prod [answer_rules]:
  "(\<And>x y. answers I S (f x y)) \<Longrightarrow> answers I S (case p of (x, y) \<Rightarrow> f x y)"
  by (cases p) simp

lemma answers_for_io [answer_rules]:
  "(\<And>x. x \<in> set xs \<Longrightarrow> answers I S (f x)) \<Longrightarrow> answers I S (for_io f xs)"
  by (induction xs) (auto intro!: answer_rules)

lemma answers_with_lock:
  assumes "stable E I" "lock_free I" "answers I S m"
  shows "answers I S (with_lock E l m)"
proof -
  have note_lock: "I (note_lock ev w) = I w" for ev w using assms(2) by (simp add: lock_free_def)
  have taken: "I (note_lock ev (await E w))" if "I w" for ev w
    using assms(1) that by (simp add: note_lock stable_def)
  show ?thesis
    unfolding answers_def with_lock_run
    using answers_state[OF assms(3) taken] answers_error[OF assms(3) taken] note_lock by blast
qed

lemma answers_ext_call:
  assumes "stable E I" "\<And>w. I w \<Longrightarrow> I (snd (q w))" "\<And>e. err_status (mk e) \<in> S"
  shows "answers I S (ext_call E flt mk q)"
proof (rule answersI)
  have keep: "preserves I (ext_call E flt mk q)" by (rule preserves_ext_call[OF assms(1)]) (rule assms(2))
  fix w r w' assume "I w" "ext_call E flt mk q w = (r, w')"
  then show "I w'" using preservesD[OF keep] by blast
next
  fix w e w' assume "ext_call E flt mk q w = (Inl e, w')"
  then have "\<exists>d. e = mk d"
    by (auto simp: ext_call_def Let_def map_err_def split: fault.splits prod.splits sum.splits)
  then show "err_status e \<in> S" using assms(3) by blast
qed

lemma stable_anywhere [simp]: "stable E anywhere"
  by (simp add: stable_def)

lemma lock_free_anywhere [simp]: "lock_free anywhere"
  by (simp add: lock_free_def)

section \<open>The external services\<close>

text \<open>Netlink: its own errors, and the validation of keys and names.\<close>

lemma answers_nl_query:
  assumes "500 \<in> S"
  shows "answers anywhere S (new_connection E iface)" "answers anywhere S (device_list E)"
    "answers anywhere S (device_get E name)" "answers anywhere S (dump_links E)"
    "answers anywhere S (find_link E iface)" "answers anywhere S (nl_send E (netlink_error iface) req)"
    "answers anywhere S (nl_send E (\<lambda>e. NetlinkError e iface) req)"
proof -
  have scan: "err_status e \<in> S" if "scan_for_link iface ls = Inl e" for iface ls e
    using that assms by (induction iface ls rule: scan_for_link.induct) (auto simp: netlink_error_def split: if_splits)
  show dump: "answers anywhere S (dump_links E)"
    by (rule answersI) (auto simp: dump_links_def Let_def split: fault.splits)
  show "answers anywhere S (find_link E iface)"
    unfolding find_link_def by (intro answer_rules dump) (rule scan)
  show "answers anywhere S (new_connection E iface)" "answers anywhere S (device_list E)"
    "answers anywhere S (device_get E name)" "answers anywhere S (nl_send E (netlink_error iface) req)"
    "answers anywhere S (nl_send E (\<lambda>e. NetlinkError e iface) req)"
    unfolding new_connection_def device_list_def device_get_def nl_send_def
    by (rule answers_ext_call; simp add: netlink_error_def assms)+
qed

lemma answers_netlink_anywhere:
  assumes "500 \<in> S"
  shows "400 \<in> S \<Longrightarrow> answers anywhere S (ensure_wg_interface E iface pid mtu)"
    "answers anywhere S (list_managed_interfaces E)"
    "answers anywhere S (configure_local_address E iface address)"
    "400 \<in> S \<Longrightarrow> answers anywhere S (configure_peer E iface key port pubkey ep)"
    "answers anywhere S (listen_port_in_use E port exc)" "answers anywhere S (delete_interface E iface)"
proof -
  note rules = answer_rules answers_nl_query[OF assms]
  have managed: "err_status e \<in> S" if "managed_names ns ls = Inl e" for ns ls e
    using that assms
    by (induction ns ls rule: managed_names.induct) (auto simp: netlink_error_def split: if_splits option.splits)
  have uses: "answers anywhere S (any_device_uses E port exc names)" for names
    by (induction names) (auto intro!: rules)
  show "400 \<in> S \<Longrightarrow> answers anywhere S (ensure_wg_interface E iface pid mtu)"
    unfolding ensure_wg_interface_def
    by (intro rules) (auto simp: assms link_missing_def ok_or_def parse_interface_name_def split: option.splits if_splits)
  show "answers anywhere S (list_managed_interfaces E)"
    unfolding list_managed_interfaces_def by (intro rules) (rule managed)
  show "answers anywhere S (configure_local_address E iface address)"
    unfolding configure_local_address_def
    by (intro rules) (auto simp: assms link_missing_def ok_or_def split: option.splits)
  show "400 \<in> S \<Longrightarrow> answers anywhere S (configure_peer E iface key port pubkey ep)"
    unfolding configure_peer_def
    by (intro rules) (auto simp: ok_or_def parse_interface_name_def split: option.splits if_splits)
  show "answers anywhere S (listen_port_in_use E port exc)"
    unfolding listen_port_in_use_def by (intro rules uses)
  show "answers anywhere S (delete_interface E iface)"
    unfolding delete_interface_def by (intro rules)
qed

lemma answers_nft_batch:
  assumes "500 \<in> S"
  shows "answers anywhere S (run_nft_batch E batch)"
  using assms unfolding run_nft_batch_def
  by (intro answer_rules answersI) (auto simp: run_nft_batch_inner_def Let_def split: nft_outcome.splits prod.splits if_splits)

text \<open>BIRD: errors of the file system and of the conversation; the names of the files come from the rows.\<close>

definition iface_ok :: "peer \<Rightarrow> bool" where
  "iface_ok p = (p_iface_name p = ''wgp'' @ show_u32 (p_peer_id p))"

lemma desired_configs_ok:
  "\<forall>p\<in>set peers. iface_ok p \<Longrightarrow> \<exists>d. desired_configs E m peers desired = Inr d"
  by (induction peers arbitrary: desired) (simp_all add: iface_ok_def)

lemma answers_fs_io: "500 \<in> S \<Longrightarrow> answers anywhere S (fs_io E p q)"
  unfolding fs_io_def by (rule answers_ext_call) simp_all

lemma read_reply_error: "read_reply out ls = Inl e \<Longrightarrow> err_status e = 500"
proof (induction ls arbitrary: out)
  case (Cons l ls)
  then show ?case by (cases l) (auto split: if_splits)
qed auto

lemma answers_reload: "500 \<in> S \<Longrightarrow> answers anywhere S (reload_bird E m)"
  using read_reply_error
  by (intro answersI) (fastforce simp: reload_bird_def reload_bird_inner_def Let_def
      split: if_splits option.splits prod.splits)+

lemma answers_read_nanos: "answers I S (read_nanos E)"
  by (simp add: answers_def read_nanos_def)

lemmas bird_rules = answer_rules answers_read_nanos

lemma answers_bird_steps:
  assumes "500 \<in> S"
  shows "answers anywhere S (sync_directory E p)" "answers anywhere S (write_atomic E p content)"
    "answers anywhere S (remove_optional E p)" "answers anywhere S (switch_current E m target)"
    "answers anywhere S (collect_generation E gp names actual)" "answers anywhere S (generation_matches E gp desired)"
    "answers anywhere S (ensure_bird_layout E m)" "answers anywhere S (remove_old_generations E m c)"
    "answers anywhere S (write_generation E m d)"
proof -
  note fs = answers_fs_io[OF assms] answers_fs_io[OF UNIV_I]
  have fs500: "answers anywhere {500} (fs_io E p q)" for p and q :: "'b fs_call" by (rule answers_fs_io) simp
  have thrown: "answers anywhere S (throw e)" if "err_status e \<in> {500}" for e
    using that assms by (intro answer_rules) simp
  show dir: "answers anywhere S (sync_directory E p)" for p
    unfolding sync_directory_def by (intro bird_rules fs)
  show atomic: "answers anywhere S (write_atomic E p content)" for p content
    unfolding write_atomic_def Let_def by (intro bird_rules fs)
  show "answers anywhere S (remove_optional E p)"
    unfolding remove_optional_def
    by (rule answers_rethrow[OF fs500]) (auto intro!: bird_rules thrown)
  show switch: "answers anywhere S (switch_current E m target)" for target
    unfolding switch_current_def atomic_switch_current_def Let_def
    by (rule answers_and_then[OF answers_read_nanos], rule answers_and_then[OF fs(1)], rule answers_rethrow[OF fs500])
      (auto intro!: bird_rules fs thrown dir)
  show collect: "answers anywhere S (collect_generation E gp names actual)" for gp names actual
    by (induction names arbitrary: actual) (auto intro!: bird_rules fs)
  show "answers anywhere S (generation_matches E gp desired)"
    unfolding generation_matches_def
    by (rule answers_rethrow[OF fs500]) (auto intro!: bird_rules thrown collect)
  show "answers anywhere S (ensure_bird_layout E m)"
    unfolding ensure_bird_layout_def Let_def
    by (rule answers_and_then[OF fs(1)], rule answers_rethrow[OF fs500]) (auto intro!: bird_rules thrown switch)
  have "answers anywhere S (remove_generations E gens c names)" for gens names
    by (induction names) (auto intro!: bird_rules fs)
  then show "answers anywhere S (remove_old_generations E m c)"
    unfolding remove_old_generations_def by (intro bird_rules fs)
  show "answers anywhere S (write_generation E m d)"
    unfolding write_generation_def Let_def by (intro bird_rules fs atomic dir)
qed

lemma answers_bird_body:
  assumes "500 \<in> S" and names: "400 \<in> S \<or> (\<forall>p\<in>set peers. iface_ok p)"
  shows "answers anywhere S (sync_bird_locked E m peers force_reload)"
proof -
  note steps = answers_bird_steps[OF assms(1)] answers_bird_steps[OF UNIV_I]
  have configs: "err_status e \<in> S" if "desired_configs E m peers [] = Inl e" for e
  proof -
    have "err_status e = 400" if "desired_configs E m ps d = Inl e" for ps d
      using that by (induction ps arbitrary: d) (auto split: if_splits)
    moreover have "400 \<in> S" using names that desired_configs_ok by (metis Inl_Inr_False)
    ultimately show ?thesis using that by auto
  qed
  have reload: "answers anywhere S (reload_bird E m)" "answers anywhere UNIV (reload_bird E m)"
    "answers anywhere {500} (reload_bird E m)" using answers_reload assms(1) by auto
  have restore: "answers anywhere S (restore_generation E m old e)" if "err_status e \<in> {500}" for old e
    using that assms(1) unfolding restore_generation_def by (intro bird_rules steps reload; simp)
  have install: "answers anywhere S (install_generation E m name)" for name
    unfolding install_generation_def Let_def
    by (intro answers_rethrow[OF reload(3)] answers_and_then answers_attempt answers_fs_io[OF UNIV_I] steps)
      (auto intro!: steps restore)
  show ?thesis
    unfolding sync_bird_locked_def current_generation_matches_def
    by (intro bird_rules steps reload install configs)
qed

section \<open>The store\<close>

abbreviation ok :: "env \<Rightarrow> peer_manager \<Rightarrow> world \<Rightarrow> bool" where
  "ok E m \<equiv> typed m (b64_decode E)"

lemma yields_and_then:
  assumes "answers I UNIV m" "yields I Q m" "\<And>x. Q x \<Longrightarrow> yields I R (f x)"
  shows "yields I R (and_then m f)"
  unfolding yields_def and_then_Inr using assms answers_state unfolding yields_def by blast

lemma yields_simple: "Q x \<Longrightarrow> yields I Q (ret x)" "yields I Q (throw e)" "(\<And>x. r = Inr x \<Longrightarrow> Q x) \<Longrightarrow> yields I Q (lift_res r)"
  by (simp_all add: yields_def)

lemma yields_True: "yields I (\<lambda>_. True) m"
  by (simp add: yields_def)

lemma answers_execute:
  "stable E I \<Longrightarrow> (\<And>w. I w \<Longrightarrow> I (snd (q w))) \<Longrightarrow> 500 \<in> S \<Longrightarrow> answers I S (execute E q)"
  unfolding execute_def by (rule answers_ext_call) simp_all

lemma answers_acquire: "stable E I \<Longrightarrow> 500 \<in> S \<Longrightarrow> answers I S (acquire E)" "stable E I \<Longrightarrow> 500 \<in> S \<Longrightarrow> answers I S (tx_begin E)"
  unfolding acquire_def tx_begin_def by (rule answers_ext_call; simp)+

lemma yields_execute:
  assumes "stable E I" "\<And>w x. I w \<Longrightarrow> fst (q w) = Inr x \<Longrightarrow> Q x"
  shows "yields I Q (execute E q)"
  using assms unfolding yields_def stable_def execute_def by (metis ext_call_Inr fst_conv)

lemma answers_select:
  assumes "stable E I" "500 \<in> S" "\<And>w. I w \<Longrightarrow> Q (f w)" "\<And>x. Q x \<Longrightarrow> answers I S (k x)"
  shows "answers I S (and_then (acquire E) (\<lambda>_. and_then (execute E (sql_select f)) k))"
proof (rule answers_and_then[OF answers_acquire(1)[OF assms(1,2)]])
  show "answers I S (and_then (execute E (sql_select f)) k)"
  proof (rule answers_and_then_yields[OF _ yields_execute[OF assms(1)]])
    show "answers I S (execute E (sql_select f))" by (rule answers_execute[OF assms(1)]) (simp_all add: sql_select_def assms(2))
    show "fst (sql_select f w) = Inr x \<Longrightarrow> I w \<Longrightarrow> Q x" for w x using assms(3) by (auto simp: sql_select_def)
  qed (rule assms(4))
qed

lemma yields_select:
  assumes "stable E I" "\<And>w. I w \<Longrightarrow> Q (f w)" "\<And>x. Q x \<Longrightarrow> yields I R (k x)"
  shows "yields I R (and_then (acquire E) (\<lambda>_. and_then (execute E (sql_select f)) k))"
proof (rule yields_and_then[OF answers_acquire(1)[OF assms(1)] yields_True])
  show "yields I R (and_then (execute E (sql_select f)) k)"
  proof (rule yields_and_then[OF _ yields_execute[OF assms(1)]])
    show "answers I UNIV (execute E (sql_select f))" by (rule answers_execute[OF assms(1)]) (simp_all add: sql_select_def)
    show "fst (sql_select f w) = Inr x \<Longrightarrow> I w \<Longrightarrow> Q x" for w x using assms(2) by (auto simp: sql_select_def)
  qed (rule assms(3))
qed simp

lemma typed_found:
  assumes "typed m decode w" "find P (w_peers w) = Some r"
  shows "\<exists>p. row_to_peer decode r = Inr p \<and> peer_typed m decode p \<and> P r"
  using assms row_typedE by (metis find_Some_iff nth_mem typed_def)

lemma read_rows_answers:
  assumes "stable E (ok E m)" "500 \<in> S"
  shows "answers (ok E m) S (peer_exists E asn name)" "answers (ok E m) S (get_peer E asn name)"
    "answers (ok E m) S (get_peer_by_id E pid)" "answers (ok E m) S (list_peers E)"
    "answers (ok E m) S (get_peer_infos_by_asn E asn)" "answers (ok E m) S (list_peer_changes E)"
proof -
  note base = answer_rules answers_acquire[OF assms]
  show "answers (ok E m) S (peer_exists E asn name)"
    unfolding peer_exists_def by (intro base answers_execute assms) (simp add: sql_select_def)
  have read: "answers (ok E m) S (case row of None \<Rightarrow> ret None
      | Some r \<Rightarrow> and_then (lift_res (row_to_peer (b64_decode E) r)) (\<lambda>p. ret (Some p)))"
    if "\<forall>r. row = Some r \<longrightarrow> (\<exists>p. row_to_peer (b64_decode E) r = Inr p)" for row :: "peer_row option"
    using that by (intro base) auto
  have find: "answers (ok E m) S (and_then (acquire E) (\<lambda>_. and_then (execute E (sql_select (\<lambda>w. find P (w_peers w))))
      (\<lambda>row. case row of None \<Rightarrow> ret None
      | Some r \<Rightarrow> and_then (lift_res (row_to_peer (b64_decode E) r)) (\<lambda>p. ret (Some p)))))" for P
    by (rule answers_select[OF assms, where Q = "\<lambda>row. \<forall>r. row = Some r \<longrightarrow> (\<exists>p. row_to_peer (b64_decode E) r = Inr p)"])
      (use typed_found in blast, rule read)
  show "answers (ok E m) S (get_peer E asn name)" "answers (ok E m) S (get_peer_by_id E pid)"
    unfolding get_peer_def get_peer_by_id_def by (rule find)+
  show "answers (ok E m) S (list_peers E)"
    unfolding list_peers_def
  proof (rule answers_select[OF assms, where Q = "\<lambda>rows. \<forall>r\<in>set rows. row_typed m (b64_decode E) r"])
    show "\<forall>r\<in>set rows. row_typed m (b64_decode E) r \<Longrightarrow>
        answers (ok E m) S (lift_res (collect_results (row_to_peer (b64_decode E)) rows))" for rows
      using typed_rows_read[of rows m "b64_decode E"] by (intro base) auto
  qed (simp add: typed_def set_order_rows)
  show "answers (ok E m) S (get_peer_infos_by_asn E asn)"
    unfolding get_peer_infos_by_asn_def by (rule answers_select[OF assms, where Q = "\<lambda>_. True"]) (simp_all add: answer_rules)
  show "answers (ok E m) S (list_peer_changes E)"
    unfolding list_peer_changes_def
  proof (rule answers_select[OF assms, where Q = "\<lambda>rows. \<forall>r\<in>set rows. row_typed m (b64_decode E) r"])
    fix rows :: "event_row list" assume rows: "\<forall>r\<in>set rows. row_typed m (b64_decode E) r"
    let ?f = "\<lambda>row. res_bind (row_to_peer (b64_decode E) row) (\<lambda>p.
         Inr \<lparr>ch_event_id = ev_event_id row, ch_operation = ev_operation row, ch_peer = p\<rparr>) :: peer_error + peer_change"
    have "\<exists>cs. collect_results ?f rows = Inr cs" using rows
    proof (induction rows)
      case (Cons r rows)
      then obtain p where "row_to_peer (b64_decode E) r = Inr p" using row_typedE by (metis list.set_intros(1))
      with Cons show ?case by auto
    qed simp
    then show "answers (ok E m) S (lift_res (collect_results ?f rows))" by (intro base) auto
  qed (simp add: typed_def)
qed

lemma yields_get_peer:
  assumes "stable E (ok E m)"
  shows "yields (ok E m) (\<lambda>found. \<forall>p. found = Some p \<longrightarrow>
    peer_typed m (b64_decode E) p \<and> p_asn p = asn \<and> p_peer_name p = name) (get_peer E asn name)"
  unfolding get_peer_def
proof (rule yields_select[OF assms, where Q = "\<lambda>row. \<forall>r. row = Some r \<longrightarrow> identity_of r = (uint asn, name)
    \<and> (\<exists>p. row_to_peer (b64_decode E) r = Inr p \<and> peer_typed m (b64_decode E) p)"])
  show "\<forall>r. find (\<lambda>r. identity_of r = (uint asn, name)) (w_peers w) = Some r \<longrightarrow> identity_of r = (uint asn, name)
      \<and> (\<exists>p. row_to_peer (b64_decode E) r = Inr p \<and> peer_typed m (b64_decode E) p)" if "ok E m w" for w
    using typed_found[OF that] by blast
next
  fix row :: "peer_row option"
  assume row: "\<forall>r. row = Some r \<longrightarrow> identity_of r = (uint asn, name)
      \<and> (\<exists>p. row_to_peer (b64_decode E) r = Inr p \<and> peer_typed m (b64_decode E) p)"
  show "yields (ok E m) (\<lambda>found. \<forall>p. found = Some p \<longrightarrow> peer_typed m (b64_decode E) p \<and> p_asn p = asn \<and> p_peer_name p = name)
      (case row of None \<Rightarrow> ret None
       | Some r \<Rightarrow> and_then (lift_res (row_to_peer (b64_decode E) r)) (\<lambda>p. ret (Some p)))"
  proof (cases row)
    case None
    then show ?thesis by (simp add: yields_def)
  next
    case (Some r)
    with row obtain p where p: "identity_of r = (uint asn, name)" "row_to_peer (b64_decode E) r = Inr p"
      "peer_typed m (b64_decode E) p" by blast
    then have "p_asn p = asn" "p_peer_name p = name"
      using row_to_peer_fields(2,3)[OF p(2)] by (auto simp: identity_of_def)
    with p Some show ?thesis by (simp add: yields_def and_then_def)
  qed
qed

lemma yields_list_peers:
  assumes "stable E (ok E m)"
  shows "yields (ok E m) (\<lambda>peers. \<forall>p\<in>set peers. peer_typed m (b64_decode E) p) (list_peers E)"
  unfolding list_peers_def
proof (rule yields_select[OF assms, where Q = "\<lambda>rows. \<forall>r\<in>set rows. row_typed m (b64_decode E) r"])
  show "yields (ok E m) (\<lambda>peers. \<forall>p\<in>set peers. peer_typed m (b64_decode E) p)
      (lift_res (collect_results (row_to_peer (b64_decode E)) rows))"
    if "\<forall>r\<in>set rows. row_typed m (b64_decode E) r" for rows
    using typed_rows_read[OF that] by (auto simp: yields_def)
qed (simp add: typed_def)

section \<open>Writing rows\<close>

lemma typed_tick: "typed m decode (w\<lparr>w_tick := n\<rparr>) = typed m decode w"
  by (simp add: typed_def)

lemma answers_tx_call:
  assumes "\<And>w. typed m decode w \<Longrightarrow> typed m decode (snd (q w))" "500 \<in> S"
  shows "answers (typed m decode) S (tx_call E q)"
proof -
  have "stable (E\<lparr>interfere := \<lambda>_ w. w\<rparr>) (typed m decode)"
    using typed_tick[of m decode] by (simp add: stable_def await_quiet quiet_def)
  then show ?thesis unfolding tx_call_def[abs_def] by (rule answers_ext_call) (use assms in simp_all)
qed

lemma answers_transaction:
  assumes "test \<or> (\<forall>w. typed m decode w \<longrightarrow> typed m decode (snd (q w)))" "500 \<in> S"
  shows "answers (typed m decode) S (and_then (tx_execute E q) (\<lambda>(n, pending).
    and_then (if test then tx_rollback E else tx_commit E pending) (\<lambda>_. ret (g n))))"
proof (rule answers_and_then_yields[where Q = "\<lambda>(n, pending). test \<or> typed m decode pending"])
  have seq: "typed m decode (w\<lparr>w_event_seq := k\<rparr>) = typed m decode w" for w k by (simp add: typed_def)
  show "answers (typed m decode) S (tx_execute E q)"
    unfolding tx_execute_def by (rule answers_tx_call) (simp_all add: seq assms(2) split: prod.split sum.split)
  show "yields (typed m decode) (\<lambda>(n, pending). test \<or> typed m decode pending) (tx_execute E q)"
    unfolding yields_def
  proof (intro allI impI)
    fix w x w' assume w: "typed m decode w" "tx_execute E q w = (Inr x, w')"
    let ?w = "w\<lparr>w_tick := Suc (w_tick w)\<rparr>"
    have "\<exists>n. x = (n, snd (q ?w))"
      using w(2) unfolding tx_execute_def tx_call_run Let_def
      by (cases "q ?w"; cases "fst (q ?w)"; cases "db_fault E (w_tick w)") (auto simp: map_err_def)
    then show "case x of (n, pending) \<Rightarrow> test \<or> typed m decode pending"
      using assms(1) w(1) typed_tick[of m decode] by auto
  qed
  show "answers (typed m decode) S (case x of (n, pending) \<Rightarrow>
      and_then (if test then tx_rollback E else tx_commit E pending) (\<lambda>_. ret (g n)))"
    if "case x of (n, pending) \<Rightarrow> test \<or> typed m decode pending" for x
    using that unfolding tx_rollback_def tx_commit_def
    by (cases x) (auto intro!: answer_rules answers_tx_call assms(2) simp: typed_def)
qed

lemma write_rows_answers:
  assumes "stable E (ok E m)" "500 \<in> S"
  shows "answers (ok E m) S (insert_nonce E asn nonce t)" "answers (ok E m) S (consume_nonce E asn nonce t)"
    "test \<or> peer_typed m (b64_decode E) p \<Longrightarrow> answers (ok E m) S (db_reserve_peer E p test)"
    "answers (ok E m) S (allocate_peer_id E)"
    "peer_typed m (b64_decode E) p \<Longrightarrow> answers (ok E m) S (update_peer_desired E p)"
    "st \<in> {Provisioning, Active, Deleting, Disabled} \<Longrightarrow> answers (ok E m) S (set_status E pid st)"
    "answers (ok E m) S (db_delete_peer E pid)" "answers (ok E m) S (delete_peer_change E eid)"
proof -
  note base = answer_rules answers_acquire[OF assms] answers_execute[OF assms(1) _ assms(2)] typed_other
  show "answers (ok E m) S (insert_nonce E asn nonce t)" "answers (ok E m) S (consume_nonce E asn nonce t)"
    unfolding insert_nonce_def consume_nonce_def by (intro base; assumption)+
  show "answers (ok E m) S (db_delete_peer E pid)" "answers (ok E m) S (delete_peer_change E eid)"
    unfolding db_delete_peer_def delete_peer_change_def by (intro base typed_delete; assumption)+
  show "answers (ok E m) S (db_reserve_peer E p test)" if "test \<or> peer_typed m (b64_decode E) p"
    unfolding db_reserve_peer_def
    by (intro answers_and_then answers_acquire[OF assms] answer_rules(3) answers_transaction[OF _ assms(2)])
      (use that typed_insert row_typed_reserved in blast)
  show "answers (ok E m) S (set_status E pid st)" if "st \<in> {Provisioning, Active, Deleting, Disabled}"
    unfolding set_status_def using that
    by (intro base typed_update row_typed_mark) (auto simp: known_status_def)
  show "answers (ok E m) S (allocate_peer_id E)"
    unfolding allocate_peer_id_def
  proof (rule answers_and_then[OF answers_acquire(1)[OF assms]], rule answers_and_then_yields[OF _ yields_execute[OF assms(1)]])
    show "answers (ok E m) S (execute E sql_nextval_peer_id)" by (intro base)
    show "fst (sql_nextval_peer_id w) = Inr x \<Longrightarrow> ok E m w \<Longrightarrow> in_word_range 32 x" for w x
      by (auto simp: sql_nextval_peer_id_def typed_def in_word_range_def split: if_splits)
  qed (simp add: answer_rules)
  show "answers (ok E m) S (update_peer_desired E p)" if "peer_typed m (b64_decode E) p"
    unfolding update_peer_desired_def by (intro base typed_update row_typed_desired that; assumption)
qed

section \<open>The manager\<close>

lemma answers_netlink:
  assumes "stable E (ok E m)" "500 \<in> S"
  shows "400 \<in> S \<Longrightarrow> answers (ok E m) S (ensure_wg_interface E iface pid mtu)"
    "answers (ok E m) S (list_managed_interfaces E)"
    "answers (ok E m) S (configure_local_address E iface address)"
    "400 \<in> S \<Longrightarrow> answers (ok E m) S (configure_peer E iface key port pubkey ep)"
    "answers (ok E m) S (listen_port_in_use E port exc)" "answers (ok E m) S (delete_interface E iface)"
proof -
  note P = netlink_preserves[OF assms(1) typed_about beside_kernel_views(1)] and A = answers_netlink_anywhere[OF assms(2)]
  show "answers (ok E m) S (list_managed_interfaces E)" by (rule answers_split[OF P(2) A(2)])
  show "answers (ok E m) S (configure_local_address E iface address)" by (rule answers_split[OF P(3) A(3)])
  show "answers (ok E m) S (listen_port_in_use E port exc)" by (rule answers_split[OF P(5) A(5)])
  show "answers (ok E m) S (delete_interface E iface)" by (rule answers_split[OF P(6) A(6)])
  assume "400 \<in> S"
  then show "answers (ok E m) S (ensure_wg_interface E iface pid mtu)"
    "answers (ok E m) S (configure_peer E iface key port pubkey ep)"
    by (rule answers_split[OF P(1) A(1)], rule answers_split[OF P(4) A(4)])
qed

lemma answers_sync:
  assumes "stable E (ok E m)" "500 \<in> S"
  shows "answers (ok E m) S (sync_nft_ports_for E peers)" "answers (ok E m) S (sync_nft_ports E)"
    "400 \<in> S \<or> (\<forall>p\<in>set peers. peer_typed m (b64_decode E) p) \<Longrightarrow>
       answers (ok E m) S (sync_bird_configs_for E m' peers force_reload)"
    "answers (ok E m) S (sync_bird_configs E m')"
proof -
  note locked = answers_with_lock[OF assms(1) typed_lock_free]
  show nft: "answers (ok E m) S (sync_nft_ports_for E peers)" for peers
    unfolding sync_nft_ports_for_def
    by (rule locked, rule answers_split[OF preserves_run_nft_batch[OF assms(1) typed_about beside_nft_views(1)]
          answers_nft_batch[OF assms(2)]])
  show "answers (ok E m) S (sync_nft_ports E)"
    unfolding sync_nft_ports_def by (intro answers_and_then read_rows_answers assms nft)
  have names: "iface_ok p" if "peer_typed m (b64_decode E) p" for p
    using that by (simp add: peer_typed_def iface_ok_def)
  show bird: "answers (ok E m) S (sync_bird_configs_for E m' peers force_reload)"
    if "400 \<in> S \<or> (\<forall>p\<in>set peers. peer_typed m (b64_decode E) p)" for peers force_reload
    unfolding sync_bird_configs_for_def
    by (rule locked, rule answers_split[OF bird_preserves(3)[OF assms(1) typed_about beside_fs_views(1)]
          answers_bird_body[OF assms(2)]]) (use that names in blast)
  show "answers (ok E m) S (sync_bird_configs E m')"
    unfolding sync_bird_configs_def
    by (rule answers_and_then_yields[OF read_rows_answers(4)[OF assms] yields_list_peers[OF assms(1)]])
      (intro bird disjI2)
qed

lemma answers_external:
  assumes "stable E (ok E m)" "500 \<in> S"
  shows "400 \<in> S \<Longrightarrow> answers (ok E m) S (apply_wireguard E m p)"
    "400 \<in> S \<Longrightarrow> answers (ok E m) S (apply_peer E m p)" "answers (ok E m) S (remove_external_state E m p)"
    "answers (ok E m) S (compensate_failed_create E m p)"
    "peer_typed m (b64_decode E) p \<Longrightarrow> answers (ok E m) S (compensate_failed_update E m p)"
    "answers (ok E m) S (restore_deleted E m p)"
proof -
  note any = UNIV_I[of 500] UNIV_I[of 400]
  note rules = answer_rules answers_netlink[OF assms] answers_sync[OF assms]
  note loose = answer_rules answers_sync[OF assms(1) UNIV_I] write_rows_answers[OF assms(1) UNIV_I]
  have endpoint: "answers (ok E m) S (resolve_endpoint E e)" if "400 \<in> S" for S e
    using that assms(1) unfolding resolve_endpoint_def answers_def stable_def
    by (auto split: dns_result.splits list.splits)
  have wg: "answers (ok E m) S (apply_wireguard E m p)" if "400 \<in> S" "500 \<in> S" for S p
    unfolding apply_wireguard_def
    by (intro answer_rules answers_netlink[OF assms(1) that(2)] that endpoint)
  have app: "answers (ok E m) S (apply_peer E m p)" if "400 \<in> S" "500 \<in> S" for S p
    unfolding apply_peer_def by (intro answers_and_then wg that answers_sync[OF assms(1)])
  have rem: "answers (ok E m) S (remove_external_state E m p)" if "500 \<in> S" for S p
    unfolding remove_external_state_def
    by (intro answers_and_then answers_netlink[OF assms(1) that] answers_sync[OF assms(1) that])
  show "400 \<in> S \<Longrightarrow> answers (ok E m) S (apply_wireguard E m p)" by (rule wg[OF _ assms(2)])
  show "400 \<in> S \<Longrightarrow> answers (ok E m) S (apply_peer E m p)" by (rule app[OF _ assms(2)])
  show "answers (ok E m) S (remove_external_state E m p)" by (rule rem[OF assms(2)])
  show "answers (ok E m) S (compensate_failed_create E m p)"
    unfolding compensate_failed_create_def by (intro loose rem any; simp)
  show "answers (ok E m) S (compensate_failed_update E m p)" if "peer_typed m (b64_decode E) p"
    unfolding compensate_failed_update_def by (intro loose app any that; simp)
  show "answers (ok E m) S (restore_deleted E m p)"
    unfolding restore_deleted_def by (intro loose app any; simp)
qed

lemma answers_found_or: "404 \<in> S \<Longrightarrow> answers I S (found_or b asn name)"
  unfolding found_or_def by (intro answer_rules) simp

text \<open>A peer that is built from validated fields for another ASN is typed.\<close>

definition pair_ok :: "(ipv6_addr \<times> ipv6_addr) option \<Rightarrow> bool" where
  "pair_ok ll = (case ll of None \<Rightarrow> True | Some (a, b) \<Rightarrow> ll_pair a b)"

lemma automatic_pair: "asn \<noteq> asn' \<Longrightarrow> ll_pair (asn_link_local asn') (asn_link_local asn)"
  using asn_link_local_injective[of asn' asn] asn_link_local_injective[of asn asn'] by (simp add: ll_pair_def)

lemma chosen_pair:
  "asn \<noteq> local_asn m \<Longrightarrow> pair_ok ll \<Longrightarrow>
   (case (case ll of None \<Rightarrow> (asn_link_local (local_asn m), asn_link_local asn) | Some pair \<Rightarrow> pair) of (a, b) \<Rightarrow> ll_pair a b)"
  by (cases ll) (simp_all add: pair_ok_def automatic_pair)

lemma probe_port_range: "20000 \<le> unat (probe_port asn i) \<and> unat (probe_port asn i) < 30000"
proof -
  have "unat ((asn mod 10000 + i) mod 10000) < 10000" by (simp add: unat_mod_distrib)
  then show ?thesis by (simp add: probe_port_def Let_def unat_word_ariths unat_ucast16)
qed

lemma built_peer_typed:
  assumes "asn \<noteq> local_asn m" "uint pid < 2 ^ 31" "peer_name_ok name" "valid_pubkey decode key"
    and "case pair of (a, b) \<Rightarrow> ll_pair a b"
  shows "peer_typed m decode (build_peer pid asn name key ep pair (probe_port asn i) mtu)"
proof -
  have "int 20000 \<le> int (unat (probe_port asn i))" "int (unat (probe_port asn i)) < int 30000"
    using probe_port_range[of asn i] by (simp_all only: of_nat_le_iff of_nat_less_iff)
  then have "20000 \<le> uint (probe_port asn i)" "uint (probe_port asn i) < 30000"
    by (simp_all only: uint_nat of_nat_numeral)
  with assms show ?thesis unfolding peer_typed_def storable_def build_peer_def
    by (cases pair) (auto simp only: peer.select_convs fst_conv snd_conv prod.case)
qed

lemma yields_allocate:
  assumes "stable E (ok E m)"
  shows "yields (ok E m) (\<lambda>pid. uint pid < 2 ^ 31) (allocate_peer_id E)"
  unfolding allocate_peer_id_def
proof (rule yields_and_then[OF answers_acquire(1)[OF assms UNIV_I] yields_True],
    rule yields_and_then[OF answers_execute[OF assms typed_other(5) UNIV_I] yields_execute[OF assms]])
  show "fst (sql_nextval_peer_id w) = Inr x \<Longrightarrow> ok E m w \<Longrightarrow> 0 \<le> x \<and> x < 2 ^ 31" for w x
    by (auto simp: sql_nextval_peer_id_def typed_def split: if_splits)
  show "yields (ok E m) (\<lambda>pid :: u32. uint pid < 2 ^ 31)
      (if in_word_range 32 x then ret (of_int x) else throw (Validation ''The peer ID sequence is exhausted''))"
    if "0 \<le> x \<and> x < 2 ^ 31" for x
    using that by (simp add: yields_def in_word_range_def unsigned_of_int take_bit_int_eq_self)
qed

lemma answers_reserve:
  assumes "stable E (ok E m)" "{400, 409, 500} \<subseteq> S" "valid_pubkey (b64_decode E) key" "peer_name_ok name" "pair_ok ll"
  shows "answers (ok E m) S (reserve_peer E m asn name key ep ll mtu)"
proof -
  have S: "400 \<in> S" "409 \<in> S" "500 \<in> S" using assms(2) by auto
  note rules = answer_rules answers_netlink[OF assms(1) S(3)] read_rows_answers[OF assms(1) S(3)]
  let ?pair = "case ll of None \<Rightarrow> (asn_link_local (local_asn m), asn_link_local asn) | Some pair \<Rightarrow> pair"
  have loop: "answers (ok E m) S (reserve_loop E m pid asn name key ep ?pair mtu is)" if pid: "uint pid < 2 ^ 31" for pid "is"
  proof (induction "is")
    case (Cons i "is")
    have "asn = local_asn m \<or> peer_typed m (b64_decode E) (build_peer pid asn name key ep ?pair (probe_port asn i) mtu)"
      using built_peer_typed[OF _ pid assms(4,3) chosen_pair[OF _ assms(5)]] by blast
    note reserve = write_rows_answers(3)[OF assms(1) S(3) this]
    show ?case unfolding reserve_loop.simps Let_def by (intro rules reserve Cons) (simp add: S)
  qed (auto intro!: answer_rules simp: S)
  show ?thesis
    unfolding reserve_peer_def Let_def
    by (rule answers_and_then_yields[OF write_rows_answers(4)[OF assms(1) S(3)] yields_allocate[OF assms(1)]])
      (rule loop)
qed

lemma answers_create:
  assumes "stable E (ok E m)" "valid_pubkey (b64_decode E) key" "peer_name_ok name" "pair_ok ll"
  shows "answers (ok E m) {400, 404, 409, 500} (create_peer E m asn name key ep ll mtu)"
proof -
  let ?S = "{400, 404, 409, 500} :: nat set"
  have S: "500 \<in> ?S" "400 \<in> ?S" "404 \<in> ?S" by simp_all
  note locked = answers_with_lock[OF assms(1) typed_lock_free]
  note undo = answers_external(4)[OF assms(1) S(1)]
  have undone: "answers (ok E m) ?S (and_then (compensate_failed_create E m p) (\<lambda>_. throw e))"
    if "err_status e \<in> ?S" for p and e
    using that by (intro answers_and_then undo answer_rules)
  have res: "answers (ok E m) ?S (reserve_peer E m asn name key ep ll mtu')" for mtu'
    by (rule answers_reserve[OF assms(1) _ assms(2-4)]) simp
  have activated: "answers (ok E m) ?S (and_then (attempt (set_status E (p_peer_id p) Active)) (\<lambda>activated.
      case activated of
        Inl error \<Rightarrow> and_then (compensate_failed_create E m p) (\<lambda>_. throw error)
      | Inr found \<Rightarrow> if found then ret (p\<lparr>p_status := Active\<rparr>)
          else and_then (compensate_failed_create E m p) (\<lambda>_. throw (NotFound asn (p_peer_name p)))))" for p
    by (rule answers_rethrow[OF write_rows_answers(6)[OF assms(1) S(1)]]) (auto intro!: answer_rules(1) undone)
  have opened: "answers (ok E m) ?S (and_then (attempt (sync_nft_ports E)) (\<lambda>synced. case synced of
        Inl error \<Rightarrow> and_then (compensate_failed_create E m p) (\<lambda>_. throw error) | Inr _ \<Rightarrow> k))"
    if "answers (ok E m) ?S k" for p and k :: "peer io"
    by (rule answers_rethrow[OF answers_sync(2)[OF assms(1) S(1)]]) (use that in \<open>auto intro!: undone\<close>)
  have applied: "answers (ok E m) ?S (and_then (attempt (apply_peer E m p)) (\<lambda>applied. case applied of
        Inl error \<Rightarrow> and_then (compensate_failed_create E m p) (\<lambda>_. throw error) | Inr _ \<Rightarrow> k))"
    if "answers (ok E m) ?S k" for p and k :: "peer io"
    by (rule answers_rethrow[OF answers_external(2)[OF assms(1) S(1,2)]]) (use that in \<open>auto intro!: undone\<close>)
  show ?thesis
    unfolding create_peer_def
    by (rule locked, rule answers_and_then[OF read_rows_answers(1)[OF assms(1) S(1)]],
        rule answers_if[OF answer_rules(2)], simp, rule answers_and_then[OF locked[OF res]],
        rule answers_if[OF answer_rules(1)]) (intro applied opened activated)
qed

lemma answers_update:
  assumes "stable E (ok E m)" "valid_pubkey (b64_decode E) key" "pair_ok ll"
  shows "answers (ok E m) {400, 404, 500} (update_peer E m asn name key uep ll umtu)"
proof -
  let ?S = "{400, 404, 500} :: nat set"
  have S: "500 \<in> ?S" "400 \<in> ?S" "404 \<in> ?S" by simp_all
  note locked = answers_with_lock[OF assms(1) typed_lock_free]
  have desired: "peer_typed m (b64_decode E) (desired_peer m old key uep ll umtu asn)"
    if "peer_typed m (b64_decode E) old" "p_asn old = asn" for old
    using that assms(2,3) automatic_pair[of asn "local_asn m"]
    by (cases ll) (auto simp: peer_typed_def storable_def desired_peer_def pair_ok_def)
  have changed: "answers (ok E m) ?S (and_then (attempt (apply_peer E m d)) (\<lambda>applied. case applied of
        Inl error \<Rightarrow> and_then (compensate_failed_update E m old) (\<lambda>_. throw error) | Inr _ \<Rightarrow> k))"
    if "peer_typed m (b64_decode E) old" "answers (ok E m) ?S k" for old d and k :: "peer io"
    by (rule answers_rethrow[OF answers_external(2)[OF assms(1) S(1,2)]])
      (use that(2) in \<open>auto intro!: answers_and_then answers_external(5)[OF assms(1) S(1)] answer_rules(2) that(1)\<close>)
  have settled: "answers (ok E m) ?S (and_then (set_status E pid Active) (\<lambda>activated.
      and_then (found_or activated asn name) (\<lambda>_. ret p)))" for pid and p :: peer
    by (intro answers_and_then write_rows_answers(6)[OF assms(1) S(1)] answers_found_or answer_rules(1)) simp_all
  have body: "answers (ok E m) ?S (let desired = desired_peer m old key uep ll umtu asn in
        and_then (update_peer_desired E desired) (\<lambda>found.
        and_then (found_or found asn name) (\<lambda>_.
        and_then (attempt (apply_peer E m desired)) (\<lambda>applied.
        case applied of
          Inl error \<Rightarrow> and_then (compensate_failed_update E m old) (\<lambda>_. throw error)
        | Inr _ \<Rightarrow>
            and_then (set_status E (p_peer_id desired) Active) (\<lambda>activated.
            and_then (found_or activated asn name) (\<lambda>_.
            ret (desired\<lparr>p_status := Active\<rparr>)))))))"
    if "peer_typed m (b64_decode E) old" "p_asn old = asn" for old
    unfolding Let_def
    by (intro answers_and_then write_rows_answers(5)[OF assms(1) S(1) desired[OF that]] answers_found_or S
        changed[OF that(1)] settled)
  show ?thesis
    unfolding update_peer_def
  proof (rule locked, rule answers_and_then_yields[OF read_rows_answers(2)[OF assms(1) S(1)] yields_get_peer[OF assms(1)]])
    fix found assume found: "\<forall>p. found = Some p \<longrightarrow>
      peer_typed m (b64_decode E) p \<and> p_asn p = asn \<and> p_peer_name p = name"
    show "answers (ok E m) ?S (and_then (lift_res (ok_or (NotFound asn name) found)) (\<lambda>old.
        if p_status old = Deleting then throw (NotFound asn name)
        else (let desired = desired_peer m old key uep ll umtu asn in
        and_then (update_peer_desired E desired) (\<lambda>found.
        and_then (found_or found asn name) (\<lambda>_.
        and_then (attempt (apply_peer E m desired)) (\<lambda>applied.
        case applied of
          Inl error \<Rightarrow> and_then (compensate_failed_update E m old) (\<lambda>_. throw error)
        | Inr _ \<Rightarrow>
            and_then (set_status E (p_peer_id desired) Active) (\<lambda>activated.
            and_then (found_or activated asn name) (\<lambda>_.
            ret (desired\<lparr>p_status := Active\<rparr>)))))))))"
    proof (cases found)
      case None
      then show ?thesis by (simp add: ok_or_def and_then_lift answer_rules)
    next
      case (Some old)
      then show ?thesis using found body[of old]
        by (simp only: ok_or_def option.case and_then_lift) (intro answers_if answer_rules(2), simp_all)
    qed
  qed
qed

lemma answers_delete:
  assumes "stable E (ok E m)"
  shows "answers (ok E m) {404, 500} (delete_peer E m asn name)"
proof -
  let ?S = "{404, 500} :: nat set"
  have S: "500 \<in> ?S" "404 \<in> ?S" by simp_all
  note locked = answers_with_lock[OF assms typed_lock_free] and writes = write_rows_answers[OF assms S(1)]
  have reopened: "answers (ok E m) ?S (and_then (attempt (sync_nft_ports E)) (\<lambda>synced. case synced of
        Inl error \<Rightarrow> and_then (attempt (set_status E pid Active)) (\<lambda>_. throw error) | Inr _ \<Rightarrow> k))"
    if "answers (ok E m) ?S k" for pid and k :: "peer io"
    by (rule answers_rethrow[OF answers_sync(2)[OF assms S(1)]])
      (use that in \<open>auto intro!: answers_and_then answers_attempt write_rows_answers(6)[OF assms] answer_rules(2)\<close>)
  have removed: "answers (ok E m) ?S (and_then (attempt (remove_external_state E m p)) (\<lambda>removed. case removed of
        Inl error \<Rightarrow> and_then (restore_deleted E m p) (\<lambda>_. throw error) | Inr _ \<Rightarrow> k))"
    if "answers (ok E m) ?S k" for p and k :: "peer io"
    by (rule answers_rethrow[OF answers_external(3)[OF assms S(1)]])
      (use that in \<open>auto intro!: answers_and_then answers_external(6)[OF assms] answer_rules(2)\<close>)
  have absent: "answers (ok E m) ?S (lift_res (ok_or (NotFound asn name) found))" for found :: "peer option"
    by (rule answer_rules) (auto simp: ok_or_def split: option.splits)
  show ?thesis
    unfolding delete_peer_def
    by (intro locked answers_and_then read_rows_answers(2)[OF assms S(1)] absent writes answers_found_or S reopened removed
        answer_rules(1)) simp
qed

text \<open>Recovery and the job of pending changes: any error, but typed tables.\<close>

lemma answers_recover:
  assumes "stable E (ok E m)"
  shows "answers (ok E m) UNIV (recover E m)"
proof -
  note locked = answers_with_lock[OF assms typed_lock_free]
  note rules = answer_rules locked read_rows_answers[OF assms UNIV_I] write_rows_answers[OF assms UNIV_I]
    answers_netlink[OF assms UNIV_I] answers_sync[OF assms UNIV_I] answers_external[OF assms UNIV_I] answers_found_or
  show ?thesis
    unfolding recover_def delete_unlisted_def delete_changed_def finish_delete_def activate_def Let_def
    by (intro rules; simp)
qed

lemma answers_pending:
  assumes "stable E (ok E m)"
  shows "answers (ok E m) UNIV (sync_pending_peer_changes E m)"
proof -
  note locked = answers_with_lock[OF assms typed_lock_free]
  note rules = answer_rules locked read_rows_answers[OF assms UNIV_I] write_rows_answers[OF assms UNIV_I]
    answers_netlink[OF assms UNIV_I] answers_sync[OF assms UNIV_I] answers_external[OF assms UNIV_I] answers_found_or
  have change: "answers (ok E m) UNIV (apply_peer_change E m c)" for c
    unfolding apply_peer_change_def finish_delete_def Let_def by (intro rules; simp)
  have "answers (ok E m) UNIV (sync_changes E m changes err)" for changes err
    by (induction changes arbitrary: err) (auto intro!: rules change)
  then show ?thesis unfolding sync_pending_peer_changes_def by (intro rules; simp)
qed

section \<open>The handlers\<close>

lemma typed_permits: "typed m decode (w\<lparr>w_permits := n\<rparr>) = typed m decode w"
  by (simp add: typed_def)

lemma answers_with_permit:
  assumes "answers (typed m decode) S b" "503 \<in> S"
  shows "answers (typed m decode) S (with_permit b)"
  using assms unfolding answers_def with_permit_def
  by (auto simp: typed_permits split: prod.splits) (metis typed_permits)+

lemma answers_registry_check:
  assumes "stable E I" "503 \<in> S"
  shows "answers I S (registry_check E a asn key)"
proof (rule answers_split[OF preserves_registry_check[OF assms(1)]])
  show "answers anywhere S (registry_check E a asn key)"
    using assms(2) by (intro answersI) (auto simp: registry_check_def split: prod.splits if_splits sum.splits option.splits)
qed

lemma res_bind_Inl: "res_bind r f = Inl e \<longleftrightarrow> r = Inl e \<or> (\<exists>x. r = Inr x \<and> f x = Inl e)"
  by (cases r) simp_all

lemma answers_authorize:
  assumes "stable E (ok E m)"
  shows "answers (ok E m) {400, 403, 500, 503} (authorize_request E a asn key sig nonce t msg)"
proof -
  let ?S = "{400, 403, 500, 503} :: nat set"
  have S: "500 \<in> ?S" by simp
  have sig: "err_status e \<in> ?S" if "verify_signature E key sig msg = Inl e" for e
    using that by (auto simp: verify_signature_def res_bind_Inl map_err_def split: if_splits sum.splits option.splits)
  show ?thesis
    unfolding authorize_request_def
    by (intro answer_rules answers_with_permit write_rows_answers(2)[OF assms S] answers_registry_check assms) (auto dest!: sig)
qed

lemma answers_issue:
  assumes "stable E (ok E m)"
  shows "answers (ok E m) {403, 500} (issue_challenge E asn)"
proof -
  have "answers (ok E m) {403, 500} (issue_attempts E asn t k)" for t k
  proof (induction k)
    case (Suc k)
    have "answers (ok E m) {403, 500} (and_then (insert_nonce E asn nonce t) (\<lambda>inserted.
        if inserted then ret (nonce, t) else issue_attempts E asn t k))" for nonce
      by (intro answer_rules write_rows_answers(1)[OF assms] Suc) simp
    then show ?case by (simp add: answers_def Let_def)
  qed (auto intro!: answer_rules)
  then show ?thesis unfolding issue_challenge_def by (intro answer_rules)
qed

text \<open>The keys of a request were validated when it was deserialized (\<open>WgPubKey::try_from\<close>).\<close>

fun keys_valid :: "env \<Rightarrow> api_request \<Rightarrow> bool" where
  "keys_valid E (CreateApi r) = valid_pubkey (b64_decode E) (cr_pubkey r)"
| "keys_valid E (UpdateApi r) = valid_pubkey (b64_decode E) (up_pubkey r)"
| "keys_valid E (DeleteApi r) = True"

lemma accepted_pair: "parse_link_local manual l r = Inr ll \<Longrightarrow> pair_ok ll"
  by (auto simp: parse_link_local_spec pair_ok_def ll_pair_def split: if_splits)

lemma validation_status:
  "parse_peer_name s = Inl e \<Longrightarrow> err_status e = 400"
  "parse_endpoint E ep = Inl e \<Longrightarrow> err_status e = 400"
  "parse_link_local manual l r = Inl e \<Longrightarrow> err_status e = 400"
proof -
  show "parse_peer_name s = Inl e \<Longrightarrow> err_status e = 400" by (auto simp: parse_peer_name_def Let_def split: if_splits)
  show "parse_endpoint E ep = Inl e \<Longrightarrow> err_status e = 400"
    by (auto simp: parse_endpoint_def parse_endpoint_value_def Let_def res_bind_Inl ok_or_def split: option.splits if_splits)
  have "parse_link_local_address name v = Inl e \<Longrightarrow> err_status e = 400" for name v
    by (auto simp: parse_link_local_address_def res_bind_Inl ok_or_def split: option.splits if_splits)
  then show "parse_link_local manual l r = Inl e \<Longrightarrow> err_status e = 400"
    by (auto simp: parse_link_local_def res_bind_Inl split: if_splits)
qed

text \<open>What validation guarantees of the content of a request.\<close>

fun content_ok :: "b64_decoder \<Rightarrow> signed_request \<Rightarrow> bool" where
  "content_ok decode (CreateRequest asn name key ep ll mtu nonce t) =
     (valid_pubkey decode key \<and> peer_name_ok name \<and> pair_ok ll)"
| "content_ok decode (UpdateRequest asn name key ep ll mtu nonce t) = (valid_pubkey decode key \<and> pair_ok ll)"
| "content_ok decode (DeleteRequest asn name nonce t) = True"

fun perform_statuses :: "signed_request \<Rightarrow> nat set" where
  "perform_statuses (CreateRequest asn name key ep ll mtu nonce t) = {400, 404, 409, 500}"
| "perform_statuses (UpdateRequest asn name key ep ll mtu nonce t) = {400, 404, 500}"
| "perform_statuses (DeleteRequest asn name nonce t) = {404, 500}"

fun failure_statuses :: "api_request \<Rightarrow> nat set" where
  "failure_statuses (CreateApi r) = {400, 403, 404, 409, 500, 503}"
| "failure_statuses (UpdateApi r) = {400, 403, 404, 500, 503}"
| "failure_statuses (DeleteApi r) = {400, 403, 404, 500, 503}"

lemma signed_form_content:
  "keys_valid E r \<Longrightarrow> signed_form E r = Inr sr \<Longrightarrow> content_ok (b64_decode E) sr"
  by (cases r) (auto simp: res_bind_Inr parse_peer_name_iff peer_name_trim accepted_pair)

lemma signed_form_error: "signed_form E r = Inl e \<Longrightarrow> err_status e = 400"
  by (cases r) (auto simp: res_bind_Inl dest: validation_status split: option.splits)

lemma signed_form_statuses: "signed_form E r = Inr sr \<Longrightarrow> perform_statuses sr \<subseteq> failure_statuses r"
  by (cases r) (auto simp: res_bind_Inr)

lemma answers_perform:
  assumes "stable E (ok E m)" "content_ok (b64_decode E) sr"
  shows "answers (ok E m) (perform_statuses sr) (perform E m sr)"
  using assms(2) by (cases sr) (simp_all add: answers_create answers_update answers_delete assms(1))

lemma answers_request:
  assumes "stable E (ok E (st_manager st))" "keys_valid E r"
  shows "answers (ok E (st_manager st)) (failure_statuses r) (run_request E st r)"
  unfolding run_request_shape
proof (rule answers_and_then_yields[where Q = "\<lambda>sr. signed_form E r = Inr sr"])
  show "answers (ok E (st_manager st)) (failure_statuses r) (lift_res (signed_form E r))"
    by (rule answer_rules) (use signed_form_error in \<open>cases r; fastforce\<close>)
  fix sr assume sr: "signed_form E r = Inr sr"
  have auth: "answers (ok E (st_manager st)) (failure_statuses r) (authorize E st (api_asn r) (api_challenge r) (signing_message sr))"
    unfolding authorize_def by (rule answers_mono[OF answers_authorize[OF assms(1)]]) (cases r; simp)
  have perf: "answers (ok E (st_manager st)) (failure_statuses r) (perform E (st_manager st) sr)"
    by (rule answers_mono[OF answers_perform[OF assms(1) signed_form_content[OF assms(2) sr]] signed_form_statuses[OF sr]])
  show "answers (ok E (st_manager st)) (failure_statuses r)
      (and_then (authorize E st (api_asn r) (api_challenge r) (signing_message sr)) (\<lambda>_.
       and_then (perform E (st_manager st) sr) (\<lambda>p. ret (respond (st_manager st) sr p))))"
    by (intro answers_and_then auth perf answer_rules(1))
qed (simp add: yields_def)

fun task_ok :: "env \<Rightarrow> task \<Rightarrow> bool" where
  "task_ok E (Request r) = keys_valid E r"
| "task_ok E t = True"

text \<open>
  C15. Every row that the service writes is of its type: the id fits the column, the interface is named
  after it, the name is one that the API accepts, the key is valid, the two link-local addresses
  lie in \<open>fe80::/10\<close> and differ, the port is one of the search, the status is known, the peer is not the service's own.
  No request, background job or recovery leaves a row, or a change event, of another kind, under any faults
  and any interference of tasks that keep to it; and every such row reads back.
\<close>

theorem tables_stay_typed:
  assumes "stable E (typed (st_manager st) (b64_decode E))" "task_ok E t" "typed (st_manager st) (b64_decode E) w"
  shows "typed (st_manager st) (b64_decode E) (snd (run_task E st t w))
    \<and> (\<exists>peers. collect_results (row_to_peer (b64_decode E)) (w_peers (snd (run_task E st t w))) = Inr peers
         \<and> list_all (peer_typed (st_manager st) (b64_decode E)) peers)"
proof -
  have "answers (ok E (st_manager st)) UNIV (run_task E st t)"
  proof (cases t)
    case (Request r)
    then show ?thesis using assms(2) answers_mono[OF answers_request[OF assms(1)]]
      by (auto intro!: answers_and_then answer_rules(1))
  next
    case (NewChallenge asn)
    then show ?thesis using answers_mono[OF answers_issue[OF assms(1)]]
      by (auto simp: handle_create_challenge_def intro!: answer_rules)
  next
    case (GetPeers asn)
    then show ?thesis using read_rows_answers(5)[OF assms(1) UNIV_I]
      by (auto simp: handle_get_peers_def manager_get_peer_infos_by_asn_def intro!: answer_rules)
  next
    case ReconcilePorts
    then show ?thesis using answers_sync(2)[OF assms(1) UNIV_I] by simp
  qed (simp_all add: answers_recover answers_pending assms(1))
  then have typed: "typed (st_manager st) (b64_decode E) (snd (run_task E st t w))"
    using assms(3) answers_state by (metis prod.collapse)
  then have "\<forall>r\<in>set (w_peers (snd (run_task E st t w))). row_typed (st_manager st) (b64_decode E) r"
    by (simp add: typed_def)
  from typed_rows_read[OF this] typed show ?thesis by (auto simp: list_all_iff)
qed

lemma sample_row_typed: "row_typed (st_manager sample_state) (b64_decode sample_env) (reserved_row sample_peer 9)"
proof (rule row_typed_reserved)
  have "peer_name_ok (p_peer_name sample_peer)"
    by (simp add: sample_peer_def peer_name_ok_def name_char_def is_ascii_lowercase_def is_ascii_digit_def byte_def)
  moreover have "p_iface_name sample_peer = ''wgp'' @ show_u32 (p_peer_id sample_peer)"
    unfolding sample_peer_def by code_simp
  moreover have "ll_pair (p_local_ll_ip sample_peer) (p_remote_ll_ip sample_peer)"
    by (simp add: sample_peer_def ll_pair_def is_unicast_link_local_def)
  ultimately show "peer_typed (st_manager sample_state) (b64_decode sample_env) sample_peer"
    using storable_sample by (simp add: peer_typed_def) (simp add: sample_peer_def sample_state_def)
qed

lemma sample_typed: "typed (st_manager sample_state) (b64_decode sample_env) (empty_world\<lparr>w_peers := [reserved_row sample_peer 9]\<rparr>)"
  using sample_row_typed by (simp add: typed_def empty_world_def)

theorem tables_stay_typed_witness:
  "typed (st_manager sample_state) (b64_decode sample_env)
     (snd (run_task sample_env sample_state Recovery (empty_world\<lparr>w_peers := [reserved_row sample_peer 9]\<rparr>)))"
proof -
  have "stable sample_env (typed (st_manager sample_state) (b64_decode sample_env))"
    by (simp add: stable_def typed_tick)
  moreover have "task_ok sample_env Recovery" by simp
  ultimately show ?thesis using tables_stay_typed[OF _ _ sample_typed] by blast
qed



end
