(* ===== verification/BirdLive.thy ===== *)
theory BirdLive
  imports BirdSync
begin

text \<open>
  When the synchronization with BIRD succeeds: total triples, whose failure side is empty, over worlds
  whose BIRD directory is orderly. The rules need calls that do not fail and a clock that never reads
  the same nanosecond twice.
\<close>

section \<open>Total triples\<close>

abbreviation succeeds :: "(world \<Rightarrow> bool) \<Rightarrow> 'a io \<Rightarrow> ('a \<Rightarrow> world \<Rightarrow> bool) \<Rightarrow> bool" where
  "succeeds P m Q \<equiv> triple P m Q (\<lambda>_ _. False)"

lemma totalI: "(\<And>w. P w \<Longrightarrow> \<exists>x w'. m w = (Inr x, w') \<and> Q x w') \<Longrightarrow> succeeds P m Q"
  unfolding triple_def by fastforce

lemma totalD: "succeeds P m Q \<Longrightarrow> P w \<Longrightarrow> \<exists>x w'. m w = (Inr x, w') \<and> Q x w'"
  by (cases "m w"; cases "fst (m w)") (auto dest: triple_Inl triple_Inr)

lemma total_weaken:
  "succeeds P m Q \<Longrightarrow> (\<And>w. P' w \<Longrightarrow> P w) \<Longrightarrow> (\<And>x w. Q x w \<Longrightarrow> Q' x w) \<Longrightarrow> succeeds P' m Q'"
  by (erule triple_weaken) blast+

lemma triple_any: "(\<And>t. triple (\<lambda>w. P w \<and> R t w) m Q F) \<Longrightarrow> triple (\<lambda>w. P w \<and> (\<exists>t. R t w)) m Q F"
  by (rule tripleI) (blast dest: triple_Inr triple_Inl)+

text \<open>A call that does not fail, in a world where its outcome is known.\<close>

definition after_call :: "world \<Rightarrow> filesystem \<Rightarrow> world" where
  "after_call w fs = w\<lparr>w_tick := Suc (w_tick w), w_fs := fs\<rparr>"

lemma after_call_simps [simp]:
  "w_fs (after_call w fs) = fs" "w_tick (after_call w fs) = Suc (w_tick w)"
  by (simp_all add: after_call_def)

definition fs_works :: "env \<Rightarrow> bool" where
  "fs_works E = (quiet E \<and> (\<forall>n. fs_fault E n = NoFault) \<and> inj (nanos E))"

lemma fs_io_works:
  "fs_works E \<Longrightarrow> fs_io E p q w = (case q (w_fs w) of (r, fs) \<Rightarrow>
     (map_err (\<lambda>e. BirdConfigIo e (show_path p)) r, after_call w fs))"
  by (simp add: fs_io_def ext_call_def Let_def await_quiet fs_works_def after_call_def split: prod.split)

lemma total_fs:
  assumes "fs_works E" "\<And>w. P w \<Longrightarrow> \<exists>x fs. q (w_fs w) = (Inr x, fs) \<and> Q x (after_call w fs)"
  shows "succeeds P (fs_io E p q) Q"
proof (rule totalI)
  fix w assume "P w"
  then obtain x fs where "q (w_fs w) = (Inr x, fs)" "Q x (after_call w fs)" using assms(2) by blast
  then show "\<exists>x w'. fs_io E p q w = (Inr x, w') \<and> Q x w'" by (simp add: fs_io_works[OF assms(1)] map_err_def)
qed

lemma total_try_fs:
  assumes "fs_works E"
    and "\<And>w r fs. P w \<Longrightarrow> q (w_fs w) = (r, fs) \<Longrightarrow> Q (map_err (\<lambda>e. BirdConfigIo e (show_path p)) r) (after_call w fs)"
  shows "succeeds P (attempt (fs_io E p q)) Q"
proof (rule totalI)
  fix w assume "P w"
  then show "\<exists>x w'. attempt (fs_io E p q) w = (Inr x, w') \<and> Q x w'"
    using assms(2)[of w] by (cases "q (w_fs w)") (simp add: fs_io_works[OF assms(1)])
qed

lemma total_nanos:
  assumes "\<And>t. succeeds (\<lambda>w. P w \<and> w_tick w = t) (f (nanos E t)) Q"
  shows "succeeds P (and_then (read_nanos E) f) Q"
proof (rule totalI)
  fix w assume "P w"
  then show "\<exists>x w'. and_then (read_nanos E) f w = (Inr x, w') \<and> Q x w'"
    using totalD[OF assms[of "w_tick w"], of w] by (simp add: and_then_def read_nanos_def unique_suffix_def)
qed

lemma total_for_io:
  "(\<And>x. x \<in> set xs \<Longrightarrow> succeeds P (f x) (\<lambda>_. P)) \<Longrightarrow> succeeds P (for_io f xs) (\<lambda>_. P)"
proof (induction xs)
  case (Cons x xs)
  have "succeeds P (f x) (\<lambda>_. P)" "succeeds P (for_io f xs) (\<lambda>_. P)" using Cons by simp_all
  then show ?case by (simp add: triple_and_then)
qed (simp add: triple_def)

section \<open>An orderly directory\<close>

text \<open>Generations are directories of files, and the names that the clock will give are free.\<close>

definition depth_ok :: "path \<Rightarrow> node \<Rightarrow> bool" where
  "depth_ok y n = ((length y = 1 \<longrightarrow> n = Dir) \<and> (length y = 2 \<longrightarrow> (\<exists>t. n = File t)))"

definition tidy :: "path \<Rightarrow> filesystem \<Rightarrow> bool" where
  "tidy root fs =
     (bird_layout root fs \<and> (\<forall>y n. fs_get fs (gens root @ y) = Some n \<longrightarrow> depth_ok y n))"

definition gen_name :: "nat \<Rightarrow> rstr" where
  "gen_name n = ''generation-'' @ show_nat n"

definition tmp_name :: "nat \<Rightarrow> rstr" where
  "tmp_name n = ''.current.'' @ show_nat n @ ''.tmp''"

definition clock_names :: "env \<Rightarrow> path \<Rightarrow> nat \<Rightarrow> path set" where
  "clock_names E root n = (\<Union>t\<in>{n..}. {gen root (gen_name (nanos E t)), root @ [tmp_name (nanos E t)]})"

definition names_free :: "env \<Rightarrow> path \<Rightarrow> nat \<Rightarrow> filesystem \<Rightarrow> bool" where
  "names_free E root n fs = (\<forall>p\<in>clock_names E root n. fs_get fs p = None)"

definition orderly_dir :: "env \<Rightarrow> path \<Rightarrow> nat \<Rightarrow> filesystem \<Rightarrow> bool" where
  "orderly_dir E root n fs = (tidy root fs \<and> names_free E root n fs)"

text \<open>Also, the directory of generations exists.\<close>

definition prepared :: "env \<Rightarrow> path \<Rightarrow> nat \<Rightarrow> filesystem \<Rightarrow> bool" where
  "prepared E root n fs = (orderly_dir E root n fs \<and> fs_get fs (gens root) = Some Dir)"

text \<open>The state of a world at its tick.\<close>

definition now :: "(nat \<Rightarrow> filesystem \<Rightarrow> bool) \<Rightarrow> world \<Rightarrow> bool" where
  "now P w = P (w_tick w) (w_fs w)"

lemma tidyD:
  assumes "tidy root fs"
  shows "bird_layout root fs" "fs_get fs (gens root @ y) = Some n \<Longrightarrow> depth_ok y n"
    "fs_get fs (gen root c) = Some n \<Longrightarrow> n = Dir"
    "fs_get fs (gen root c @ [d]) = Some n \<Longrightarrow> \<exists>t. n = File t"
proof -
  show "bird_layout root fs" and y: "fs_get fs (gens root @ y) = Some n \<Longrightarrow> depth_ok y n" for y n
    using assms unfolding tidy_def by blast+
  show "fs_get fs (gen root c) = Some n \<Longrightarrow> n = Dir"
    "fs_get fs (gen root c @ [d]) = Some n \<Longrightarrow> \<exists>t. n = File t"
    using y[of "[c]" n] y[of "[c, d]" n] by (simp_all add: depth_ok_def)
qed

lemma show_nat_inject: "show_nat a = show_nat b \<longleftrightarrow> a = b"
  using parse_unsigned_show by (metis max.cobounded1 max.cobounded2 option.inject)

lemma clock_names_mono: "n \<le> n' \<Longrightarrow> clock_names E root n' \<subseteq> clock_names E root n"
  unfolding clock_names_def by (intro UN_mono) auto

lemma tidy_put:
  assumes "tidy root fs" "bird_layout root (fs_put p n fs)" "\<And>y. p = gens root @ y \<Longrightarrow> depth_ok y n"
  shows "tidy root (fs_put p n fs)"
  unfolding tidy_def
proof (intro conjI allI impI assms(2))
  fix y n' assume "fs_get (fs_put p n fs) (gens root @ y) = Some n'"
  then show "depth_ok y n'"
    using tidyD(2)[OF assms(1), of y n'] assms(3)[of y] unfolding fs_get_put
    by (cases "gens root @ y = p") (simp_all split: if_splits)
qed

lemma tidy_less:
  assumes "tidy root fs" "bird_layout root fs'" "\<And>p. fs_get fs' p = None \<or> fs_get fs' p = fs_get fs p"
  shows "tidy root fs'"
  using assms unfolding tidy_def by (metis option.distinct(1))

lemma names_free_put:
  assumes "names_free E root n fs" "n \<le> n'" "p \<notin> clock_names E root n'"
  shows "names_free E root n' (fs_put p node fs)"
  using assms clock_names_mono[OF assms(2)] unfolding names_free_def fs_get_put by (metis subsetD)

lemma names_free_less:
  assumes "names_free E root n fs" "n \<le> n'" "\<And>p. fs_get fs' p = None \<or> fs_get fs' p = fs_get fs p"
  shows "names_free E root n' fs'"
  using assms clock_names_mono[OF assms(2)] unfolding names_free_def by (metis subsetD)

lemma orderly_dir_less:
  assumes "orderly_dir E root n fs" "n \<le> n'" "bird_layout root fs'" "\<And>p. fs_get fs' p = None \<or> fs_get fs' p = fs_get fs p"
  shows "orderly_dir E root n' fs'"
  using assms tidy_less[of root fs fs'] names_free_less[of E root n fs n' fs'] by (simp add: orderly_dir_def)

lemma orderly_dir_put:
  assumes "orderly_dir E root n fs" "n \<le> n'" "bird_layout root (fs_put p node fs)"
    and "\<And>y. p = gens root @ y \<Longrightarrow> depth_ok y node" "p \<notin> clock_names E root n'"
  shows "orderly_dir E root n' (fs_put p node fs)"
  using assms tidy_put[of root fs p node] names_free_put[of E root n fs n' p node] by (simp add: orderly_dir_def)

lemma preparedD:
  assumes "prepared E root n fs"
  shows "orderly_dir E root n fs" "tidy root fs" "bird_layout root fs" "plain_dir fs root"
    "fs_get fs (gens root) = Some Dir" "names_free E root n fs" "plain_dir fs (gens root)"
  using assms tidyD(1) bird_layoutD(1) plain_gens unfolding prepared_def orderly_dir_def by blast+

lemma prepared_mono: "prepared E root n fs \<Longrightarrow> n \<le> n' \<Longrightarrow> prepared E root n' fs"
  using orderly_dir_less[of E root n fs n' fs] preparedD(3) by (auto simp: prepared_def)

lemma prepared_put:
  assumes "prepared E root n fs" "n \<le> n'" "bird_layout root (fs_put p node fs)" "p = gens root \<Longrightarrow> node = Dir"
    and "\<And>y. p = gens root @ y \<Longrightarrow> depth_ok y node" "p \<notin> clock_names E root n'"
  shows "prepared E root n' (fs_put p node fs)"
  using assms orderly_dir_put[of E root n fs n' p node] by (auto simp: prepared_def fs_get_put)

lemma prepared_del:
  assumes "prepared E root n fs" "x \<noteq> []" "fs_get fs (root @ x) \<noteq> Some Dir"
  shows "prepared E root n (fs_del (root @ x) fs)"
  using assms orderly_dir_less[of E root n fs n "fs_del (root @ x) fs"] layout_del[OF preparedD(3)[OF assms(1)]]
  by (auto simp: prepared_def fs_get_del)

lemma name_facts:
  "tmp_name n \<noteq> ''generations''" "tmp_name n \<noteq> ''current''" "plain_name (gen_name n)"
  "gen_name n \<noteq> ''empty''" "tmp_name a = tmp_name b \<longleftrightarrow> a = b" "gen_name a = gen_name b \<longleftrightarrow> a = b"
  by (simp_all add: tmp_name_def gen_name_def plain_name_def show_nat_inject)

lemma clock_namesI:
  "gen root (gen_name (nanos E n)) \<in> clock_names E root n" "root @ [tmp_name (nanos E n)] \<in> clock_names E root n"
  unfolding clock_names_def by auto

lemma not_clock_names:
  assumes "inj (nanos E)"
  shows "gen root (gen_name (nanos E n)) \<notin> clock_names E root (Suc n)"
    "root @ [tmp_name (nanos E n)] \<notin> clock_names E root (Suc n)"
    "root @ [''current''] \<notin> clock_names E root k" "gen root ''empty'' \<notin> clock_names E root k"
    "gens root \<notin> clock_names E root k" "gen root c @ [d] \<notin> clock_names E root k"
  using name_facts name_facts(1,2,4)[symmetric] assms unfolding clock_names_def by (auto simp: inj_eq)

lemma total_sync_directory:
  assumes "fs_works E" "\<And>w. P w \<Longrightarrow> P (after_call w (w_fs w))" "\<And>w. P w \<Longrightarrow> plain_dir (w_fs w) d"
  shows "succeeds P (sync_directory E d) (\<lambda>_. P)"
  unfolding sync_directory_def
proof (rule triple_and_then[where R = "\<lambda>_. P"])
  show "succeeds P (fs_io E d (open_existing d)) (\<lambda>_. P)"
    by (rule total_fs[OF assms(1)])
      (use assms(2,3) in \<open>auto simp: open_existing_def look_def resolve_plain plain_dir_get\<close>)
  show "succeeds P (fs_io E d fs_touch) (\<lambda>_. P)"
    by (rule total_fs[OF assms(1)]) (use assms(2) in \<open>auto simp: fs_touch_def\<close>)
qed

section \<open>The switch\<close>

lemma total_switch:
  assumes works: "fs_works E" and g: "plain_name g"
  shows "succeeds (now (prepared E root)) (atomic_switch_current E root (False, [''generations'', g])) (\<lambda>_. now (prepared E root))"
  unfolding atomic_switch_current_def Let_def
proof (rule total_nanos)
  fix t
  let ?c = "tmp_name (nanos E t)" and ?link = "Symlink False [''generations'', g]"
  let ?tmp = "root @ [?c]" and ?cur = "root @ [''current'']"
  let ?R = "\<lambda>w. now (prepared E root) w \<and> fs_get (w_fs w) ?tmp = Some ?link"
  note inj = works[unfolded fs_works_def, THEN conjunct2, THEN conjunct2]
  have 1: "succeeds (\<lambda>w. now (prepared E root) w \<and> w_tick w = t)
      (fs_io E ?tmp (symlink (False, [''generations'', g]) ?tmp)) (\<lambda>_. ?R)"
  proof (rule total_fs[OF works])
    fix w assume w: "now (prepared E root) w \<and> w_tick w = t"
    then have P: "prepared E root t (w_fs w)" by (auto simp: now_def)
    let ?fs = "fs_put ?tmp ?link (w_fs w)"
    have free: "fs_get (w_fs w) ?tmp = None"
      using preparedD(6)[OF P] clock_namesI(2)[of root E t] unfolding names_free_def by blast
    have layout: "bird_layout root ?fs"
      using name_facts(1,2) free by (intro layout_put preparedD(3)[OF P]) (auto simp: plain_dir_get[OF preparedD(4)[OF P]])
    have "prepared E root (Suc t) ?fs"
      using name_facts(1) not_clock_names(2)[OF inj] by (intro prepared_put[OF P] layout) auto
    then show "\<exists>x fs. symlink (False, [''generations'', g]) ?tmp (w_fs w) = (Inr x, fs) \<and> ?R (after_call w fs)"
      using symlink_run[OF preparedD(4)[OF P]] free w by (simp add: fs_get_put now_def)
  qed
  have 2: "succeeds ?R (attempt (fs_io E ?cur (rename ?tmp ?cur))) (\<lambda>r w. r = Inr () \<and> now (prepared E root) w)"
  proof (rule total_try_fs[OF works])
    fix w r fs assume w: "?R w" and run: "rename ?tmp ?cur (w_fs w) = (r, fs)"
    then have P: "prepared E root (w_tick w) (w_fs w)" by (simp add: now_def)
    let ?del = "fs_del ?tmp (w_fs w)"
    have "fs_get (w_fs w) ?cur \<noteq> Some Dir" using bird_layoutD(5)[OF preparedD(3)[OF P]] by fastforce
    then have fs: "r = Inr ()" "fs = fs_put ?cur ?link ?del"
      using run rename_run[OF preparedD(4)[OF P], of ?c ?link] w by simp_all
    have del: "prepared E root (w_tick w) ?del" using prepared_del[OF P] w by simp
    have cur: "fs_get ?del ?cur \<noteq> Some Dir" using bird_layoutD(5)[OF preparedD(3)[OF del]] by fastforce
    have "bird_layout root fs"
      unfolding fs(2) using g cur by (intro layout_put preparedD(3)[OF del]) (auto simp: plain_dir_get[OF preparedD(4)[OF del]])
    then have "prepared E root (Suc (w_tick w)) fs"
      unfolding fs(2) using not_clock_names(3)[OF inj] by (intro prepared_put[OF del]) auto
    then show "map_err (\<lambda>e. BirdConfigIo e (show_path ?cur)) r = Inr () \<and> now (prepared E root) (after_call w fs)"
      by (simp add: fs(1) now_def map_err_def)
  qed
  have 3: "succeeds (\<lambda>w. r = Inr () \<and> now (prepared E root) w)
      (case r of
         Inl e \<Rightarrow> and_then (attempt (fs_io E ?tmp (remove_file ?tmp))) (\<lambda>_. throw e)
       | Inr _ \<Rightarrow> sync_directory E root) (\<lambda>_. now (prepared E root))" for r :: "peer_error + unit"
  proof (cases r)
    case (Inr u)
    have "succeeds (now (prepared E root)) (sync_directory E root) (\<lambda>_. now (prepared E root))"
      by (rule total_sync_directory[OF works]) (auto simp: now_def prepared_mono preparedD(4))
    then show ?thesis using Inr by simp
  qed (simp add: triple_def)
  have tmp: "root @ [''.current.'' @ show_nat (nanos E t) @ ''.tmp''] = ?tmp" by (simp add: tmp_name_def)
  show "succeeds (\<lambda>w. now (prepared E root) w \<and> w_tick w = t)
      (and_then (fs_io E (root @ [''.current.'' @ show_nat (nanos E t) @ ''.tmp''])
          (symlink (False, [''generations'', g]) (root @ [''.current.'' @ show_nat (nanos E t) @ ''.tmp'']))) (\<lambda>_.
       and_then (attempt (fs_io E ?cur (rename (root @ [''.current.'' @ show_nat (nanos E t) @ ''.tmp'']) ?cur))) (\<lambda>r.
       case r of
         Inl e \<Rightarrow> and_then (attempt (fs_io E (root @ [''.current.'' @ show_nat (nanos E t) @ ''.tmp''])
             (remove_file (root @ [''.current.'' @ show_nat (nanos E t) @ ''.tmp''])))) (\<lambda>_. throw e)
       | Inr _ \<Rightarrow> sync_directory E root))) (\<lambda>_. now (prepared E root))"
    unfolding tmp by (rule triple_and_then[OF 1 triple_and_then[OF 2 3]])
qed

section \<open>The layout\<close>

lemma total_layout:
  assumes works: "fs_works E"
  shows "succeeds (now (orderly_dir E (bird_conf_dir m))) (ensure_bird_layout E m) (\<lambda>_. now (prepared E (bird_conf_dir m)))"
proof -
  let ?root = "bird_conf_dir m" and ?cur = "bird_conf_dir m @ [''current'']"
  let ?empty = "gen ?root ''empty''"
  note inj = works[unfolded fs_works_def, THEN conjunct2, THEN conjunct2]
  have 1: "succeeds (now (orderly_dir E ?root)) (fs_io E ?empty (create_dir_all ?empty)) (\<lambda>_. now (prepared E ?root))"
  proof (rule total_fs[OF works])
    fix w assume "now (orderly_dir E ?root) w"
    then have O: "orderly_dir E ?root (w_tick w) (w_fs w)" by (simp add: now_def)
    then have L: "bird_layout ?root (w_fs w)" using tidyD(1) by (simp add: orderly_dir_def)
    define fs1 where "fs1 = (if fs_get (w_fs w) (gens ?root) = None then fs_put (gens ?root) Dir (w_fs w) else w_fs w)"
    have r: "resolve (w_fs w) (gens ?root) = Some (gens ?root)"
      using bird_layoutD(3)[OF L] by (intro resolve_entry bird_layoutD(1)[OF L]) (auto simp: plain_name_def)
    have P1: "prepared E ?root (w_tick w) fs1"
    proof (cases "fs_get (w_fs w) (gens ?root) = None")
      case True
      have "bird_layout ?root (fs_put (gens ?root) Dir (w_fs w))"
        by (intro layout_put L) (simp_all add: plain_dir_get[OF bird_layoutD(1)[OF L]])
      then have "orderly_dir E ?root (w_tick w) (fs_put (gens ?root) Dir (w_fs w))"
        using not_clock_names(5)[OF inj] by (intro orderly_dir_put[OF O]) (auto simp: depth_ok_def)
      with True show ?thesis by (simp add: fs1_def prepared_def fs_get_put)
    next
      case False
      then show ?thesis using O bird_layoutD(3)[OF L] by (auto simp: fs1_def prepared_def)
    qed
    have run: "create_dir_all ?empty (w_fs w) = make_dirs [?empty] fs1"
      unfolding create_dir_all_run[OF bird_layoutD(1)[OF L]] using bird_layoutD(3)[OF L] by (auto simp: r fs1_def)
    have e: "resolve fs1 ?empty = Some ?empty"
      using resolve_entry[OF preparedD(7)[OF P1], of "''empty''"] bird_layoutD(4)[OF preparedD(3)[OF P1]]
      by (simp add: plain_name_def)
    show "\<exists>x fs. create_dir_all ?empty (w_fs w) = (Inr x, fs) \<and> now (prepared E ?root) (after_call w fs)"
    proof (cases "fs_get fs1 ?empty")
      case None
      have "bird_layout ?root (fs_put (?root @ [''generations'', ''empty'']) Dir fs1)"
        using None by (intro layout_put preparedD(3)[OF P1]) (simp_all add: butlast_append preparedD(5)[OF P1])
      then have "prepared E ?root (Suc (w_tick w)) (fs_put ?empty Dir fs1)"
        using not_clock_names(4)[OF inj] by (intro prepared_put[OF P1]) (auto simp: depth_ok_def)
      then show ?thesis using None by (simp add: run e now_def)
    next
      case (Some n)
      then have "n = Dir" using tidyD(3)[OF preparedD(2)[OF P1]] by blast
      then show ?thesis using Some prepared_mono[OF P1, of "Suc (w_tick w)"] by (simp add: run e now_def)
    qed
  qed
  have 2: "succeeds (now (prepared E ?root)) (attempt (fs_io E ?cur (symlink_metadata ?cur)))
      (\<lambda>r w. now (prepared E ?root) w \<and> (\<forall>e. r = Inl e \<longrightarrow> not_found_io e))"
  proof (rule total_try_fs[OF works])
    fix w r fs assume w: "now (prepared E ?root) w" and run: "symlink_metadata ?cur (w_fs w) = (r, fs)"
    then have P: "prepared E ?root (w_tick w) (w_fs w)" by (simp add: now_def)
    have "fs = w_fs w" using calls_that_only_look(1)[of ?cur "w_fs w"] run by simp
    moreover have "r = Inl e \<Longrightarrow> e = enoent" for e
      using run by (auto simp: symlink_metadata_def look_def locate_plain[OF preparedD(4)[OF P]] split: option.splits)
    ultimately show "now (prepared E ?root) (after_call w fs)
        \<and> (\<forall>e. map_err (\<lambda>e. BirdConfigIo e (show_path ?cur)) r = Inl e \<longrightarrow> not_found_io e)"
      using prepared_mono[OF P, of "Suc (w_tick w)"]
      by (cases r) (auto simp: now_def map_err_def not_found_io_def enoent_def)
  qed
  have 3: "succeeds (\<lambda>w. now (prepared E ?root) w \<and> (\<forall>e. r = Inl e \<longrightarrow> not_found_io e))
      (case r of
        Inr _ \<Rightarrow> ret ()
      | Inl e \<Rightarrow> if not_found_io e then switch_current E m (False, [''generations'', ''empty'']) else throw e)
      (\<lambda>_. now (prepared E ?root))" for r :: "peer_error + node"
  proof (cases r)
    case (Inl e)
    have "plain_name ''empty''" by (simp add: plain_name_def)
    from total_switch[OF works this, of ?root] show ?thesis
      by (cases "not_found_io e") (simp_all add: Inl switch_current_def triple_def)
  qed (simp add: triple_def)
  show ?thesis
    unfolding ensure_bird_layout_def Let_def generations_path_def current_path_def
    using triple_and_then[OF 1 triple_and_then[OF 2 3]] by simp
qed

section \<open>The comparison\<close>

text \<open>\<open>current\<close> leads to the generation \<open>t\<close>, which holds these files.\<close>

definition reading :: "path \<Rightarrow> rstr \<Rightarrow> rstr set \<Rightarrow> filesystem \<Rightarrow> bool" where
  "reading root t names fs =
     (links_to root fs t \<and> plain_name t \<and> fs_get fs (gen root t) = Some Dir
      \<and> (\<forall>c\<in>names. fs_get fs (gen root t @ [c]) \<noteq> None))"

lemma total_touch:
  assumes "fs_works E" "\<And>w. P w \<Longrightarrow> P (after_call w (w_fs w))"
  shows "succeeds P (fs_io E p fs_touch) (\<lambda>_. P)"
  by (rule total_fs[OF assms(1)]) (use assms(2) in \<open>auto simp: fs_touch_def\<close>)

lemma total_collect:
  assumes works: "fs_works E"
  shows "succeeds (\<lambda>w. now (prepared E root) w \<and> reading root t (set names) (w_fs w))
    (collect_generation E (root @ [''current'']) names acc) (\<lambda>_. now (prepared E root))"
proof (induction names arbitrary: acc)
  case Nil
  have "succeeds (now (prepared E root)) (fs_io E (root @ [''current'']) fs_touch) (\<lambda>_. now (prepared E root))"
    by (rule total_touch[OF works]) (auto simp: now_def prepared_mono)
  then show ?case
    unfolding collect_generation.simps
    by (rule total_weaken[OF triple_and_then[where R = "\<lambda>_. now (prepared E root)", OF _ triple_ret]]) auto
next
  case (Cons name names)
  let ?P = "\<lambda>w. now (prepared E root) w \<and> reading root t (set (name # names)) (w_fs w)"
  have touch: "succeeds ?P (fs_io E (root @ [''current'']) fs_touch) (\<lambda>_. ?P)"
    by (rule total_touch[OF works]) (auto simp: now_def prepared_mono)
  have rest: "succeeds ?P (collect_generation E (root @ [''current'']) names acc') (\<lambda>_. now (prepared E root))" for acc'
    by (rule total_weaken[OF Cons.IH]) (auto simp: reading_def)
  show ?case
  proof (cases "ends_with name ''.conf''")
    case False
    then show ?thesis using triple_and_then[OF touch rest] by simp
  next
    case True
    let ?p = "(root @ [''current'']) @ [name]"
    have read: "succeeds ?P (fs_io E ?p (read_file ?p)) (\<lambda>_. ?P)"
    proof (rule total_fs[OF works])
      fix w assume w: "?P w"
      then have P: "prepared E root (w_tick w) (w_fs w)" by (simp add: now_def)
      have "resolve (w_fs w) ?p = Some (gen root t @ [name])"
        using resolve_current(2)[OF preparedD(3,5)[OF P] _ _ _ conf_plain[OF True], of t] w
        by (auto simp: reading_def)
      moreover obtain n where n: "fs_get (w_fs w) (gen root t @ [name]) = Some n" using w by (auto simp: reading_def)
      moreover obtain x where "n = File x" using tidyD(4)[OF preparedD(2)[OF P] n] by blast
      ultimately show "\<exists>x fs. read_file ?p (w_fs w) = (Inr x, fs) \<and> ?P (after_call w fs)"
        using w prepared_mono[OF P, of "Suc (w_tick w)"] by (simp add: read_file_def look_def now_def)
    qed
    show ?thesis
      unfolding collect_generation.simps using True triple_and_then[OF touch triple_and_then[OF read rest]] by simp
  qed
qed

lemma total_matches:
  assumes works: "fs_works E"
  shows "succeeds (now (prepared E (bird_conf_dir m))) (current_generation_matches E m desired)
    (\<lambda>_. now (prepared E (bird_conf_dir m)))"
proof -
  let ?root = "bird_conf_dir m" and ?cur = "bird_conf_dir m @ [''current'']"
  let ?ok = "\<lambda>r fs. case r of Inl e \<Rightarrow> not_found_io e | Inr names \<Rightarrow> \<exists>t. reading ?root t (set names) fs"
  have 1: "succeeds (now (prepared E ?root)) (attempt (fs_io E ?cur (read_dir ?cur)))
      (\<lambda>r w. now (prepared E ?root) w \<and> ?ok r (w_fs w))"
  proof (rule total_try_fs[OF works])
    fix w r fs assume w: "now (prepared E ?root) w" and run: "read_dir ?cur (w_fs w) = (r, fs)"
    then have P: "prepared E ?root (w_tick w) (w_fs w)" by (simp add: now_def)
    have fs: "fs = w_fs w" using calls_that_only_look(4)[of ?cur "w_fs w"] run by simp
    have enoent: "not_found_io (BirdConfigIo enoent p)" for p by (simp add: not_found_io_def enoent_def)
    have "?ok (map_err (\<lambda>e. BirdConfigIo e (show_path ?cur)) r) fs"
    proof (cases "fs_get (w_fs w) ?cur")
      case None
      then have "resolve (w_fs w) ?cur = Some ?cur"
        by (intro resolve_entry preparedD(4)[OF P]) (simp_all add: plain_name_def)
      with None run show ?thesis by (auto simp: read_dir_def look_def map_err_def enoent)
    next
      case (Some n)
      then obtain t where t: "links_to ?root (w_fs w) t" "plain_name t"
        using bird_layoutD(5)[OF preparedD(3)[OF P]] by (auto simp: links_to_def)
      have res: "resolve (w_fs w) ?cur = Some (gen ?root t)" by (rule resolve_current(1)[OF preparedD(3,5)[OF P] t])
      show ?thesis
      proof (cases "fs_get (w_fs w) (gen ?root t)")
        case None
        with res run show ?thesis by (auto simp: read_dir_def look_def map_err_def enoent)
      next
        case (Some n)
        then have "n = Dir" using tidyD(3)[OF preparedD(2)[OF P]] by blast
        then have "r = Inr (children (w_fs w) (gen ?root t))" using Some res run by (auto simp: read_dir_def look_def)
        moreover have "reading ?root t (set (children (w_fs w) (gen ?root t))) fs"
          using Some \<open>n = Dir\<close> t children_iff[of _ "w_fs w" "gen ?root t"] by (simp add: reading_def fs)
        ultimately show ?thesis by (auto simp: map_err_def)
      qed
    qed
    then show "now (prepared E ?root) (after_call w fs) \<and> ?ok (map_err (\<lambda>e. BirdConfigIo e (show_path ?cur)) r) (w_fs (after_call w fs))"
      using prepared_mono[OF P le_SucI[OF le_refl]] unfolding now_def after_call_simps fs by blast
  qed
  have 2: "succeeds (\<lambda>w. now (prepared E ?root) w \<and> ?ok r (w_fs w))
      (case r of
        Inr names \<Rightarrow> and_then (collect_generation E ?cur names []) (\<lambda>actual. ret (actual = desired))
      | Inl e \<Rightarrow> if not_found_io e then ret False else throw e) (\<lambda>_. now (prepared E ?root))" for r
  proof (cases r)
    case (Inr names)
    have "succeeds (\<lambda>w. now (prepared E ?root) w \<and> reading ?root t (set names) (w_fs w))
        (and_then (collect_generation E ?cur names []) (\<lambda>actual. ret (actual = desired))) (\<lambda>_. now (prepared E ?root))" for t
      by (rule triple_and_then[OF total_collect[OF works] triple_ret])
    then show ?thesis unfolding Inr sum.case by (rule triple_any)
  qed (auto simp: triple_def)
  show ?thesis
    unfolding current_generation_matches_def generation_matches_def current_path_def by (rule triple_and_then[OF 1 2])
qed

section \<open>A new generation\<close>

definition writing :: "env \<Rightarrow> path \<Rightarrow> rstr \<Rightarrow> nat \<Rightarrow> filesystem \<Rightarrow> bool" where
  "writing E root g n fs = (prepared E root n fs \<and> plain_name g \<and> fs_get fs (gen root g) = Some Dir)"

lemma writingD:
  assumes "writing E root g n fs"
  shows "prepared E root n fs" "plain_dir fs (gen root g)"
    "fs_get fs (gen root g @ [c]) \<noteq> Some Dir" "fs_get fs (gen root g @ [c]) \<noteq> Some (Symlink a t)"
proof -
  show P: "prepared E root n fs" using assms by (simp add: writing_def)
  show "plain_dir fs (gen root g)" using plain_gen[OF preparedD(3,5)[OF P]] assms by (simp add: writing_def)
  show "fs_get fs (gen root g @ [c]) \<noteq> Some Dir" "fs_get fs (gen root g @ [c]) \<noteq> Some (Symlink a t)"
    using tidyD(4)[OF preparedD(2)[OF P], of g c] by fastforce+
qed

lemma writing_mono: "writing E root g n fs \<Longrightarrow> n \<le> n' \<Longrightarrow> writing E root g n' fs"
  using prepared_mono by (auto simp: writing_def)

lemma writing_put:
  assumes W: "writing E root g n fs" and "n \<le> n'" "inj (nanos E)"
  shows "writing E root g n' (fs_put (gen root g @ [c]) (File x) fs)"
proof -
  note P = writingD(1)[OF W]
  have "bird_layout root (fs_put (root @ [''generations'', g, c]) (File x) fs)"
    using writingD(3)[OF W, of c] plain_dir_get[OF writingD(2)[OF W]]
    by (intro layout_put preparedD(3)[OF P]) (simp_all add: butlast_append)
  then have "prepared E root n' (fs_put (gen root g @ [c]) (File x) fs)"
    using not_clock_names(6)[OF assms(3), of root g c] by (intro prepared_put[OF P assms(2)]) (auto simp: depth_ok_def)
  then show ?thesis using W by (simp add: writing_def fs_get_put)
qed

lemma writing_del:
  assumes W: "writing E root g n fs"
  shows "writing E root g n (fs_del (gen root g @ [c]) fs)"
  using W prepared_del[OF writingD(1)[OF W], of "[''generations'', g, c]"] writingD(3)[OF W, of c]
  by (simp add: writing_def fs_get_del)

lemma total_write_atomic:
  assumes works: "fs_works E"
  shows "succeeds (now (writing E root g)) (write_atomic E (gen root g @ [name]) content) (\<lambda>_. now (writing E root g))"
proof -
  let ?W = "now (writing E root g)" and ?q = "gen root g @ [name]"
  note inj = works[unfolded fs_works_def, THEN conjunct2, THEN conjunct2]
  have body: "succeeds (\<lambda>w. ?W w \<and> w_tick w = t)
     (and_then (fs_io E (gen root g) (metadata (gen root g))) (\<lambda>_.
      and_then (fs_io E (gen root g @ [c]) (open_truncate (gen root g @ [c]))) (\<lambda>_.
      and_then (fs_io E (gen root g @ [c]) (write_all (gen root g @ [c]) content)) (\<lambda>_.
      and_then (fs_io E (gen root g @ [c]) fs_touch) (\<lambda>_.
      and_then (fs_io E (gen root g @ [c]) fs_touch) (\<lambda>_.
      and_then (fs_io E (gen root g @ [c]) fs_touch) (\<lambda>_.
      fs_io E ?q (rename (gen root g @ [c]) ?q)))))))) (\<lambda>_. ?W)"
    if plain: "plain_name c" for c t
  proof -
  let ?tmp = "gen root g @ [c]"
  let ?R = "\<lambda>w. ?W w \<and> (\<exists>x. fs_get (w_fs w) ?tmp = Some (File x))"
  have touch: "succeeds P (fs_io E p fs_touch) (\<lambda>_. P)" if "P = ?R" for P p
    unfolding that by (rule total_touch[OF works]) (auto simp: now_def writing_mono)
  have 1: "succeeds (\<lambda>w. ?W w \<and> w_tick w = t) (fs_io E (gen root g) (metadata (gen root g))) (\<lambda>_. ?W)"
    by (rule total_fs[OF works])
      (auto simp: now_def metadata_def look_def resolve_plain[OF writingD(2)] plain_dir_get[OF writingD(2)] writing_mono)
  have 2: "succeeds ?W (fs_io E ?tmp (open_truncate ?tmp)) (\<lambda>_. ?R)"
  proof (rule total_fs[OF works])
    fix w assume "?W w"
    then have W: "writing E root g (w_tick w) (w_fs w)" by (simp add: now_def)
    have "open_truncate ?tmp (w_fs w) = (Inr (), fs_put ?tmp (File []) (w_fs w))"
      using open_truncate_run[OF writingD(2)[OF W] plain] writingD(3,4)[OF W] by simp
    then show "\<exists>x fs. open_truncate ?tmp (w_fs w) = (Inr x, fs) \<and> ?R (after_call w fs)"
      using writing_put[OF W _ inj, of "Suc (w_tick w)"] by (simp add: now_def fs_get_put)
  qed
  have 3: "succeeds ?R (fs_io E ?tmp (write_all ?tmp content)) (\<lambda>_. ?R)"
  proof (rule total_fs[OF works])
    fix w assume "?R w"
    then obtain old where W: "writing E root g (w_tick w) (w_fs w)" "fs_get (w_fs w) ?tmp = Some (File old)"
      by (auto simp: now_def)
    have "write_all ?tmp content (w_fs w) = (Inr (), fs_put ?tmp (File (old @ content)) (w_fs w))"
      using write_all_run[OF writingD(2)[OF W(1)] plain W(2)] by simp
    then show "\<exists>x fs. write_all ?tmp content (w_fs w) = (Inr x, fs) \<and> ?R (after_call w fs)"
      using writing_put[OF W(1) _ inj, of "Suc (w_tick w)"] by (simp add: now_def fs_get_put)
  qed
  have 4: "succeeds ?R (fs_io E (gen root g @ [name]) (rename ?tmp (gen root g @ [name]))) (\<lambda>_. ?W)"
  proof (rule total_fs[OF works])
    fix w assume "?R w"
    then obtain x where W: "writing E root g (w_tick w) (w_fs w)" "fs_get (w_fs w) ?tmp = Some (File x)"
      by (auto simp: now_def)
    have "rename ?tmp (gen root g @ [name]) (w_fs w)
        = (Inr (), fs_put (gen root g @ [name]) (File x) (fs_del ?tmp (w_fs w)))"
      using rename_run[OF writingD(2)[OF W(1)] W(2), of name] writingD(3)[OF W(1), of name] by simp
    then show "\<exists>x fs. rename ?tmp (gen root g @ [name]) (w_fs w) = (Inr x, fs) \<and> ?W (after_call w fs)"
      using writing_put[OF writing_del[OF W(1)] _ inj, of "Suc (w_tick w)"] by (simp add: now_def)
  qed
  show ?thesis
    by (rule triple_and_then[OF 1 triple_and_then[OF 2 triple_and_then[OF 3 triple_and_then[OF touch[OF refl]
        triple_and_then[OF touch[OF refl] triple_and_then[OF touch[OF refl] 4]]]]]])
  qed
  have name: "''.'' @ name @ ''.'' @ show_nat pid @ ''.'' @ show_nat n @ ''.tmp''
      = ''.'' @ (name @ ''.'' @ show_nat pid @ ''.'' @ show_nat n) @ ''.tmp''" for pid n
    by simp
  show ?thesis
    unfolding write_atomic_def Let_def butlast_snoc last_snoc name
    by (rule total_nanos, rule body[OF temporary_name(2)])
qed

lemma total_write_generation:
  assumes works: "fs_works E"
  shows "succeeds (now (prepared E (bird_conf_dir m))) (write_generation E m desired)
    (\<lambda>g w. plain_name g \<and> now (prepared E (bird_conf_dir m)) w)"
proof -
  let ?root = "bird_conf_dir m"
  note inj = works[unfolded fs_works_def, THEN conjunct2, THEN conjunct2]
  have body: "succeeds (\<lambda>w. now (prepared E ?root) w \<and> w_tick w = t)
     (and_then (fs_io E (gen ?root g) (create_dir (gen ?root g))) (\<lambda>_.
      and_then (for_io (\<lambda>(file_name, content). write_atomic E (gen ?root g @ [file_name]) content) desired) (\<lambda>_.
      and_then (sync_directory E (gen ?root g)) (\<lambda>_.
      ret g)))) (\<lambda>g w. plain_name g \<and> now (prepared E ?root) w)" if g: "g = gen_name (nanos E t)" for g t
  proof -
    let ?W = "now (writing E ?root g)"
    have "succeeds (\<lambda>w. now (prepared E ?root) w \<and> w_tick w = t) (fs_io E (gen ?root g) (create_dir (gen ?root g))) (\<lambda>_. ?W)"
    proof (rule total_fs[OF works])
      fix w assume w: "now (prepared E ?root) w \<and> w_tick w = t"
      then have P: "prepared E ?root t (w_fs w)" by (auto simp: now_def)
      have free: "fs_get (w_fs w) (gen ?root g) = None"
        using preparedD(6)[OF P] clock_namesI(1)[of ?root E t] unfolding names_free_def g by blast
      have "bird_layout ?root (fs_put (?root @ [''generations'', g]) Dir (w_fs w))"
        using free by (intro layout_put preparedD(3)[OF P]) (simp_all add: butlast_append preparedD(5)[OF P])
      then have "prepared E ?root (Suc t) (fs_put (gen ?root g) Dir (w_fs w))"
        using not_clock_names(1)[OF inj, of ?root t] g by (intro prepared_put[OF P]) (auto simp: depth_ok_def)
      then have "writing E ?root g (Suc t) (fs_put (gen ?root g) Dir (w_fs w))"
        using g name_facts(3) by (simp add: writing_def fs_get_put)
      then show "\<exists>x fs. create_dir (gen ?root g) (w_fs w) = (Inr x, fs) \<and> ?W (after_call w fs)"
        using create_dir_run[OF preparedD(7)[OF P], of g] free w by (simp add: now_def)
    qed
    moreover have "succeeds ?W (for_io (\<lambda>(file_name, content). write_atomic E (gen ?root g @ [file_name]) content) desired) (\<lambda>_. ?W)"
      by (rule total_for_io) (use total_write_atomic[OF works] in \<open>auto split: prod.split\<close>)
    moreover have "succeeds ?W (sync_directory E (gen ?root g)) (\<lambda>_. ?W)"
      by (rule total_sync_directory[OF works]) (auto simp: now_def writing_mono writingD(2))
    moreover have "succeeds ?W (ret g) (\<lambda>g w. plain_name g \<and> now (prepared E ?root) w)"
      by (rule triple_ret) (auto simp: now_def writing_def)
    ultimately show ?thesis by (intro triple_and_then)
  qed
  have name: "generations_path m @ [''generation-'' @ show_nat n] = gen ?root (gen_name n)" for n
    by (simp add: generations_path_def gen_name_def)
  have ret_name: "ret (''generation-'' @ show_nat n) = ret (gen_name n)" for n by (simp add: gen_name_def)
  show ?thesis
    unfolding write_generation_def Let_def name ret_name by (rule total_nanos, rule body[OF refl])
qed

section \<open>The reload\<close>

text \<open>BIRD runs and accepts what it is told to read.\<close>

definition bird_works :: "env \<Rightarrow> bool" where
  "bird_works E =
     (\<forall>n. \<not> bird_timeout E n \<and> bs_connect (bird_connect E n) = None \<and> bs_write (bird_connect E n) = None
        \<and> (case wait_banner (bs_lines (bird_connect E n)) of None \<Rightarrow> False | Some rest \<Rightarrow> read_reply [] rest = Inr ()))"

lemma total_reload:
  assumes "quiet E" "bird_works E" "\<And>n n' fs. P n fs \<Longrightarrow> n \<le> n' \<Longrightarrow> P n' fs"
  shows "succeeds (now P) (reload_bird E m) (\<lambda>_. now P)"
proof (rule totalI)
  fix w assume w: "now P w"
  have B: "\<not> bird_timeout E (w_tick w)" "bs_connect (bird_connect E (w_tick w)) = None"
    "bs_write (bird_connect E (w_tick w)) = None"
    "\<exists>rest. wait_banner (bs_lines (bird_connect E (w_tick w))) = Some rest \<and> read_reply [] rest = Inr ()"
    using assms(2) by (auto simp: bird_works_def split: option.splits dest: spec[of _ "w_tick w"])
  have "now P (configure_received m (await E w))"
    using assms(3)[of "w_tick w" "w_fs w" "Suc (w_tick w)"] w by (simp add: now_def configure_received_def await_quiet[OF assms(1)])
  with B w show "\<exists>x w'. reload_bird E m w = (Inr x, w') \<and> now P w'"
    by (auto simp: reload_bird_def reload_bird_inner_def Let_def)
qed

section \<open>Old generations\<close>

lemma total_remove_old_generations:
  assumes works: "fs_works E"
  shows "succeeds (now (prepared E (bird_conf_dir m))) (remove_old_generations E m c) (\<lambda>_. now (prepared E (bird_conf_dir m)))"
proof -
  let ?root = "bird_conf_dir m" and ?P = "now (prepared E (bird_conf_dir m))"
  have same: "?P w \<Longrightarrow> ?P (after_call w (w_fs w))" for w by (simp add: now_def prepared_mono)
  have touch: "succeeds ?P (attempt (fs_io E p fs_touch)) (\<lambda>_. ?P)" for p
    by (rule total_try_fs[OF works]) (use same in \<open>auto simp: fs_touch_def\<close>)
  have remove: "succeeds ?P (attempt (fs_io E (gens ?root @ [name]) (remove_dir_all (gens ?root @ [name])))) (\<lambda>_. ?P)" for name
  proof (rule total_try_fs[OF works])
    fix w r fs assume w: "?P w" and run: "remove_dir_all (gens ?root @ [name]) (w_fs w) = (r, fs)"
    then have P: "prepared E ?root (w_tick w) (w_fs w)" by (simp add: now_def)
    have fs: "fs = (if fs_get (w_fs w) (gen ?root name) = Some Dir
        then filter (\<lambda>e. \<not> prefix (gen ?root name) (fst e)) (w_fs w) else w_fs w)"
      using remove_dir_all_run[OF preparedD(7)[OF P], of name] run by simp
    have "bird_layout ?root fs" using layout_remove[OF preparedD(3)[OF P], of name] preparedD(3)[OF P] by (simp add: fs)
    then have "orderly_dir E ?root (Suc (w_tick w)) fs"
      by (rule orderly_dir_less[OF preparedD(1)[OF P] le_SucI[OF le_refl]]) (simp add: fs fs_get_tree_removed)
    moreover have "\<not> prefix (gen ?root name) (gens ?root)" by (auto dest: prefix_length_le)
    ultimately show "?P (after_call w fs)"
      using preparedD(5)[OF P] by (simp add: now_def prepared_def fs fs_get_tree_removed)
  qed
  have all: "succeeds ?P (remove_generations E (gens ?root) c names) (\<lambda>_. ?P)" for names
  proof (induction names)
    case Nil
    show ?case by (simp add: triple_and_then[OF touch triple_ret])
  next
    case (Cons name names)
    have "succeeds ?P (case r of
       Inl _ \<Rightarrow> ret ()
     | Inr _ \<Rightarrow>
         if name = ''empty'' \<or> name = c \<or> \<not> starts_with name ''generation-''
         then remove_generations E (gens ?root) c names
         else and_then (attempt (fs_io E (gens ?root @ [name]) (remove_dir_all (gens ?root @ [name])))) (\<lambda>_.
              remove_generations E (gens ?root) c names)) (\<lambda>_. ?P)" for r :: "peer_error + unit"
      using Cons.IH triple_and_then[OF remove Cons.IH] by (cases r) (auto simp only: sum.case triple_ret split: if_split)
    then show ?case unfolding remove_generations.simps by (rule triple_and_then[OF touch])
  qed
  have read: "succeeds ?P (attempt (fs_io E (gens ?root) (read_dir (gens ?root)))) (\<lambda>_. ?P)"
  proof (rule total_try_fs[OF works])
    show "?P (after_call w fs)" if "?P w" "read_dir (gens ?root) (w_fs w) = (r, fs)" for w r fs
      using same[OF that(1)] calls_that_only_look(4)[of "gens ?root" "w_fs w"] that(2) by simp
  qed
  have "succeeds ?P (case r of Inl _ \<Rightarrow> ret () | Inr names \<Rightarrow> remove_generations E (gens ?root) c names) (\<lambda>_. ?P)"
    for r :: "peer_error + rstr list"
    using all by (cases r) (simp_all add: triple_ret)
  then show ?thesis
    unfolding remove_old_generations_def generations_path_def by (rule triple_and_then[OF read])
qed

section \<open>The synchronization succeeds\<close>

lemma total_install_generation:
  assumes works: "fs_works E" "bird_works E" and g: "plain_name g"
  shows "succeeds (now (prepared E (bird_conf_dir m))) (install_generation E m g) (\<lambda>_. now (prepared E (bird_conf_dir m)))"
proof -
  let ?root = "bird_conf_dir m" and ?P = "now (prepared E (bird_conf_dir m))"
  have quiet: "quiet E" using works(1) by (simp add: fs_works_def)
  have read: "succeeds ?P (attempt (fs_io E (current_path m) (read_link (current_path m)))) (\<lambda>_. ?P)"
  proof (rule total_try_fs[OF works(1)])
    show "?P (after_call w fs)" if "?P w" "read_link (current_path m) (w_fs w) = (r, fs)" for w r fs
      using that calls_that_only_look(3)[of "current_path m" "w_fs w"] by (simp add: now_def prepared_mono)
  qed
  have reload: "succeeds ?P (attempt (reload_bird E m)) (\<lambda>r w. r = Inr () \<and> ?P w)"
    by (rule triple_attempt, rule triple_weaken[OF total_reload[OF quiet works(2), of "prepared E ?root"]])
      (auto simp: prepared_mono)
  have rest: "succeeds (\<lambda>w. r = Inr () \<and> ?P w) (case r of
       Inl reload_error \<Rightarrow> restore_generation E m old reload_error
     | Inr _ \<Rightarrow> remove_old_generations E m g) (\<lambda>_. ?P)" for r :: "peer_error + unit" and old
  proof (cases r)
    case (Inr u)
    then show ?thesis using total_remove_old_generations[OF works(1), of m g] by simp
  qed (simp add: triple_def)
  show ?thesis
    unfolding install_generation_def Let_def switch_current_def
    by (rule triple_and_then[OF read triple_and_then[OF total_switch[OF works(1) g] triple_and_then[OF reload rest]]])
qed

lemma total_sync_bird_locked:
  assumes works: "fs_works E" "bird_works E" and names: "\<exists>desired. desired_configs E m peers [] = Inr desired"
  shows "succeeds (now (orderly_dir E (bird_conf_dir m))) (sync_bird_locked E m peers force_reload) (\<lambda>_. now (orderly_dir E (bird_conf_dir m)))"
proof -
  let ?P = "now (prepared E (bird_conf_dir m))"
  have quiet: "quiet E" using works(1) by (simp add: fs_works_def)
  obtain desired where d: "desired_configs E m peers [] = Inr desired" using names by blast
  have reload: "succeeds ?P (reload_bird E m) (\<lambda>_. ?P)"
    by (rule total_reload[OF quiet works(2)]) (rule prepared_mono)
  have install: "succeeds (\<lambda>w. plain_name g \<and> ?P w) (install_generation E m g) (\<lambda>_. ?P)" for g
    using total_install_generation[OF works, of g m] by (cases "plain_name g") (simp_all add: triple_false)
  have rest: "succeeds ?P (if same then (if force_reload then reload_bird E m else ret ())
      else and_then (write_generation E m desired) (install_generation E m)) (\<lambda>_. ?P)" for same
    using reload triple_and_then[OF total_write_generation[OF works(1)] install] by (simp add: triple_ret)
  have lifted: "and_then (lift_res (Inr x)) f = f x" for x :: 'x and f :: "'x \<Rightarrow> unit io"
    by (simp add: and_then_def fun_eq_iff)
  have "succeeds (now (orderly_dir E (bird_conf_dir m))) (sync_bird_locked E m peers force_reload) (\<lambda>_. ?P)"
    unfolding sync_bird_locked_def d lifted
    by (rule triple_and_then[OF total_layout[OF works(1)]])
      (use triple_and_then[OF total_matches[OF works(1)] rest] in \<open>simp add: eta_contract_eq\<close>)
  then show ?thesis by (rule total_weaken) (auto simp: now_def prepared_def)
qed

end
