(* ===== verification/Serving.thy ===== *)
theory Serving
  imports BirdLive Answers Isolation
begin

text \<open>
  Steps that cannot fail: an environment that works, the assertion \<open>serving\<close> about worlds (the tables keep
  their invariant and their types, the kernel its links, the BIRD directory its layout), and total triples
  (\<open>succeeds\<close> of \<open>BirdLive\<close>) of every operation of the store, the kernel, nftables and BIRD that the
  manager calls.
\<close>

section \<open>An environment that works\<close>

text \<open>The kernel: an added link is found under its name, links go only when deleted, and they have devices.\<close>

definition has_link :: "kernel \<Rightarrow> rstr \<Rightarrow> bool" where
  "has_link k iface = (find (has_name iface) (k_links k) \<noteq> None)"

definition has_device :: "kernel \<Rightarrow> rstr \<Rightarrow> bool" where
  "has_device k iface = (find (\<lambda>d. d_name d = iface) (k_devices k) \<noteq> None)"

definition wg_kernel :: "kernel \<Rightarrow> bool" where
  "wg_kernel k = (\<forall>pid. has_link k (''wgp'' @ show_u32 pid) \<longrightarrow> has_device k (''wgp'' @ show_u32 pid))"

definition kernel_works :: "env \<Rightarrow> bool" where
  "kernel_works E =
     ((\<forall>k req. wg_kernel k \<longrightarrow> wg_kernel (kernel_apply E req k))
      \<and> (\<forall>k iface. has_link (kernel_apply E (AddWireguardLink iface) k) iface)
      \<and> (\<forall>k req iface. (\<forall>i. req \<noteq> DelLink i) \<longrightarrow> has_link k iface \<longrightarrow> has_link (kernel_apply E req k) iface)
      \<and> (\<forall>n. nl_fault E n = NoFault) \<and> (\<forall>pid. interface_name_ok E (''wgp'' @ show_u32 pid)))"

definition working :: "env \<Rightarrow> peer_manager \<Rightarrow> bool" where
  "working E m =
     (calm E \<and> fs_works E \<and> bird_works E \<and> kernel_works E \<and> (\<forall>n. db_fault E n = NoFault)
      \<and> (\<forall>n batch. \<exists>status err. nft_run E n batch = (NftExit True status err, True))
      \<and> key_from_base64 E (local_wg_privkey m) \<noteq> None)"

lemma workingD:
  assumes "working E m"
  shows "quiet E" "fs_works E" "bird_works E" "kernel_works E" "db_fault E n = NoFault" "nl_fault E n = NoFault"
    "\<not> mocked E ''MOCK_NETLINK''" "\<not> mocked E ''MOCK_NFTABLES''"
    "key_from_base64 E (local_wg_privkey m) \<noteq> None" "interface_name_ok E (''wgp'' @ show_u32 pid)"
    "\<exists>status err. nft_run E n batch = (NftExit True status err, True)"
  using assms calmD[of E] unfolding working_def kernel_works_def by blast+

section \<open>A world that is serving\<close>

text \<open>What is claimed of the store and the kernel: the rows, the sequence of ids, the kernel's state.\<close>

type_synonym claim = "peer_row list \<Rightarrow> int \<Rightarrow> kernel \<Rightarrow> bool"

definition intact :: "env \<Rightarrow> peer_manager \<Rightarrow> claim \<Rightarrow> world \<Rightarrow> bool" where
  "intact E m X w =
     (db_inv w \<and> ok E m w \<and> (\<forall>r\<in>set (w_peers w). c_peer_id r \<le> w_peer_seq w)
      \<and> wg_kernel (w_kernel w) \<and> X (w_peers w) (w_peer_seq w) (w_kernel w))"

definition serving :: "env \<Rightarrow> peer_manager \<Rightarrow> claim \<Rightarrow> world \<Rightarrow> bool" where
  "serving E m X w = (intact E m X w \<and> now (orderly_dir E (bird_conf_dir m)) w)"

definition store_kernel_view where
  "store_kernel_view w = (db_view w, w_kernel w)"

lemma intact_about: "about store_kernel_view (intact E m X)"
  unfolding about_def
proof (intro allI impI)
  fix w w' :: world assume "store_kernel_view w = store_kernel_view w'"
  then have v: "db_view w = db_view w'" "w_kernel w = w_kernel w'" by (simp_all add: store_kernel_view_def)
  have "w_peers w = w_peers w'" "w_peer_seq w = w_peer_seq w'" using v(1) by (simp_all add: db_view_eq)
  then show "intact E m X w = intact E m X w'"
    unfolding intact_def aboutD[OF db_inv_about v(1)] aboutD[OF typed_about v(1)] v(2) by simp
qed

lemma intact_cong: "db_view w' = db_view w \<Longrightarrow> w_kernel w' = w_kernel w \<Longrightarrow> intact E m X w' = intact E m X w"
  by (rule aboutD[OF intact_about]) (simp add: store_kernel_view_def)

lemma intact_kernel:
  assumes "intact E m X w" "db_view w' = db_view w" "wg_kernel (w_kernel w')" "Y (w_peers w) (w_peer_seq w) (w_kernel w')"
  shows "intact E m Y w'"
proof -
  have "w_peers w' = w_peers w" "w_peer_seq w' = w_peer_seq w" using assms(2) by (simp_all add: db_view_eq)
  with assms show ?thesis
    unfolding intact_def aboutD[OF db_inv_about assms(2)] aboutD[OF typed_about assms(2)] by simp
qed

lemma orderly_later:
  "now (orderly_dir E root) w \<Longrightarrow> w_fs w' = w_fs w \<Longrightarrow> w_tick w \<le> w_tick w' \<Longrightarrow> now (orderly_dir E root) w'"
  using orderly_dir_less[of E root "w_tick w" "w_fs w" "w_tick w'" "w_fs w"] tidyD(1)
  by (auto simp: now_def orderly_dir_def)

lemma serving_change:
  assumes "serving E m X w" "intact E m Y w'" "w_fs w' = w_fs w" "w_tick w \<le> w_tick w'"
  shows "serving E m Y w'"
  using assms orderly_later unfolding serving_def by blast

lemma serving_later:
  assumes "serving E m X w" "db_view w' = db_view w" "w_kernel w' = w_kernel w" "w_fs w' = w_fs w" "w_tick w \<le> w_tick w'"
  shows "serving E m X w'"
  using serving_change[OF assms(1) _ assms(4,5)] intact_cong[OF assms(2,3)] assms(1) unfolding serving_def by blast

lemma serving_tick: "serving E m X w \<Longrightarrow> serving E m X (w\<lparr>w_tick := Suc (w_tick w)\<rparr>)"
  by (erule serving_later) (simp_all add: db_view_def)

lemma serving_stable: "quiet E \<Longrightarrow> stable E (serving E m X)"
  by (simp add: stable_def await_quiet serving_tick)

lemma serving_lock_free: "lock_free (serving E m X)"
proof -
  have "serving E m X (note_lock ev w) = serving E m X w" for ev w
    using intact_cong[of "note_lock ev w" w E m X] by (simp add: serving_def now_def)
  then show ?thesis by (simp add: lock_free_def)
qed

lemma serving_mono:
  "serving E m X w \<Longrightarrow> (X (w_peers w) (w_peer_seq w) (w_kernel w) \<Longrightarrow> Y (w_peers w) (w_peer_seq w) (w_kernel w)) \<Longrightarrow>
   serving E m Y w"
  by (simp add: serving_def intact_def)

lemma servingD:
  assumes "serving E m X w"
  shows "db_inv w" "ok E m w" "\<forall>r\<in>set (w_peers w). c_peer_id r \<le> w_peer_seq w" "wg_kernel (w_kernel w)"
    "X (w_peers w) (w_peer_seq w) (w_kernel w)"
  using assms by (simp_all add: serving_def intact_def)

lemma serving_claim: "serving E m (\<lambda>rows s k. X rows s k \<and> c) w \<longleftrightarrow> serving E m X w \<and> c"
  by (auto simp: serving_def intact_def)

section \<open>Calls that do not fail\<close>

lemma total_ext:
  assumes "quiet E" "\<And>n. flt n = NoFault"
    and "\<And>w. P w \<Longrightarrow> \<exists>x w2. q (w\<lparr>w_tick := Suc (w_tick w)\<rparr>) = (Inr x, w2) \<and> Q x w2"
  shows "succeeds P (ext_call E flt mk q) Q"
proof (rule totalI)
  fix w assume "P w"
  then show "\<exists>x w'. ext_call E flt mk q w = (Inr x, w') \<and> Q x w'"
    using assms(3)[of w] by (auto simp: ext_call_def Let_def assms(2) await_quiet[OF assms(1)] map_err_def)
qed

lemma total_attempt:
  assumes "succeeds P m Q" "\<And>x. succeeds (Q x) (k (Inr x)) R"
  shows "succeeds P (and_then (attempt m) k) R"
proof (rule triple_and_then)
  show "succeeds P (attempt m) (\<lambda>r w. \<exists>x. r = Inr x \<and> Q x w)"
    by (rule triple_attempt, rule triple_weaken[OF assms(1)]) auto
  show "succeeds (\<lambda>w. \<exists>x. r = Inr x \<and> Q x w) (k r) R" for r
    using assms(2) by (cases r) (auto simp: triple_def)
qed

lemma total_lift: "(\<And>w. P w \<Longrightarrow> \<exists>x. r = Inr x \<and> Q x w) \<Longrightarrow> succeeds P (lift_res r) Q"
  by (rule totalI) simp

lemma total_ret: "(\<And>w. P w \<Longrightarrow> Q x w) \<Longrightarrow> succeeds P (ret x) Q"
  by (rule triple_ret)

lemma total_read_clock: "succeeds P (read_clock E) (\<lambda>_. P)"
  by (rule totalI) (simp add: read_clock_def)

lemma total_found_or: "(\<And>w. P w \<Longrightarrow> b \<and> Q w) \<Longrightarrow> succeeds P (found_or b asn name) (\<lambda>_. Q)"
  by (rule totalI) (simp add: found_or_def)

text \<open>A value that the assertion determines.\<close>

lemma total_case: "(x = a \<Longrightarrow> succeeds P (f a) Q) \<Longrightarrow> succeeds (\<lambda>w. x = a \<and> P w) (f x) Q"
  by (auto simp: triple_def)

lemma total_assume: "(c \<Longrightarrow> succeeds P f Q) \<Longrightarrow> succeeds (\<lambda>w. c \<and> P w) f Q"
  by (auto simp: triple_def)

lemma total_lock:
  assumes "quiet E" "succeeds (serving E m X) op Q" "\<And>x. lock_free (Q x)"
  shows "succeeds (serving E m X) (with_lock E l op) Q"
  by (rule triple_lock[OF serving_stable[OF assms(1)] serving_lock_free assms(3) _ assms(2)]) (simp add: lock_free_def)

section \<open>The store\<close>

lemma total_acquire:
  assumes "working E m"
  shows "succeeds (serving E m X) (acquire E) (\<lambda>_. serving E m X)" "succeeds (serving E m X) (tx_begin E) (\<lambda>_. serving E m X)"
  unfolding acquire_def tx_begin_def
  by (rule total_ext[OF workingD(1,5)[OF assms]], simp add: serving_tick)+

lemma total_execute:
  assumes "working E m"
    and "\<And>w. serving E m X w \<Longrightarrow> \<exists>n w2. q w = (Inr n, w2) \<and> intact E m (Y n) w2 \<and> w_fs w2 = w_fs w \<and> w_tick w2 = w_tick w"
  shows "succeeds (serving E m X) (execute E q) (\<lambda>n. serving E m (Y n))"
  unfolding execute_def
proof (rule total_ext[OF workingD(1,5)[OF assms(1)]])
  fix w assume "serving E m X w"
  then have w: "serving E m X (w\<lparr>w_tick := Suc (w_tick w)\<rparr>)" by (rule serving_tick)
  then show "\<exists>x w2. q (w\<lparr>w_tick := Suc (w_tick w)\<rparr>) = (Inr x, w2) \<and> serving E m (Y x) w2"
    using assms(2)[OF w] serving_change[OF w] by (metis order_refl)
qed

lemma total_select:
  assumes "working E m"
  shows "succeeds (serving E m X) (execute E (sql_select (\<lambda>w. g (w_peers w))))
    (\<lambda>x. serving E m (\<lambda>rows s k. X rows s k \<and> x = g rows))"
  by (rule total_execute[OF assms]) (auto simp: sql_select_def serving_def intact_def)

lemma total_peer_exists:
  assumes "working E m"
  shows "succeeds (serving E m X) (peer_exists E asn name)
    (\<lambda>b. serving E m (\<lambda>rows s k. X rows s k \<and> b = list_ex (\<lambda>r. identity_of r = (uint asn, name)) rows))"
  unfolding peer_exists_def by (rule triple_and_then[OF total_acquire(1)[OF assms] total_select[OF assms]])

lemma total_list_peers:
  assumes "working E m"
  shows "succeeds (serving E m X) (list_peers E) (\<lambda>peers w. (\<forall>p\<in>set peers. peer_typed m (b64_decode E) p) \<and> serving E m X w)"
  unfolding list_peers_def
proof (rule triple_and_then[OF total_acquire(1)[OF assms]], rule triple_and_then[OF total_select[OF assms]], rule total_lift)
  fix rows w assume w: "serving E m (\<lambda>rs s k. X rs s k \<and> rows = order_rows (collation E) rs) w"
  then have "\<forall>r\<in>set rows. row_typed m (b64_decode E) r" using servingD(2,5)[OF w] by (simp add: typed_def set_order_rows)
  from typed_rows_read[OF this] w show "\<exists>x. collect_results (row_to_peer (b64_decode E)) rows = Inr x
      \<and> (\<forall>p\<in>set x. peer_typed m (b64_decode E) p) \<and> serving E m X w"
    using serving_mono[OF w] by blast
qed

text \<open>A peer that is listed, and its row.\<close>

definition row_of :: "env \<Rightarrow> peer_manager \<Rightarrow> peer \<Rightarrow> peer_row list \<Rightarrow> bool" where
  "row_of E m p rows = (peer_typed m (b64_decode E) p \<and>
     (\<exists>r\<in>set rows. row_to_peer (b64_decode E) r = Inr p \<and> c_peer_id r = sint (p_peer_id p)))"

definition listed :: "u32 \<Rightarrow> peer_row list \<Rightarrow> bool" where
  "listed pid rows = (sint pid \<in> c_peer_id ` set rows)"

lemma total_get_peer:
  assumes "working E m"
    and "\<And>rows s k. X rows s k \<Longrightarrow> \<exists>r\<in>set rows. identity_of r = (uint asn, name)"
  shows "succeeds (serving E m X) (get_peer E asn name)
    (\<lambda>found w. \<exists>p. found = Some p \<and> p_asn p = asn \<and> p_peer_name p = name \<and> serving E m (\<lambda>rows s k. X rows s k \<and> row_of E m p rows) w)"
  unfolding get_peer_def
proof (rule triple_and_then[OF total_acquire(1)[OF assms(1)]], rule triple_and_then[OF total_select[OF assms(1)]])
  fix row
  let ?Y = "\<lambda>rows s k. X rows s k \<and> row = find (\<lambda>r. identity_of r = (uint asn, name)) rows"
  show "succeeds (serving E m ?Y)
     (case row of None \<Rightarrow> ret None | Some r \<Rightarrow> and_then (lift_res (row_to_peer (b64_decode E) r)) (\<lambda>p. ret (Some p)))
     (\<lambda>found w. \<exists>p. found = Some p \<and> p_asn p = asn \<and> p_peer_name p = name \<and> serving E m (\<lambda>rows s k. X rows s k \<and> row_of E m p rows) w)"
  proof (rule totalI)
    fix w assume w: "serving E m ?Y w"
    then have X: "X (w_peers w) (w_peer_seq w) (w_kernel w)" and row: "row = find (\<lambda>r. identity_of r = (uint asn, name)) (w_peers w)"
      using servingD(5)[OF w] by simp_all
    have "row \<noteq> None" using assms(2)[OF X] unfolding row find_None_iff by blast
    then obtain r where r: "row = Some r" by blast
    then have f: "r \<in> set (w_peers w)" "identity_of r = (uint asn, name)" using row by (auto simp: find_Some_iff)
    then obtain p where p: "row_to_peer (b64_decode E) r = Inr p" "peer_typed m (b64_decode E) p" "c_peer_id r = sint (p_peer_id p)"
      using servingD(2)[OF w] row_typedE unfolding typed_def by metis
    have "p_asn p = asn" "p_peer_name p = name" using row_to_peer_fields(2,3)[OF p(1)] f(2) by (auto simp: identity_of_def)
    moreover have "serving E m (\<lambda>rows s k. X rows s k \<and> row_of E m p rows) w"
      by (rule serving_mono[OF w]) (use f(1) p in \<open>auto simp: row_of_def\<close>)
    ultimately show "\<exists>x w'. (case row of None \<Rightarrow> ret None
        | Some r \<Rightarrow> and_then (lift_res (row_to_peer (b64_decode E) r)) (\<lambda>p. ret (Some p))) w = (Inr x, w') \<and>
        (\<exists>p. x = Some p \<and> p_asn p = asn \<and> p_peer_name p = name \<and> serving E m (\<lambda>rows s k. X rows s k \<and> row_of E m p rows) w')"
      using p(1) by (simp add: r and_then_def)
  qed
qed

text \<open>An update that leaves the keys of the row alone.\<close>

lemma filter_one: "distinct (map f xs) \<Longrightarrow> x \<in> set xs \<Longrightarrow> filter (\<lambda>y. f y = f x) xs = [x]"
proof (induction xs)
  case (Cons y ys)
  have "f x \<noteq> f z" if "x = y" "z \<in> set ys" for z using Cons.prems(1) that by (auto simp: image_iff)
  then have "x = y \<Longrightarrow> filter (\<lambda>z. f z = f x) ys = []" by (simp add: filter_empty_conv eq_commute)
  moreover have "x \<noteq> y \<Longrightarrow> f y \<noteq> f x" using Cons.prems by (auto simp: image_iff)
  ultimately show ?case using Cons by auto
qed simp

lemma serving_update:
  assumes "serving E m X w"
    and hit: "\<And>rows s k. X rows s k \<Longrightarrow> pid \<in> c_peer_id ` set rows \<and> Z (c_peer_id ` set rows)"
    and ports: "\<And>rows s k r. X rows s k \<Longrightarrow> distinct (map c_peer_id rows) \<Longrightarrow> r \<in> set rows \<Longrightarrow> c_peer_id r = pid \<Longrightarrow>
      c_listen_port (f r) = c_listen_port r"
    and keys: "\<And>r. c_peer_id (f r) = c_peer_id r \<and> identity_of (f r) = identity_of r"
    and typed: "\<And>r. row_typed m (b64_decode E) r \<Longrightarrow> c_peer_id r = pid \<Longrightarrow> row_typed m (b64_decode E) (f r)"
  shows "\<exists>w2. sql_update_peer f pid w = (Inr 1, w2) \<and> intact E m (\<lambda>rows _ _. Z (c_peer_id ` set rows)) w2
    \<and> w_fs w2 = w_fs w \<and> w_tick w2 = w_tick w"
proof -
  let ?g = "\<lambda>r. if c_peer_id r = pid then f r else r" and ?rows = "w_peers w"
  let ?w2 = "snd (sql_update_peer f pid w)"
  note S = servingD[OF assms(1)] and unique = db_invD(1)[OF servingD(1)[OF assms(1)]]
  have ids: "distinct (map c_peer_id ?rows)" using unique by (simp add: peers_unique_def)
  have same_ids: "map c_peer_id (map ?g ?rows) = map c_peer_id ?rows" using keys by simp
  moreover have "map identity_of (map ?g ?rows) = map identity_of ?rows" using keys by simp
  moreover have "map c_listen_port (map ?g ?rows) = map c_listen_port ?rows" using ports[OF S(5) ids] by simp
  ultimately have uniq: "peers_unique (map ?g ?rows)" using unique unfolding peers_unique_def by (simp only: simp_thms)
  obtain r where r: "r \<in> set ?rows" "c_peer_id r = pid" using hit[OF S(5)] by blast
  have "filter (\<lambda>x. c_peer_id x = pid) ?rows = [r]"
    unfolding r(2)[symmetric] by (rule filter_one[OF ids r(1)])
  then have run: "sql_update_peer f pid w = (Inr 1, ?w2)" and same: "w_fs ?w2 = w_fs w" "w_tick ?w2 = w_tick w"
      "w_kernel ?w2 = w_kernel w" "w_peer_seq ?w2 = w_peer_seq w" "w_peers ?w2 = map ?g ?rows"
    using uniq by (simp_all add: sql_update_peer_def Let_def enqueue_peer_change_def)
  have names: "c_peer_name (f x) = c_peer_name x" for x using keys[of x] by (simp add: identity_of_def)
  have "c_peer_id ` set (map ?g ?rows) = c_peer_id ` set ?rows" using same_ids by (metis list.set_map)
  then have "Z (c_peer_id ` set (map ?g ?rows))" using hit[OF S(5)] by simp
  moreover have "\<forall>x\<in>set (map ?g ?rows). c_peer_id x \<le> w_peer_seq w" using S(3) keys by auto
  moreover have "db_inv ?w2" by (rule sql_update_peer_inv[OF S(1) names])
  moreover have "ok E m ?w2" by (rule typed_update[OF S(2) typed])
  ultimately have "intact E m (\<lambda>rows _ _. Z (c_peer_id ` set rows)) ?w2"
    unfolding intact_def same using S(4) by blast
  with run same show ?thesis by blast
qed

lemma total_update_rows:
  assumes "working E m"
    and "\<And>rows s k. X rows s k \<Longrightarrow> pid \<in> c_peer_id ` set rows \<and> Z (c_peer_id ` set rows)"
    and "\<And>t rows s k r. X rows s k \<Longrightarrow> distinct (map c_peer_id rows) \<Longrightarrow> r \<in> set rows \<Longrightarrow> c_peer_id r = pid \<Longrightarrow>
      c_listen_port (f t r) = c_listen_port r"
    and "\<And>t r. c_peer_id (f t r) = c_peer_id r \<and> identity_of (f t r) = identity_of r"
    and "\<And>t r. row_typed m (b64_decode E) r \<Longrightarrow> c_peer_id r = pid \<Longrightarrow> row_typed m (b64_decode E) (f t r)"
  shows "succeeds (serving E m X)
    (and_then (acquire E) (\<lambda>_. and_then (read_clock E) (\<lambda>t. and_then (execute E (sql_update_peer (f t) pid)) (\<lambda>n. ret (n = 1)))))
    (\<lambda>b w. b \<and> serving E m (\<lambda>rows _ _. Z (c_peer_id ` set rows)) w)"
proof (rule triple_and_then[OF total_acquire(1)[OF assms(1)]], rule triple_and_then[OF total_read_clock])
  fix t
  let ?Y = "\<lambda>(n :: nat) rows _ _. n = 1 \<and> Z (c_peer_id ` set rows)"
  have "succeeds (serving E m X) (execute E (sql_update_peer (f t) pid)) (\<lambda>n. serving E m (?Y n))"
  proof (rule total_execute[OF assms(1)])
    fix w assume w: "serving E m X w"
    obtain w2 where w2: "sql_update_peer (f t) pid w = (Inr 1, w2)" "w_fs w2 = w_fs w \<and> w_tick w2 = w_tick w"
      and i: "intact E m (\<lambda>rows _ _. Z (c_peer_id ` set rows)) w2"
      using serving_update[OF w, of pid Z "f t"] assms(2-5) by blast
    from i have "intact E m (?Y 1) w2" by (simp add: intact_def)
    with w2 show "\<exists>n w2. sql_update_peer (f t) pid w = (Inr n, w2) \<and> intact E m (?Y n) w2 \<and> w_fs w2 = w_fs w \<and> w_tick w2 = w_tick w"
      by blast
  qed
  then show "succeeds (serving E m X) (and_then (execute E (sql_update_peer (f t) pid)) (\<lambda>n. ret (n = 1)))
    (\<lambda>b w. b \<and> serving E m (\<lambda>rows _ _. Z (c_peer_id ` set rows)) w)"
    by (rule triple_and_then) (rule total_ret, auto simp: serving_def intact_def)
qed

lemma total_set_status:
  assumes "working E m" "st \<in> {Provisioning, Active, Deleting, Disabled}"
    and "\<And>rows s k. X rows s k \<Longrightarrow> listed pid rows \<and> Z (c_peer_id ` set rows)"
  shows "succeeds (serving E m X) (set_status E pid st) (\<lambda>b w. b \<and> serving E m (\<lambda>rows _ _. Z (c_peer_id ` set rows)) w)"
  unfolding set_status_def
proof (rule total_update_rows[OF assms(1)])
  have known: "known_status (status_to_str st)" using assms(2) by (auto simp: known_status_def)
  show "row_typed m (b64_decode E) (r\<lparr>c_status := status_to_str st, r_updated_at := t\<rparr>)"
    if "row_typed m (b64_decode E) r" for r t by (rule row_typed_mark[OF that known])
  show "sint pid \<in> c_peer_id ` set rows \<and> Z (c_peer_id ` set rows)" if "X rows s k" for rows s k
    using assms(3)[OF that] unfolding listed_def .
qed (simp_all add: identity_of_def)

lemma row_of_port:
  assumes "row_of E m p rows" "distinct (map c_peer_id rows)" "r \<in> set rows" "c_peer_id r = sint (p_peer_id p)"
  shows "c_listen_port r = uint (p_listen_port p)"
proof -
  obtain x where x: "x \<in> set rows" "row_to_peer (b64_decode E) x = Inr p" "c_peer_id x = sint (p_peer_id p)"
    using assms(1) unfolding row_of_def by blast
  have "inj_on c_peer_id (set rows)" using assms(2) by (simp add: distinct_map)
  then have "r = x" by (rule inj_onD) (simp_all add: x(1,3) assms(3,4))
  then show ?thesis using row_to_peer_fields(9,14)[OF x(2)] by (simp add: in_word_range_def unsigned_of_int take_bit_int_eq_self)
qed

lemma total_update_desired:
  assumes "working E m" "peer_typed m (b64_decode E) d" "p_peer_id d = p_peer_id old" "p_listen_port d = p_listen_port old"
    and "\<And>rows s k. X rows s k \<Longrightarrow> row_of E m old rows"
  shows "succeeds (serving E m X) (update_peer_desired E d) (\<lambda>b w. b \<and> serving E m (\<lambda>rows _ _. listed (p_peer_id d) rows) w)"
  unfolding update_peer_desired_def listed_def
proof (rule total_update_rows[OF assms(1), where Z = "\<lambda>ids. sint (p_peer_id d) \<in> ids"])
  show "row_typed m (b64_decode E) (desired_columns d now r)"
    if "row_typed m (b64_decode E) r" "c_peer_id r = sint (p_peer_id d)" for r now
    by (rule row_typed_desired[OF that(1) assms(2) that(2)])
  show "sint (p_peer_id d) \<in> c_peer_id ` set rows \<and> sint (p_peer_id d) \<in> c_peer_id ` set rows" if "X rows s k" for rows s k
    using assms(5)[OF that] assms(3) unfolding row_of_def by force
  show "c_listen_port (desired_columns d now r) = c_listen_port r"
    if "X rows s k" "distinct (map c_peer_id rows)" "r \<in> set rows" "c_peer_id r = sint (p_peer_id d)" for rows s k now r
    using row_of_port[OF assms(5)[OF that(1)] that(2,3)] that(4) assms(3,4) by (simp add: desired_columns_def)
qed (simp add: identity_of_def)

lemma total_db_delete:
  assumes "working E m" "\<And>rows s k. X rows s k \<Longrightarrow> listed pid rows \<and> Z (c_peer_id ` set rows - {sint pid})"
  shows "succeeds (serving E m X) (db_delete_peer E pid) (\<lambda>b w. b \<and> serving E m (\<lambda>rows _ _. Z (c_peer_id ` set rows)) w)"
  unfolding db_delete_peer_def
proof (rule triple_and_then[OF total_acquire(1)[OF assms(1)]], rule triple_and_then)
  let ?Y = "\<lambda>n rows _ _. n > 0 \<and> Z (c_peer_id ` set rows)"
  show "succeeds (serving E m X) (execute E (sql_delete_peer (sint pid))) (\<lambda>n. serving E m (?Y n))"
  proof (rule total_execute[OF assms(1)])
    fix w assume w: "serving E m X w"
    note S = servingD[OF w]
    let ?rows = "filter (\<lambda>r. c_peer_id r \<noteq> sint pid) (w_peers w)"
    let ?n = "length (filter (\<lambda>r. c_peer_id r = sint pid) (w_peers w))" and ?w2 = "snd (sql_delete_peer (sint pid) w)"
    have "?n > 0" using assms(2)[OF S(5)] by (auto simp: listed_def filter_empty_conv)
    moreover have "c_peer_id ` set ?rows = c_peer_id ` set (w_peers w) - {sint pid}" by auto
    then have "Z (c_peer_id ` set ?rows)" using assms(2)[OF S(5)] by simp
    moreover have "\<forall>r\<in>set ?rows. c_peer_id r \<le> w_peer_seq w" using S(3) by simp
    moreover have "db_inv ?w2" by (rule sql_delete_peer_inv[OF S(1)])
    moreover have "ok E m ?w2" by (rule typed_delete[OF S(2)])
    moreover have run: "sql_delete_peer (sint pid) w = (Inr ?n, ?w2)" "w_fs ?w2 = w_fs w" "w_tick ?w2 = w_tick w"
        "w_kernel ?w2 = w_kernel w" "w_peer_seq ?w2 = w_peer_seq w" "w_peers ?w2 = ?rows"
      by (simp_all add: sql_delete_peer_def Let_def enqueue_fold_id)
    ultimately have "intact E m (?Y ?n) ?w2" using S(4) unfolding intact_def run(4-6) by blast
    with run(1-3) show "\<exists>n w2. sql_delete_peer (sint pid) w = (Inr n, w2) \<and> intact E m (?Y n) w2
        \<and> w_fs w2 = w_fs w \<and> w_tick w2 = w_tick w" by blast
  qed
qed (rule total_ret, auto simp: serving_def intact_def)

section \<open>The kernel\<close>

lemma total_nl_query:
  assumes "working E m" "\<And>w. serving E m X w \<Longrightarrow> \<exists>x. q w = (Inr x, w) \<and> Y x (w_peers w) (w_peer_seq w) (w_kernel w)"
  shows "succeeds (serving E m X) (ext_call E (nl_fault E) mk q) (\<lambda>x. serving E m (Y x))"
proof (rule total_ext[OF workingD(1,6)[OF assms(1)]])
  fix w assume "serving E m X w"
  then have w: "serving E m X (w\<lparr>w_tick := Suc (w_tick w)\<rparr>)" by (rule serving_tick)
  from assms(2)[OF w] obtain x where "q (w\<lparr>w_tick := Suc (w_tick w)\<rparr>) = (Inr x, w\<lparr>w_tick := Suc (w_tick w)\<rparr>)"
    "Y x (w_peers w) (w_peer_seq w) (w_kernel w)" by auto
  then show "\<exists>x w2. q (w\<lparr>w_tick := Suc (w_tick w)\<rparr>) = (Inr x, w2) \<and> serving E m (Y x) w2"
    using serving_mono[OF w, of "Y x"] by auto
qed

lemma total_device_get:
  assumes "working E m" "\<And>rows s k. X rows s k \<Longrightarrow> \<exists>d\<in>set (k_devices k). d_name d = name"
  shows "succeeds (serving E m X) (device_get E name) (\<lambda>d. serving E m (\<lambda>rows s k. X rows s k \<and> d \<in> set (k_devices k)))"
  unfolding device_get_def
proof (rule total_nl_query[OF assms(1)])
  fix w assume "serving E m X w"
  from servingD(5)[OF this] have X: "X (w_peers w) (w_peer_seq w) (w_kernel w)" .
  let ?found = "find (\<lambda>d. d_name d = name) (k_devices (w_kernel w))"
  have "?found \<noteq> None" using assms(2)[OF X] by (auto simp: find_None_iff)
  then obtain d where d: "?found = Some d" by blast
  then have "d \<in> set (k_devices (w_kernel w))" by (auto simp: find_Some_iff)
  with X d show "\<exists>x. (case ?found of None \<Rightarrow> (Inl (device_get_error E name), w) | Some d \<Rightarrow> (Inr d, w)) = (Inr x, w)
      \<and> X (w_peers w) (w_peer_seq w) (w_kernel w) \<and> x \<in> set (k_devices (w_kernel w))" by auto
qed

lemma total_listen_port:
  assumes "working E m"
  shows "succeeds (serving E m X) (listen_port_in_use E port None)
    (\<lambda>b. serving E m (\<lambda>rows s k. X rows s k \<and> (b \<longrightarrow> (\<exists>d\<in>set (k_devices k). d_listen_port d = Some port))))"
proof -
  let ?Q = "\<lambda>b. serving E m (\<lambda>rows s k. X rows s k \<and> (b \<longrightarrow> (\<exists>d\<in>set (k_devices k). d_listen_port d = Some port)))"
  let ?N = "\<lambda>names rows s k. X rows s k \<and> set names \<subseteq> d_name ` set (k_devices k)"
  have devices: "succeeds (serving E m (?N names)) (any_device_uses E port None names) ?Q" for names
  proof (induction names)
    case Nil
    show ?case unfolding any_device_uses.simps by (rule total_ret, erule serving_mono) simp
  next
    case (Cons name names)
    have get: "succeeds (serving E m (?N (name # names))) (device_get E name)
        (\<lambda>d. serving E m (\<lambda>rows s k. ?N (name # names) rows s k \<and> d \<in> set (k_devices k)))"
      by (rule total_device_get[OF assms]) auto
    have "succeeds (serving E m (\<lambda>rows s k. ?N (name # names) rows s k \<and> d \<in> set (k_devices k)))
        (if d_listen_port d = Some port then ret True else any_device_uses E port None names) ?Q" for d
    proof (cases "d_listen_port d = Some port")
      case True
      show ?thesis unfolding if_P[OF True] by (rule total_ret, erule serving_mono) (use True in auto)
    next
      case False
      show ?thesis unfolding if_not_P[OF False] by (rule total_weaken[OF Cons.IH]) (erule serving_mono, auto)
    qed
    from triple_and_then[OF get this] show ?case by simp
  qed
  have list: "succeeds (serving E m X) (device_list E) (\<lambda>names. serving E m (?N names))"
    unfolding device_list_def by (rule total_nl_query[OF assms]) (auto dest: servingD(5))
  show ?thesis
    unfolding listen_port_in_use_def using triple_and_then[OF list devices] workingD(7)[OF assms] by simp
qed

section \<open>Reservation\<close>

lemma total_allocate:
  assumes "working E m" "\<And>rows s k. X rows s k \<Longrightarrow> s < 2147483647"
  shows "succeeds (serving E m X) (allocate_peer_id E) (\<lambda>pid w. uint pid < 2 ^ 31 \<and>
    serving E m (\<lambda>rows s k. X rows (s - 1) k \<and> s = sint pid \<and> (\<forall>r\<in>set rows. c_peer_id r < s)) w)"
  unfolding allocate_peer_id_def
proof (rule triple_and_then[OF total_acquire(1)[OF assms(1)]], rule triple_and_then)
  let ?Y = "\<lambda>n rows s k. X rows (s - 1) k \<and> s = n \<and> (\<forall>r\<in>set rows. c_peer_id r < s) \<and> 0 \<le> n \<and> n < 2 ^ 31"
  show "succeeds (serving E m X) (execute E sql_nextval_peer_id) (\<lambda>n. serving E m (?Y n))"
  proof (rule total_execute[OF assms(1)])
    fix w assume w: "serving E m X w"
    note S = servingD[OF w]
    let ?w2 = "snd (sql_nextval_peer_id w)"
    have run: "sql_nextval_peer_id w = (Inr (w_peer_seq w + 1), ?w2)" "w_fs ?w2 = w_fs w" "w_tick ?w2 = w_tick w"
        "w_kernel ?w2 = w_kernel w" "w_peers ?w2 = w_peers w" "w_peer_seq ?w2 = w_peer_seq w + 1"
      using assms(2)[OF S(5)] by (simp_all add: sql_nextval_peer_id_def)
    have "0 \<le> w_peer_seq w" using S(2) by (simp add: typed_def)
    moreover have "db_inv ?w2" by (rule sql_other_inv(2)[OF S(1)])
    moreover have "ok E m ?w2" by (rule typed_other(5)[OF S(2)])
    ultimately have "intact E m (?Y (w_peer_seq w + 1)) ?w2"
      unfolding intact_def run(4-6) using S(3,4,5) assms(2)[OF S(5)] by auto
    with run(1-3) show "\<exists>n w2. sql_nextval_peer_id w = (Inr n, w2) \<and> intact E m (?Y n) w2
        \<and> w_fs w2 = w_fs w \<and> w_tick w2 = w_tick w" by blast
  qed
  show "succeeds (serving E m (?Y n)) (if in_word_range 32 n then (ret (of_int n) :: u32 io) else throw (Validation ''The peer ID sequence is exhausted''))
      (\<lambda>pid w. uint pid < 2 ^ 31 \<and> serving E m (\<lambda>rows s k. X rows (s - 1) k \<and> s = sint pid \<and> (\<forall>r\<in>set rows. c_peer_id r < s)) w)" for n
  proof (rule totalI)
    fix w assume w: "serving E m (?Y n) w"
    then have n: "0 \<le> n" "n < 2 ^ 31" using servingD(5)[OF w] by auto
    then have u: "uint (of_int n :: u32) = n" by (simp add: unsigned_of_int take_bit_int_eq_self)
    then have s: "sint (of_int n :: u32) = n" using n(2) by (simp add: sint_small)
    have "in_word_range 32 n" using n by (simp add: in_word_range_def)
    moreover have "serving E m (\<lambda>rows s k. X rows (s - 1) k \<and> s = sint (of_int n :: u32) \<and> (\<forall>r\<in>set rows. c_peer_id r < s)) w"
      by (rule serving_mono[OF w]) (auto simp: s)
    ultimately show "\<exists>pid w'. (if in_word_range 32 n then (ret (of_int n) :: u32 io) else throw (Validation ''The peer ID sequence is exhausted'')) w
        = (Inr pid, w') \<and> uint pid < 2 ^ 31 \<and>
        serving E m (\<lambda>rows s k. X rows (s - 1) k \<and> s = sint pid \<and> (\<forall>r\<in>set rows. c_peer_id r < s)) w'"
      using n(2) u by auto
  qed
qed

text \<open>A new id and a new name conflict with a row at most by the port.\<close>

definition unused_id :: "u32 \<Rightarrow> u32 \<Rightarrow> rstr \<Rightarrow> claim" where
  "unused_id pid asn name rows s k =
     (s = sint pid \<and> (\<forall>r\<in>set rows. c_peer_id r < s \<and> identity_of r \<noteq> (uint asn, name)))"

lemma insert_statement:
  assumes "peer_typed m decode p"
  shows "sql_insert_peer (reserved_row p t) w =
    (if conflicts (reserved_row p t) (w_peers w) then (Inr 0, w)
     else (Inr 1, enqueue_peer_change ''INSERT'' (reserved_row p t) (w\<lparr>w_peers := w_peers w @ [reserved_row p t]\<rparr>)))"
proof -
  have "peer_name_ok (p_peer_name p)" using assms by (simp add: peer_typed_def)
  then have "\<forall>c\<in>set (p_peer_name p). byte c < 128" "length (p_peer_name p) \<le> 32"
    using name_char_plain by (auto simp: peer_name_ok_def list_all_iff)
  then have vc: "varchar 32 (p_peer_name p) = Some (p_peer_name p)" by (simp add: varchar_id char_count_ascii)
  have same: "(reserved_row p t)\<lparr>c_peer_name := p_peer_name p\<rparr> = reserved_row p t"
    by (simp add: reserved_row_def peer_to_cols_def peer_cols.defs)
  show ?thesis unfolding sql_insert_peer_def reserved_row_simps vc option.case Let_def same by (rule refl)
qed

lemma total_transaction:
  assumes "working E m"
    and q: "\<And>w. serving E m X w \<Longrightarrow> \<exists>n w2. q w = (Inr n, w2) \<and> intact E m (Y n) w2 \<and> w_fs w2 = w_fs w
      \<and> w_tick w2 = w_tick w \<and> w_kernel w2 = w_kernel w \<and> w_nonces w2 = w_nonces w \<and> w_peer_seq w2 = w_peer_seq w"
  shows "succeeds (serving E m X) (and_then (tx_execute E q) (\<lambda>(n, pending). and_then (tx_commit E pending) (\<lambda>_. ret (f n))))
    (\<lambda>x w. \<exists>n. x = f n \<and> serving E m (Y n) w)"
proof (rule totalI)
  fix w assume w: "serving E m X w"
  let ?w1 = "w\<lparr>w_tick := Suc (w_tick w)\<rparr>"
  have w1: "serving E m X ?w1" by (rule serving_tick[OF w])
  obtain n v where v: "q ?w1 = (Inr n, v)" "intact E m (Y n) v" "w_fs v = w_fs w" "w_tick v = w_tick ?w1"
      "w_kernel v = w_kernel w" "w_nonces v = w_nonces w" "w_peer_seq v = w_peer_seq w"
    using q[OF w1] by auto
  let ?w' = "w\<lparr>w_tick := Suc (Suc (w_tick w)), w_peers := w_peers v, w_events := w_events v,
      w_event_seq := w_event_seq v, w_notifies := w_notifies v\<rparr>"
  have "and_then (tx_execute E q) (\<lambda>(n, pending). and_then (tx_commit E pending) (\<lambda>_. ret (f n))) w = (Inr (f n), ?w')"
    using v(1) by (simp add: and_then_def tx_execute_def tx_commit_def tx_call_run Let_def workingD(5)[OF assms(1)] map_err_def)
  moreover have "intact E m (Y n) ?w'" using v(2)
    by (subst intact_cong[of _ v]) (simp_all add: db_view_eq v(5-7))
  then have "serving E m (Y n) ?w'" by (rule serving_change[OF w]) simp_all
  ultimately show "\<exists>x w'. and_then (tx_execute E q) (\<lambda>(n, pending). and_then (tx_commit E pending) (\<lambda>_. ret (f n))) w
      = (Inr x, w') \<and> (\<exists>n. x = f n \<and> serving E m (Y n) w')" by blast
qed

lemma total_db_reserve:
  assumes "working E m" "peer_typed m (b64_decode E) p"
    and "\<And>rows s k. X rows s k \<Longrightarrow> unused_id (p_peer_id p) (p_asn p) (p_peer_name p) rows s k"
  shows "succeeds (serving E m X) (db_reserve_peer E p False)
    (\<lambda>b. serving E m (\<lambda>rows s k. if b then listed (p_peer_id p) rows
       else X rows s k \<and> (\<exists>r\<in>set rows. c_listen_port r = uint (p_listen_port p))))"
  unfolding db_reserve_peer_def if_False
proof (rule triple_and_then[OF total_acquire(1)[OF assms(1)]], rule triple_and_then[OF total_acquire(2)[OF assms(1)]],
    rule triple_and_then[OF total_read_clock], rule total_weaken[OF total_transaction[OF assms(1)]])
  fix now
  let ?row = "reserved_row p now"
  let ?Y = "\<lambda>(n :: nat) rows s k. (n = 0 \<and> X rows s k \<and> (\<exists>r\<in>set rows. c_listen_port r = uint (p_listen_port p)))
    \<or> (n = 1 \<and> listed (p_peer_id p) rows)"
  show "\<exists>n w2. sql_insert_peer ?row w = (Inr n, w2) \<and> intact E m (?Y n) w2 \<and> w_fs w2 = w_fs w
      \<and> w_tick w2 = w_tick w \<and> w_kernel w2 = w_kernel w \<and> w_nonces w2 = w_nonces w \<and> w_peer_seq w2 = w_peer_seq w"
    if w: "serving E m X w" for w
  proof -
    note S = servingD[OF w] and un = assms(3)[OF servingD(5)[OF w]]
    let ?w2 = "snd (sql_insert_peer ?row w)"
    have inv: "db_inv ?w2" "ok E m ?w2"
      by (rule sql_insert_peer_inv[OF S(1)], rule typed_insert[OF S(2) row_typed_reserved[OF assms(2)]])
    show ?thesis
    proof (cases "conflicts ?row (w_peers w)")
      case True
      then have "\<exists>r\<in>set (w_peers w). c_listen_port r = uint (p_listen_port p)"
        using un by (auto simp: conflicts_def list_ex_iff unused_id_def identity_of_def)
      then have "intact E m (?Y (0 :: nat)) w" using w S(5) by (simp add: serving_def intact_def)
      with True show ?thesis by (simp add: insert_statement[OF assms(2)])
    next
      case False
      then have run: "sql_insert_peer ?row w = (Inr 1, ?w2)" "w_peers ?w2 = w_peers w @ [?row]" "w_peer_seq ?w2 = w_peer_seq w"
          "w_kernel ?w2 = w_kernel w" "w_fs ?w2 = w_fs w" "w_tick ?w2 = w_tick w" "w_nonces ?w2 = w_nonces w"
        by (simp_all add: insert_statement[OF assms(2)] enqueue_peer_change_def)
      have i: "intact E m (?Y (1 :: nat)) ?w2"
      proof -
        have "\<forall>r\<in>set (w_peers w @ [?row]). c_peer_id r \<le> w_peer_seq w" using S(3) un by (simp add: unused_id_def)
        moreover have "listed (p_peer_id p) (w_peers w @ [?row])" by (simp add: listed_def)
        ultimately show ?thesis unfolding intact_def run(2-4) using inv S(4) by blast
      qed
      show ?thesis by (intro exI conjI, rule run(1), rule i) (rule run(3-7))+
    qed
  qed
  fix b w assume "\<exists>n. b = (n = 1) \<and> serving E m (?Y n) w"
  then show "serving E m (\<lambda>rows s k. if b then listed (p_peer_id p) rows
       else X rows s k \<and> (\<exists>r\<in>set rows. c_listen_port r = uint (p_listen_port p))) w"
  proof (elim exE conjE)
    fix n assume b: "b = (n = 1)" and s: "serving E m (?Y n) w"
    show ?thesis by (rule serving_mono[OF s]) (cases b; use b in simp)
  qed
qed

definition port_free :: "u16 \<Rightarrow> peer_row list \<Rightarrow> kernel \<Rightarrow> bool" where
  "port_free port rows k =
     ((\<forall>d\<in>set (k_devices k). d_listen_port d \<noteq> Some port) \<and> (\<forall>r\<in>set rows. c_listen_port r \<noteq> uint port))"

lemma serving_False: "(\<And>rows s k. \<not> X rows s k) \<Longrightarrow> succeeds (serving E m X) op Q"
  by (rule triple_false) (simp add: serving_def intact_def)

lemma total_reserve_loop:
  assumes "working E m" "asn \<noteq> local_asn m" "uint pid < 2 ^ 31" "peer_name_ok name" "valid_pubkey (b64_decode E) key"
    and "case pair of (a, b) \<Rightarrow> ll_pair a b"
    and un: "\<And>rows s k. X rows s k \<Longrightarrow> unused_id pid asn name rows s k"
    and free: "\<And>rows s k. X rows s k \<Longrightarrow> port_free (probe_port asn i) rows k" and i: "i \<in> set incs"
  shows "succeeds (serving E m X) (reserve_loop E m pid asn name key ep pair mtu incs)
    (\<lambda>p w. (\<exists>i. p = build_peer pid asn name key ep pair (probe_port asn i) mtu) \<and> serving E m (\<lambda>rows _ _. listed pid rows) w)"
  using i
proof (induction incs)
  case (Cons j incs)
  let ?p = "build_peer pid asn name key ep pair (probe_port asn j) mtu"
  let ?Q = "\<lambda>p w. (\<exists>i. p = build_peer pid asn name key ep pair (probe_port asn i) mtu) \<and> serving E m (\<lambda>rows _ _. listed pid rows) w"
  let ?rest = "reserve_loop E m pid asn name key ep pair mtu incs"
  text \<open>A conflict sends the search on; the free port is still to come.\<close>
  have next_port: "succeeds (serving E m Y) ?rest ?Q"
    if Y: "\<And>rows s k. Y rows s k \<Longrightarrow> X rows s k \<and> \<not> port_free (probe_port asn j) rows k" for Y
  proof (cases "i \<in> set incs")
    case True
    show ?thesis by (rule total_weaken[OF Cons.IH[OF True]]) (erule serving_mono, use Y in blast)
  next
    case False
    then have "j = i" using Cons.prems by simp
    then show ?thesis using Y free by (intro serving_False) blast
  qed
  have typed: "peer_typed m (b64_decode E) ?p" by (rule built_peer_typed[OF assms(2-6)])
  have p: "p_peer_id ?p = pid" "p_asn ?p = asn" "p_peer_name ?p = name" "p_listen_port ?p = probe_port asn j"
    by (simp_all add: build_peer_def)
  let ?taken = "\<lambda>rows s k. X rows s k \<and> (\<exists>r\<in>set rows. c_listen_port r = uint (probe_port asn j))"
  have reserve: "succeeds (serving E m X) (db_reserve_peer E ?p False)
      (\<lambda>b. serving E m (\<lambda>rows s k. if b then listed pid rows else ?taken rows s k))"
    using total_db_reserve[OF assms(1) typed] un unfolding p by blast
  have conflict: "succeeds (serving E m ?taken) (and_then (peer_exists E asn name) (\<lambda>exists.
      if exists then throw (AlreadyExists asn name) else ?rest)) ?Q"
  proof (rule triple_and_then[OF total_peer_exists[OF assms(1)]])
    fix b
    let ?Y = "\<lambda>rows s k. ?taken rows s k \<and> b = list_ex (\<lambda>r. identity_of r = (uint asn, name)) rows"
    show "succeeds (serving E m ?Y) (if b then throw (AlreadyExists asn name) else ?rest) ?Q"
    proof (cases b)
      case True
      then show ?thesis using un by (intro serving_False) (auto simp: unused_id_def list_ex_iff)
    next
      case False
      have "succeeds (serving E m ?Y) ?rest ?Q" by (rule next_port) (auto simp: port_free_def)
      with False show ?thesis by simp
    qed
  qed
  have reserved: "succeeds (serving E m (\<lambda>rows s k. if b then listed pid rows else ?taken rows s k))
      (if b then ret ?p else and_then (peer_exists E asn name) (\<lambda>exists.
        if exists then throw (AlreadyExists asn name) else ?rest)) ?Q" for b
  proof (cases b)
    case True
    have "succeeds (serving E m (\<lambda>rows s k. listed pid rows)) (ret ?p) ?Q" by (rule total_ret) blast
    with True show ?thesis by simp
  qed (use conflict in simp)
  have "succeeds (serving E m (\<lambda>rows s k. X rows s k \<and> (b \<longrightarrow> (\<exists>d\<in>set (k_devices k). d_listen_port d = Some (probe_port asn j)))))
      (if b then ?rest else and_then (db_reserve_peer E ?p False) (\<lambda>reserved.
         if reserved then ret ?p else and_then (peer_exists E asn name) (\<lambda>exists.
           if exists then throw (AlreadyExists asn name) else ?rest))) ?Q" for b
  proof (cases b)
    case True
    have "succeeds (serving E m (\<lambda>rows s k. X rows s k \<and> (\<exists>d\<in>set (k_devices k). d_listen_port d = Some (probe_port asn j)))) ?rest ?Q"
      by (rule next_port) (auto simp: port_free_def)
    with True show ?thesis by simp
  qed (use triple_and_then[OF reserve reserved] in simp)
  from triple_and_then[OF total_listen_port[OF assms(1)] this] assms(2)
  show ?case unfolding reserve_loop.simps Let_def by (simp only: simp_thms)
qed simp

text \<open>What a reservation needs: an id that is left, and a port from 20000 through 29999 that nobody uses.\<close>

definition room_for :: "u32 \<Rightarrow> rstr \<Rightarrow> u16 \<Rightarrow> claim" where
  "room_for asn name port rows s k =
     (s < 2147483647 \<and> (\<forall>r\<in>set rows. identity_of r \<noteq> (uint asn, name)) \<and> port_free port rows k)"

lemma total_reserve_peer:
  assumes "working E m" "asn \<noteq> local_asn m" "peer_name_ok name" "valid_pubkey (b64_decode E) key" "pair_ok ll"
    and "20000 \<le> unat port" "unat port \<le> 29999" "\<And>rows s k. X rows s k \<Longrightarrow> room_for asn name port rows s k"
  shows "succeeds (serving E m X) (reserve_peer E m asn name key ep ll mtu)
    (\<lambda>p w. peer_typed m (b64_decode E) p \<and> p_pubkey p = key \<and> p_endpoint p = ep \<and> p_peer_name p = name
       \<and> serving E m (\<lambda>rows _ _. listed (p_peer_id p) rows) w)"
  unfolding reserve_peer_def Let_def
proof (rule triple_and_then[OF total_allocate[OF assms(1), where X = X]])
  show "s < 2147483647" if "X rows s k" for rows s k using assms(8)[OF that] by (simp add: room_for_def)
  let ?pair = "case ll of None \<Rightarrow> (asn_link_local (local_asn m), asn_link_local asn) | Some pair \<Rightarrow> pair"
  fix pid :: u32
  let ?X = "\<lambda>rows s k. X rows (s - 1) k \<and> s = sint pid \<and> (\<forall>r\<in>set rows. c_peer_id r < s)"
  note pair = chosen_pair[OF assms(2,5)]
  obtain i where i: "i \<in> set increments" "port = probe_port asn i" using probe_port_reached[OF assms(6,7)] by blast
  show "succeeds (\<lambda>w. uint pid < 2 ^ 31 \<and> serving E m ?X w)
      (reserve_loop E m pid asn name key ep ?pair mtu increments)
      (\<lambda>p w. peer_typed m (b64_decode E) p \<and> p_pubkey p = key \<and> p_endpoint p = ep \<and> p_peer_name p = name
         \<and> serving E m (\<lambda>rows _ _. listed (p_peer_id p) rows) w)"
  proof (rule total_assume, rule total_weaken[OF total_reserve_loop[where X = ?X]])
    assume pid: "uint pid < 2 ^ 31"
    show "unused_id pid asn name rows s k" if "?X rows s k" for rows s k
      using that assms(8)[of rows "s - 1" k] by (auto simp: unused_id_def room_for_def)
    show "port_free (probe_port asn i) rows k" if "?X rows s k" for rows s k
      using assms(8)[of rows "s - 1" k] that i(2) unfolding room_for_def by blast
    fix p w assume p: "(\<exists>i. p = build_peer pid asn name key ep ?pair (probe_port asn i) mtu)
      \<and> serving E m (\<lambda>rows _ _. listed pid rows) w"
    then obtain j where j: "p = build_peer pid asn name key ep ?pair (probe_port asn j) mtu" by blast
    have "peer_typed m (b64_decode E) p" unfolding j by (rule built_peer_typed[OF assms(2) pid assms(3,4) pair])
    then show "peer_typed m (b64_decode E) p \<and> p_pubkey p = key \<and> p_endpoint p = ep \<and> p_peer_name p = name
        \<and> serving E m (\<lambda>rows _ _. listed (p_peer_id p) rows) w" using p by (simp add: j build_peer_def)
  qed (assumption | rule assms(1-4) i(1) pair)+
qed

section \<open>Links and addresses\<close>

lemma total_nl_send:
  assumes "working E m" "\<And>rows s k. X rows s k \<Longrightarrow> Y rows s (kernel_apply E req k)"
  shows "succeeds (serving E m X) (nl_send E mk req) (\<lambda>_. serving E m Y)"
  unfolding nl_send_def
proof (rule total_ext[OF workingD(1,6)[OF assms(1)]])
  fix w assume w: "serving E m X w"
  let ?w' = "accept_request E req (w\<lparr>w_tick := Suc (w_tick w)\<rparr>)"
  have k: "w_kernel ?w' = kernel_apply E req (w_kernel w)" by (simp add: accept_request_def)
  have "wg_kernel (w_kernel ?w')"
    using workingD(4)[OF assms(1)] servingD(4)[OF w] unfolding k kernel_works_def by blast
  moreover have "Y (w_peers w) (w_peer_seq w) (w_kernel ?w')" unfolding k by (rule assms(2)[OF servingD(5)[OF w]])
  moreover have "intact E m X w" using w by (simp add: serving_def)
  moreover have "db_view ?w' = db_view w" by (simp add: accept_request_def db_view_def)
  ultimately have "intact E m Y ?w'" using intact_kernel by blast
  moreover have "w_fs ?w' = w_fs w" "w_tick w \<le> w_tick ?w'" by (simp_all add: accept_request_def)
  ultimately have "serving E m Y ?w'" by (rule serving_change[OF w])
  then show "\<exists>x w2. (Inr (), ?w') = (Inr x, w2) \<and> serving E m Y w2" by blast
qed

lemma total_new_connection:
  assumes "working E m"
  shows "succeeds (serving E m X) (new_connection E iface) (\<lambda>_. serving E m X)"
  unfolding new_connection_def by (rule total_nl_query[OF assms]) (simp add: servingD(5))

lemma total_find_link:
  assumes "working E m"
  shows "succeeds (serving E m X) (find_link E iface)
    (\<lambda>l. serving E m (\<lambda>rows s k. X rows s k \<and> l = find (has_name iface) (k_links k)))"
proof (rule totalI)
  fix w assume "serving E m X w"
  then have w: "serving E m X (w\<lparr>w_tick := Suc (w_tick w)\<rparr>)" by (rule serving_tick)
  let ?l = "find (has_name iface) (k_links (w_kernel w))"
  have "serving E m (\<lambda>rows s k. X rows s k \<and> ?l = find (has_name iface) (k_links k)) (w\<lparr>w_tick := Suc (w_tick w)\<rparr>)"
    by (rule serving_mono[OF w]) simp
  moreover have "find_link E iface w = (Inr ?l, w\<lparr>w_tick := Suc (w_tick w)\<rparr>)"
    by (simp add: find_link_def dump_links_def Let_def and_then_def await_quiet[OF workingD(1)[OF assms]]
        workingD(6)[OF assms] scan_for_link_ok(1))
  ultimately show "\<exists>x w'. find_link E iface w = (Inr x, w')
      \<and> serving E m (\<lambda>rows s k. X rows s k \<and> x = find (has_name iface) (k_links k)) w'" by blast
qed

text \<open>A link is found; the requests but a deletion keep it.\<close>

lemma total_found_link:
  assumes "working E m" "\<And>rows s k. X rows s k \<Longrightarrow> has_link k iface"
    and "\<And>l. succeeds (serving E m X) (f l) Q"
  shows "succeeds (serving E m X) (and_then (find_link E iface) (\<lambda>found. and_then (lift_res (ok_or e found)) f)) Q"
proof (rule triple_and_then[OF total_find_link[OF assms(1)]])
  fix found
  let ?Y = "\<lambda>rows s k. X rows s k \<and> found = find (has_name iface) (k_links k)"
  show "succeeds (serving E m ?Y) (and_then (lift_res (ok_or e found)) f) Q"
  proof (cases found)
    case None
    show ?thesis
      by (rule serving_False) (use assms(2) None in \<open>unfold has_link_def, metis\<close>)
  next
    case (Some l)
    have "succeeds (serving E m ?Y) (f l) Q" by (rule total_weaken[OF assms(3)]) (erule serving_mono, blast)
    then show ?thesis unfolding Some ok_or_def option.case and_then_lift .
  qed
qed

lemma total_set_link:
  assumes "working E m" "\<And>rows s k. X rows s k \<Longrightarrow> Y rows \<and> has_link k iface" "\<forall>i. req \<noteq> DelLink i"
  shows "succeeds (serving E m X) (nl_send E mk req) (\<lambda>_. serving E m (\<lambda>rows s k. Y rows \<and> has_link k iface))"
  by (rule total_nl_send[OF assms(1)]) (use workingD(4)[OF assms(1)] assms(2,3) in \<open>unfold kernel_works_def, blast\<close>)

definition wg_name :: "u32 \<Rightarrow> rstr" where
  "wg_name pid = ''wgp'' @ show_u32 pid"

lemma total_ensure:
  assumes "working E m"
  shows "succeeds (serving E m (\<lambda>rows _ _. Y rows)) (ensure_wg_interface E (wg_name pid) pid mtu)
    (\<lambda>_. serving E m (\<lambda>rows s k. Y rows \<and> has_link k (wg_name pid)))"
proof -
  let ?i = "wg_name pid"
  let ?X = "\<lambda>rows s k. Y rows" and ?L = "\<lambda>rows s k. Y rows \<and> has_link k ?i"
  have made: "succeeds (serving E m (\<lambda>rows s k. ?X rows s k \<and> existing = find (has_name ?i) (k_links k)))
      (if existing = None then nl_send E (netlink_error ?i) (AddWireguardLink ?i)
       else and_then (lift_res (parse_interface_name E ?i)) (\<lambda>name. and_then (device_get E name) (\<lambda>_. ret ())))
      (\<lambda>_. serving E m ?L)" for existing
  proof (cases "existing = None")
    case True
    show ?thesis unfolding if_P[OF True]
      by (rule total_nl_send[OF assms]) (use workingD(4)[OF assms] in \<open>unfold kernel_works_def, blast\<close>)
  next
    case False
    have name: "parse_interface_name E ?i = Inr ?i" using workingD(10)[OF assms] by (simp add: parse_interface_name_def wg_name_def)
    let ?D = "\<lambda>rows s k. ?L rows s k \<and> (\<exists>d\<in>set (k_devices k). d_name d = ?i)"
    have dev: "succeeds (serving E m ?D) (device_get E ?i) (\<lambda>d. serving E m (\<lambda>rows s k. ?D rows s k \<and> d \<in> set (k_devices k)))"
      by (rule total_device_get[OF assms]) blast
    have "succeeds (serving E m ?D) (and_then (device_get E ?i) (\<lambda>_. ret ())) (\<lambda>_. serving E m ?L)"
      by (rule triple_and_then[OF dev], rule total_ret) (erule serving_mono, blast)
    then show ?thesis unfolding if_not_P[OF False] name and_then_lift
    proof (rule total_weaken)
      fix w assume w: "serving E m (\<lambda>rows s k. ?X rows s k \<and> existing = find (has_name ?i) (k_links k)) w"
      then have link: "has_link (w_kernel w) ?i" using servingD(5)[OF w] False by (simp add: has_link_def)
      then have "has_device (w_kernel w) ?i" using servingD(4)[OF w] unfolding wg_kernel_def wg_name_def by blast
      then have "\<exists>d\<in>set (k_devices (w_kernel w)). d_name d = ?i" by (auto simp: has_device_def find_None_iff)
      then show "serving E m ?D w" using link by (intro serving_mono[OF w]) blast
    qed
  qed
  have set: "succeeds (serving E m ?L) (nl_send E (netlink_error ?i) (SetLink idx ls)) (\<lambda>_. serving E m ?L)" for idx ls
    by (rule total_set_link[OF assms]) blast+
  show ?thesis
    unfolding ensure_wg_interface_def if_not_P[OF workingD(7)[OF assms]]
    by (rule triple_and_then[OF total_new_connection[OF assms]], rule triple_and_then[OF total_find_link[OF assms]],
        rule triple_and_then[OF made], rule total_found_link[OF assms _ set]) blast
qed

lemma total_configure_peer:
  assumes "working E m" "key_from_base64 E (as_str key) \<noteq> None"
  shows "succeeds (serving E m (\<lambda>rows s k. Y rows \<and> has_link k (wg_name pid)))
    (configure_peer E (wg_name pid) (local_wg_privkey m) port key endpoint) (\<lambda>_. serving E m (\<lambda>rows s k. Y rows \<and> has_link k (wg_name pid)))"
proof -
  obtain a b where keys: "key_from_base64 E (local_wg_privkey m) = Some a" "key_from_base64 E (as_str key) = Some b"
    using workingD(9)[OF assms(1)] assms(2) by blast
  have name: "parse_interface_name E (wg_name pid) = Inr (wg_name pid)"
    using workingD(10)[OF assms(1)] by (simp add: parse_interface_name_def wg_name_def)
  show ?thesis
    unfolding configure_peer_def if_not_P[OF workingD(7)[OF assms(1)]] keys ok_or_def option.case and_then_lift name
    by (rule total_set_link[OF assms(1)]) blast+
qed

lemma total_configure_address:
  assumes "working E m"
  shows "succeeds (serving E m (\<lambda>rows s k. Y rows \<and> has_link k iface))
    (configure_local_address E iface address) (\<lambda>_. serving E m (\<lambda>rows s k. Y rows \<and> has_link k iface))"
proof -
  have set: "succeeds (serving E m (\<lambda>rows s k. Y rows \<and> has_link k iface)) (nl_send E (netlink_error iface) (ReplaceAddress idx a n))
      (\<lambda>_. serving E m (\<lambda>rows s k. Y rows \<and> has_link k iface))" for idx a n
    by (rule total_set_link[OF assms]) blast+
  show ?thesis
    unfolding configure_local_address_def if_not_P[OF workingD(7)[OF assms]]
    by (rule triple_and_then[OF total_new_connection[OF assms]], rule total_found_link[OF assms _ set]) blast
qed

lemma total_delete_interface:
  assumes "working E m"
  shows "succeeds (serving E m (\<lambda>rows _ _. Y rows)) (delete_interface E iface) (\<lambda>_. serving E m (\<lambda>rows _ _. Y rows))"
proof -
  have del: "succeeds (serving E m (\<lambda>rows _ _. Y rows)) (nl_send E (netlink_error iface) (DelLink idx)) (\<lambda>_. serving E m (\<lambda>rows _ _. Y rows))" for idx
    by (rule total_nl_send[OF assms])
  show ?thesis
    unfolding delete_interface_def if_not_P[OF workingD(7)[OF assms]]
  proof (rule triple_and_then[OF total_new_connection[OF assms]], rule triple_and_then[OF total_find_link[OF assms]])
    fix found
    show "succeeds (serving E m (\<lambda>rows s k. Y rows \<and> found = find (has_name iface) (k_links k)))
        (case found of None \<Rightarrow> ret () | Some l \<Rightarrow> nl_send E (netlink_error iface) (DelLink (lk_index l)))
        (\<lambda>_. serving E m (\<lambda>rows _ _. Y rows))"
    proof (cases found)
      case None
      show ?thesis unfolding None option.case by (rule total_ret) (erule serving_mono, blast)
    next
      case (Some l)
      show ?thesis unfolding Some option.case by (rule total_weaken[OF del]) (erule serving_mono, blast)
    qed
  qed
qed

definition reachable :: "env \<Rightarrow> rstr option \<Rightarrow> bool" where
  "reachable E endpoint = (\<forall>e. endpoint = Some e \<longrightarrow> (\<forall>n. \<exists>a as. lookup_host E n e = DnsAddresses (a # as)))"

lemma total_resolve:
  assumes "working E m" "reachable E endpoint"
  shows "succeeds (serving E m X) (case endpoint of Some e \<Rightarrow> and_then (resolve_endpoint E e) (\<lambda>a. ret (Some a)) | None \<Rightarrow> ret None)
    (\<lambda>_. serving E m X)"
proof (cases endpoint)
  case None
  show ?thesis unfolding None option.case by (rule total_ret)
next
  case (Some e)
  have "succeeds (serving E m X) (resolve_endpoint E e) (\<lambda>_. serving E m X)"
  proof (rule totalI)
    fix w assume w: "serving E m X w"
    obtain a as where "lookup_host E (w_tick w) e = DnsAddresses (a # as)" using assms(2) Some unfolding reachable_def by blast
    then show "\<exists>x w'. resolve_endpoint E e w = (Inr x, w') \<and> serving E m X w'"
      using serving_tick[OF w] by (simp add: resolve_endpoint_def await_quiet[OF workingD(1)[OF assms(1)]])
  qed
  then show ?thesis unfolding Some option.case by (rule triple_and_then) (rule total_ret)
qed

lemma total_apply_wireguard:
  assumes "working E m" "p_iface_name p = wg_name (p_peer_id p)" "reachable E (p_endpoint p)"
    and "key_from_base64 E (as_str (p_pubkey p)) \<noteq> None"
  shows "succeeds (serving E m (\<lambda>rows _ _. Y rows)) (apply_wireguard E m p) (\<lambda>_. serving E m (\<lambda>rows _ _. Y rows))"
proof -
  let ?L = "\<lambda>rows s k. Y rows \<and> has_link k (wg_name (p_peer_id p))"
  have address: "succeeds (serving E m ?L) (configure_local_address E (wg_name (p_peer_id p)) a) (\<lambda>_. serving E m (\<lambda>rows _ _. Y rows))" for a
    by (rule total_weaken[OF total_configure_address[OF assms(1)]]) (assumption, erule serving_mono, blast)
  show ?thesis
    unfolding apply_wireguard_def assms(2)
    by (rule triple_and_then[OF total_ensure[OF assms(1)]], rule triple_and_then[OF total_resolve[OF assms(1,3)]],
        rule triple_and_then[OF total_configure_peer[OF assms(1,4)] address])
qed

section \<open>nftables and BIRD\<close>

lemma total_sync_nft_for:
  assumes "working E m"
  shows "succeeds (serving E m X) (sync_nft_ports_for E peers) (\<lambda>_. serving E m X)"
  unfolding sync_nft_ports_for_def
proof (rule total_lock[OF workingD(1)[OF assms] _ serving_lock_free], rule totalI)
  fix w assume w: "serving E m X w"
  let ?batch = "nft_port_batch (desired_ports peers)" and ?w1 = "w\<lparr>w_tick := Suc (w_tick w)\<rparr>"
  obtain status err where run: "nft_run E (w_tick w) ?batch = (NftExit True status err, True)"
    using workingD(11)[OF assms] by blast
  have "serving E m X (?w1\<lparr>w_nft_log := w_nft_log w @ [?batch]\<rparr>)"
    by (rule serving_later[OF w]) (simp_all add: db_view_def)
  then show "\<exists>x w'. run_nft_batch E ?batch w = (Inr x, w') \<and> serving E m X w'"
    by (simp add: run_nft_batch_def workingD(8)[OF assms] run_nft_batch_inner_def Let_def run await_quiet[OF workingD(1)[OF assms]])
qed

lemma total_sync_nft:
  assumes "working E m"
  shows "succeeds (serving E m X) (sync_nft_ports E) (\<lambda>_. serving E m X)"
  unfolding sync_nft_ports_def
  by (rule triple_and_then[OF total_list_peers[OF assms]], rule total_assume, rule total_sync_nft_for[OF assms])

lemma total_preserves:
  assumes "succeeds P op Q" "preserves I op"
  shows "succeeds (\<lambda>w. I w \<and> P w) op (\<lambda>x w. I w \<and> Q x w)"
proof (rule totalI)
  fix w assume w: "I w \<and> P w"
  then obtain x w' where "op w = (Inr x, w')" "Q x w'" using totalD[OF assms(1)] by blast
  then show "\<exists>x w'. op w = (Inr x, w') \<and> I w' \<and> Q x w'" using preservesD[OF assms(2)] w by blast
qed

lemma total_sync_bird_for:
  assumes "working E m" "\<forall>p\<in>set peers. peer_typed m (b64_decode E) p"
  shows "succeeds (serving E m X) (sync_bird_configs_for E m peers force_reload) (\<lambda>_. serving E m X)"
  unfolding sync_bird_configs_for_def
proof (rule total_lock[OF workingD(1)[OF assms(1)] _ serving_lock_free])
  have quiet: "quiet E" by (rule workingD(1)[OF assms(1)])
  have "stable E (intact E m X)"
    using intact_cong[of "w\<lparr>w_tick := Suc (w_tick w)\<rparr>" w E m X for w] by (simp add: stable_def await_quiet[OF quiet] db_view_def)
  moreover have "beside_fs store_kernel_view"
    by (simp add: beside_fs_def tick_free_def store_kernel_view_def db_view_def)
  ultimately have keep: "preserves (intact E m X) (sync_bird_locked E m peers force_reload)"
    by (rule bird_preserves(3)[OF _ intact_about])
  have "\<forall>p\<in>set peers. iface_ok p" using assms(2) by (simp add: peer_typed_def iface_ok_def)
  then have "\<exists>d. desired_configs E m peers [] = Inr d" by (rule desired_configs_ok)
  from total_preserves[OF total_sync_bird_locked[OF workingD(2,3)[OF assms(1)] this] keep]
  show "succeeds (serving E m X) (sync_bird_locked E m peers force_reload) (\<lambda>_. serving E m X)"
    by (simp add: serving_def[abs_def])
qed

lemma total_sync_bird:
  assumes "working E m"
  shows "succeeds (serving E m X) (sync_bird_configs E m) (\<lambda>_. serving E m X)"
  unfolding sync_bird_configs_def
  by (rule triple_and_then[OF total_list_peers[OF assms]], rule total_assume, rule total_sync_bird_for[OF assms])

end
