(* ===== verification/Availability.thy ===== *)
theory Availability
  imports Serving
begin

text \<open>
  When the manager succeeds: in an environment that works, from a world that is \<open>serving\<close>, a valid request
  returns \<open>Ok\<close> and leaves the world serving, so that the next one succeeds too; and so does the recovery
  after a restart. The proofs run the operations on the total triples of \<open>Serving\<close>.
\<close>

section \<open>Applying and removing a peer\<close>

definition usable :: "env \<Rightarrow> rstr \<Rightarrow> rstr option \<Rightarrow> bool" where
  "usable E key_text endpoint = (key_from_base64 E key_text \<noteq> None \<and> reachable E endpoint)"

lemma total_apply_peer:
  assumes "working E m" "peer_typed m (b64_decode E) p" "usable E (as_str (p_pubkey p)) (p_endpoint p)"
  shows "succeeds (serving E m (\<lambda>rows _ _. Y rows)) (apply_peer E m p) (\<lambda>_. serving E m (\<lambda>rows _ _. Y rows))"
proof -
  have name: "p_iface_name p = wg_name (p_peer_id p)" using assms(2) by (simp add: peer_typed_def wg_name_def)
  show ?thesis
    unfolding apply_peer_def
    by (rule triple_and_then[OF total_apply_wireguard[OF assms(1) name] total_sync_bird[OF assms(1)]])
      (use assms(3) in \<open>auto simp: usable_def\<close>)
qed

lemma total_remove_external:
  assumes "working E m"
  shows "succeeds (serving E m (\<lambda>rows _ _. Y rows)) (remove_external_state E m p) (\<lambda>_. serving E m (\<lambda>rows _ _. Y rows))"
  unfolding remove_external_state_def
  by (rule triple_and_then[OF total_sync_bird[OF assms] total_delete_interface[OF assms]])

lemma total_marked:
  assumes "working E m" "st \<in> {Provisioning, Active, Deleting, Disabled}"
  shows "succeeds (serving E m (\<lambda>rows _ _. listed pid rows)) (set_status E pid st)
    (\<lambda>b w. b \<and> serving E m (\<lambda>rows _ _. listed pid rows) w)"
  unfolding listed_def by (rule total_set_status[OF assms]) (simp add: listed_def)

section \<open>The operations\<close>

lemma total_create:
  assumes "working E m" "asn \<noteq> local_asn m" "peer_name_ok name" "valid_pubkey (b64_decode E) key" "pair_ok ll"
    and "usable E (as_str key) ep" "20000 \<le> unat port" "unat port \<le> 29999"
    and "\<And>rows s k. X rows s k \<Longrightarrow> room_for asn name port rows s k"
  shows "succeeds (serving E m X) (create_peer E m asn name key ep ll mtu) (\<lambda>p. serving E m (\<lambda>rows _ _. listed (p_peer_id p) rows))"
proof -
  let ?R = "\<lambda>p w. peer_typed m (b64_decode E) p \<and> p_pubkey p = key \<and> p_endpoint p = ep \<and> p_peer_name p = name
       \<and> serving E m (\<lambda>rows _ _. listed (p_peer_id p) rows) w"
  have lock_free: "lock_free (?R p)" for p using serving_lock_free by (auto simp: lock_free_def)
  have reserve: "succeeds (serving E m X) (with_lock E PortLock (reserve_peer E m asn name key ep ll mtu')) ?R" for mtu'
    by (rule total_lock[OF workingD(1)[OF assms(1)] total_reserve_peer[OF assms(1-5,7,8,9)] lock_free])
  let ?undo = "\<lambda>p e. and_then (compensate_failed_create E m p) (\<lambda>_. throw e) :: peer io"
  have finish: "succeeds (?R p) (and_then (attempt (apply_peer E m p)) (\<lambda>applied. case applied of
          Inl error \<Rightarrow> ?undo p error
        | Inr _ \<Rightarrow> and_then (attempt (sync_nft_ports E)) (\<lambda>synced. case synced of
          Inl error \<Rightarrow> ?undo p error
        | Inr _ \<Rightarrow> and_then (attempt (set_status E (p_peer_id p) Active)) (\<lambda>activated. case activated of
          Inl error \<Rightarrow> ?undo p error
        | Inr found \<Rightarrow> if found then ret (p\<lparr>p_status := Active\<rparr>)
            else ?undo p (NotFound asn (p_peer_name p))))))
      (\<lambda>p. serving E m (\<lambda>rows _ _. listed (p_peer_id p) rows))" for p
  proof (rule total_assume, rule total_assume, rule total_assume, rule total_assume)
    assume p: "peer_typed m (b64_decode E) p" "p_pubkey p = key" "p_endpoint p = ep"
    have set: "succeeds (serving E m (\<lambda>rows _ _. listed (p_peer_id p) rows)) (set_status E (p_peer_id p) Active)
        (\<lambda>b w. b \<and> serving E m (\<lambda>rows _ _. listed (p_peer_id p) rows) w)" by (rule total_marked[OF assms(1)]) simp
    show "succeeds (serving E m (\<lambda>rows _ _. listed (p_peer_id p) rows))
      (and_then (attempt (apply_peer E m p)) (\<lambda>applied. case applied of
          Inl error \<Rightarrow> ?undo p error
        | Inr _ \<Rightarrow> and_then (attempt (sync_nft_ports E)) (\<lambda>synced. case synced of
          Inl error \<Rightarrow> ?undo p error
        | Inr _ \<Rightarrow> and_then (attempt (set_status E (p_peer_id p) Active)) (\<lambda>activated. case activated of
          Inl error \<Rightarrow> ?undo p error
        | Inr found \<Rightarrow> if found then ret (p\<lparr>p_status := Active\<rparr>)
            else ?undo p (NotFound asn (p_peer_name p))))))
      (\<lambda>p. serving E m (\<lambda>rows _ _. listed (p_peer_id p) rows))"
      by (rule total_attempt[OF total_apply_peer[OF assms(1) p(1)]], simp add: p assms(6),
          simp only: sum.case, rule total_attempt[OF total_sync_nft[OF assms(1)]],
          simp only: sum.case, rule total_attempt[OF set], simp only: sum.case,
          rule total_assume, simp add: total_ret)
  qed
  show ?thesis
    unfolding create_peer_def
  proof (rule total_lock[OF workingD(1)[OF assms(1)] _ serving_lock_free], rule triple_and_then[OF total_peer_exists[OF assms(1)]])
    fix b
    let ?X = "\<lambda>rows s k. X rows s k \<and> b = list_ex (\<lambda>r. identity_of r = (uint asn, name)) rows"
    show "succeeds (serving E m ?X) (if b then throw (AlreadyExists asn name) else
       and_then (with_lock E PortLock (reserve_peer E m asn name key ep ll
                   (case mtu of None \<Rightarrow> 1420 | Some v \<Rightarrow> v))) (\<lambda>peer.
       if asn = local_asn m then ret peer
       else
         and_then (attempt (apply_peer E m peer)) (\<lambda>applied.
         case applied of
           Inl error \<Rightarrow> ?undo peer error
         | Inr _ \<Rightarrow>
         and_then (attempt (sync_nft_ports E)) (\<lambda>synced.
         case synced of
           Inl error \<Rightarrow> ?undo peer error
         | Inr _ \<Rightarrow>
         and_then (attempt (set_status E (p_peer_id peer) Active)) (\<lambda>activated.
         case activated of
           Inl error \<Rightarrow> ?undo peer error
         | Inr found \<Rightarrow>
             if found then ret (peer\<lparr>p_status := Active\<rparr>)
             else ?undo peer (NotFound asn (p_peer_name peer)))))))
       (\<lambda>p. serving E m (\<lambda>rows _ _. listed (p_peer_id p) rows))"
    proof (cases b)
      case True
      show ?thesis by (rule serving_False) (use True assms(9) in \<open>auto simp: room_for_def list_ex_iff\<close>)
    next
      case False
      have "succeeds (serving E m ?X) (with_lock E PortLock (reserve_peer E m asn name key ep ll mtu')) ?R" for mtu'
        by (rule total_weaken[OF reserve]) (erule serving_mono, blast)
      from triple_and_then[OF this finish] show ?thesis
        unfolding if_not_P[OF False] if_not_P[OF assms(2)] .
    qed
  qed
qed

text \<open>The peer of a request, with what its update needs of it.\<close>

definition peer_listed :: "u32 \<Rightarrow> rstr \<Rightarrow> (peer_row \<Rightarrow> bool) \<Rightarrow> peer_row list \<Rightarrow> bool" where
  "peer_listed asn name R rows =
     ((\<exists>r\<in>set rows. identity_of r = (uint asn, name)) \<and> (\<forall>r\<in>set rows. identity_of r = (uint asn, name) \<longrightarrow> R r))"

definition changeable :: "env \<Rightarrow> wg_pubkey \<Rightarrow> rstr option option \<Rightarrow> peer_row \<Rightarrow> bool" where
  "changeable E key uep r =
     (c_status r \<noteq> ''deleting'' \<and> usable E (as_str key) (case uep of None \<Rightarrow> c_endpoint r | Some e \<Rightarrow> e))"

lemma row_of_listed: "row_of E m p rows \<Longrightarrow> listed (p_peer_id p) rows"
  by (force simp: row_of_def listed_def)

lemma row_of_peer:
  assumes "row_of E m p rows" "p_asn p = asn" "p_peer_name p = name" "peer_listed asn name R rows"
  shows "\<exists>r. R r \<and> row_to_peer (b64_decode E) r = Inr p"
proof -
  obtain r where r: "r \<in> set rows" "row_to_peer (b64_decode E) r = Inr p" using assms(1) unfolding row_of_def by blast
  note F = row_to_peer_fields[OF r(2)]
  have "c_asn r = uint asn" using F(2,13) assms(2) by (auto simp: in_word_range_def unsigned_of_int take_bit_int_eq_self)
  then have "identity_of r = (uint asn, name)" using F(3) assms(3) by (simp add: identity_of_def)
  then show ?thesis using r assms(4) unfolding peer_listed_def by blast
qed

lemma desired_peer_typed:
  assumes "peer_typed m decode old" "p_asn old = asn" "valid_pubkey decode key" "pair_ok ll"
  shows "peer_typed m decode (desired_peer m old key uep ll umtu asn)"
  using assms automatic_pair[of asn "local_asn m"]
  by (cases ll) (auto simp: peer_typed_def storable_def desired_peer_def pair_ok_def)

lemma total_update:
  assumes "working E m" "valid_pubkey (b64_decode E) key" "pair_ok ll"
    and X: "\<And>rows s k. X rows s k \<Longrightarrow> peer_listed asn name (changeable E key uep) rows"
  shows "succeeds (serving E m X) (update_peer E m asn name key uep ll umtu) (\<lambda>p. serving E m (\<lambda>rows _ _. listed (p_peer_id p) rows))"
  unfolding update_peer_def
proof (rule total_lock[OF workingD(1)[OF assms(1)] _ serving_lock_free], rule triple_and_then[OF total_get_peer[OF assms(1)]])
  show "\<exists>r\<in>set rows. identity_of r = (uint asn, name)" if "X rows s k" for rows s k
    using X[OF that] unfolding peer_listed_def by blast
  let ?Q = "\<lambda>p. serving E m (\<lambda>rows _ _. listed (p_peer_id p) rows)"
  fix found
  show "succeeds (\<lambda>w. \<exists>p. found = Some p \<and> p_asn p = asn \<and> p_peer_name p = name \<and> serving E m (\<lambda>rows s k. X rows s k \<and> row_of E m p rows) w)
    (and_then (lift_res (ok_or (NotFound asn name) found)) (\<lambda>old_peer.
     if p_status old_peer = Deleting then throw (NotFound asn name)
     else
       (let desired = desired_peer m old_peer key uep ll umtu asn in
        and_then (update_peer_desired E desired) (\<lambda>found.
        and_then (found_or found asn name) (\<lambda>_.
        and_then (attempt (apply_peer E m desired)) (\<lambda>applied.
        case applied of
          Inl error \<Rightarrow> and_then (compensate_failed_update E m old_peer) (\<lambda>_. throw error)
        | Inr _ \<Rightarrow>
            and_then (set_status E (p_peer_id desired) Active) (\<lambda>activated.
            and_then (found_or activated asn name) (\<lambda>_.
            ret (desired\<lparr>p_status := Active\<rparr>)))))))))
    ?Q"
  proof (cases found)
    case None
    then show ?thesis by (intro triple_false) simp
  next
    case (Some old)
    let ?d = "desired_peer m old key uep ll umtu asn"
    let ?O = "\<lambda>rows s k. X rows s k \<and> row_of E m old rows"
    have d: "p_peer_id ?d = p_peer_id old" "p_listen_port ?d = p_listen_port old" "p_pubkey ?d = key"
        "p_endpoint ?d = (case uep of None \<Rightarrow> p_endpoint old | Some e \<Rightarrow> e)" by (simp_all add: desired_peer_def)
    have set: "succeeds (serving E m (\<lambda>rows _ _. listed (p_peer_id ?d) rows)) (and_then (set_status E (p_peer_id ?d) Active) (\<lambda>activated.
        and_then (found_or activated asn name) (\<lambda>_. ret (?d\<lparr>p_status := Active\<rparr>)))) ?Q"
      by (rule triple_and_then[OF total_marked[OF assms(1)]], simp, rule triple_and_then[OF total_found_or])
        (assumption, rule total_ret, simp)
    text \<open>The two claims about the old peer that its row gives.\<close>
    have run: "succeeds (serving E m ?O) (if p_status old = Deleting then throw (NotFound asn name) else
        and_then (update_peer_desired E ?d) (\<lambda>found. and_then (found_or found asn name) (\<lambda>_.
        and_then (attempt (apply_peer E m ?d)) (\<lambda>applied. case applied of
          Inl error \<Rightarrow> and_then (compensate_failed_update E m old) (\<lambda>_. throw error)
        | Inr _ \<Rightarrow> and_then (set_status E (p_peer_id ?d) Active) (\<lambda>activated.
            and_then (found_or activated asn name) (\<lambda>_. ret (?d\<lparr>p_status := Active\<rparr>))))))) ?Q"
      if old: "peer_typed m (b64_decode E) old" "p_asn old = asn" "p_status old \<noteq> Deleting" "usable E (as_str (p_pubkey ?d)) (p_endpoint ?d)"
    proof -
      have typed: "peer_typed m (b64_decode E) ?d" by (rule desired_peer_typed[OF old(1,2) assms(2,3)])
      have store: "succeeds (serving E m ?O) (update_peer_desired E ?d) (\<lambda>b w. b \<and> serving E m (\<lambda>rows _ _. listed (p_peer_id ?d) rows) w)"
        by (rule total_update_desired[OF assms(1) typed d(1,2)]) blast
      show ?thesis
        unfolding if_not_P[OF old(3)]
        by (rule triple_and_then[OF store], rule triple_and_then[OF total_found_or], assumption,
            rule total_attempt[OF total_apply_peer[OF assms(1) typed old(4)]]) (simp only: sum.case, rule set)
    qed
    show ?thesis
      unfolding Some ok_or_def option.case and_then_lift Let_def
    proof (rule triple_pre)
      fix w assume "\<exists>p. Some old = Some p \<and> p_asn p = asn \<and> p_peer_name p = name \<and> serving E m (\<lambda>rows s k. X rows s k \<and> row_of E m p rows) w"
      then have old: "p_asn old = asn" "p_peer_name old = name" and w: "serving E m ?O w" by auto
      have row: "row_of E m old (w_peers w)" "peer_listed asn name (changeable E key uep) (w_peers w)"
        using servingD(5)[OF w] X by blast+
      obtain r where r: "changeable E key uep r" "row_to_peer (b64_decode E) r = Inr old"
        using row_of_peer[OF row(1) old row(2)] by blast
      have a: "p_status old \<noteq> Deleting"
        using r(1) row_to_peer_fields(8)[OF r(2)] by (auto simp: changeable_def str_to_status_def split: if_splits)
      have b: "usable E (as_str (p_pubkey ?d)) (p_endpoint ?d)"
        using r(1) row_to_peer_fields(7)[OF r(2)] unfolding d changeable_def by (cases uep) simp_all
      have c: "peer_typed m (b64_decode E) old" using row(1) by (simp add: row_of_def)
      show "succeeds (\<lambda>v. v = w) (if p_status old = Deleting then throw (NotFound asn name) else
        and_then (update_peer_desired E ?d) (\<lambda>found. and_then (found_or found asn name) (\<lambda>_.
        and_then (attempt (apply_peer E m ?d)) (\<lambda>applied. case applied of
          Inl error \<Rightarrow> and_then (compensate_failed_update E m old) (\<lambda>_. throw error)
        | Inr _ \<Rightarrow> and_then (set_status E (p_peer_id ?d) Active) (\<lambda>activated.
            and_then (found_or activated asn name) (\<lambda>_. ret (?d\<lparr>p_status := Active\<rparr>))))))) ?Q"
        by (rule total_weaken[OF run[OF c old(1) a b]]) (simp only: w, assumption)
    qed
  qed
qed

lemma total_delete:
  assumes "working E m" and X: "\<And>rows s k. X rows s k \<Longrightarrow> peer_listed asn name (\<lambda>_. True) rows"
  shows "succeeds (serving E m X) (delete_peer E m asn name) (\<lambda>_. serving E m (\<lambda>_ _ _. True))"
  unfolding delete_peer_def
proof (rule total_lock[OF workingD(1)[OF assms(1)] _ serving_lock_free], rule triple_and_then[OF total_get_peer[OF assms(1)]])
  show "\<exists>r\<in>set rows. identity_of r = (uint asn, name)" if "X rows s k" for rows s k
    using X[OF that] unfolding peer_listed_def by blast
  fix found
  show "succeeds (\<lambda>w. \<exists>p. found = Some p \<and> p_asn p = asn \<and> p_peer_name p = name \<and> serving E m (\<lambda>rows s k. X rows s k \<and> row_of E m p rows) w)
    (and_then (lift_res (ok_or (NotFound asn name) found)) (\<lambda>peer.
     and_then (set_status E (p_peer_id peer) Deleting) (\<lambda>marked.
     and_then (found_or marked asn name) (\<lambda>_.
     and_then (attempt (sync_nft_ports E)) (\<lambda>synced.
     case synced of
       Inl error \<Rightarrow>
         and_then (attempt (set_status E (p_peer_id peer) Active)) (\<lambda>_. throw error)
     | Inr _ \<Rightarrow>
     and_then (attempt (remove_external_state E m peer)) (\<lambda>removed.
     case removed of
       Inl error \<Rightarrow> and_then (restore_deleted E m peer) (\<lambda>_. throw error)
     | Inr _ \<Rightarrow>
         and_then (db_delete_peer E (p_peer_id peer)) (\<lambda>deleted.
         and_then (found_or deleted asn name) (\<lambda>_. ret peer))))))))
    (\<lambda>_. serving E m (\<lambda>_ _ _. True))"
  proof (cases found)
    case None
    then show ?thesis by (intro triple_false) simp
  next
    case (Some p)
    let ?L = "\<lambda>rows _ _. listed (p_peer_id p) rows"
    have mark: "succeeds (serving E m ?L) (set_status E (p_peer_id p) Deleting) (\<lambda>b w. b \<and> serving E m ?L w)"
      by (rule total_marked[OF assms(1)]) simp
    have del: "succeeds (serving E m ?L) (db_delete_peer E (p_peer_id p)) (\<lambda>b w. b \<and> serving E m (\<lambda>_ _ _. True) w)"
      by (rule total_db_delete[OF assms(1)]) simp
    have "succeeds (serving E m ?L) (and_then (set_status E (p_peer_id p) Deleting) (\<lambda>marked.
       and_then (found_or marked asn name) (\<lambda>_.
       and_then (attempt (sync_nft_ports E)) (\<lambda>synced. case synced of
         Inl error \<Rightarrow> and_then (attempt (set_status E (p_peer_id p) Active)) (\<lambda>_. throw error)
       | Inr _ \<Rightarrow> and_then (attempt (remove_external_state E m p)) (\<lambda>removed. case removed of
         Inl error \<Rightarrow> and_then (restore_deleted E m p) (\<lambda>_. throw error)
       | Inr _ \<Rightarrow> and_then (db_delete_peer E (p_peer_id p)) (\<lambda>deleted.
           and_then (found_or deleted asn name) (\<lambda>_. ret p)))))))
      (\<lambda>_. serving E m (\<lambda>_ _ _. True))"
      by (rule triple_and_then[OF mark], rule triple_and_then[OF total_found_or], assumption,
          rule total_attempt[OF total_sync_nft[OF assms(1)]], simp only: sum.case,
          rule total_attempt[OF total_remove_external[OF assms(1)]], simp only: sum.case,
          rule triple_and_then[OF del], rule triple_and_then[OF total_found_or], assumption, rule total_ret)
    then show ?thesis
      unfolding Some ok_or_def option.case and_then_lift
      by (rule total_weaken) (auto intro: serving_mono row_of_listed)
  qed
qed

section \<open>Valid requests\<close>

text \<open>What a request needs beyond its validation.\<close>

fun grantable :: "env \<Rightarrow> peer_manager \<Rightarrow> signed_request \<Rightarrow> claim" where
  "grantable E m (CreateRequest asn name key ep ll mtu nonce t) rows s k =
     (asn \<noteq> local_asn m \<and> usable E (as_str key) ep
      \<and> (\<exists>port. 20000 \<le> unat port \<and> unat port \<le> 29999 \<and> room_for asn name port rows s k))"
| "grantable E m (UpdateRequest asn name key uep ll mtu nonce t) rows s k =
     peer_listed asn name (changeable E key uep) rows"
| "grantable E m (DeleteRequest asn name nonce t) rows s k = peer_listed asn name (\<lambda>_. True) rows"

lemma total_perform:
  assumes "working E m" "content_ok (b64_decode E) sr" "serving E m (grantable E m sr) w"
  shows "\<exists>p w'. perform E m sr w = (Inr p, w') \<and> serving E m (\<lambda>_ _ _. True) w'"
proof -
  have weak: "serving E m Y v \<Longrightarrow> serving E m (\<lambda>_ _ _. True) v" for Y v by (erule serving_mono) simp
  note G = servingD(5)[OF assms(3)]
  show ?thesis
  proof (cases sr)
    case (CreateRequest asn name key ep ll mtu nonce t)
    then obtain port where port: "20000 \<le> unat port" "unat port \<le> 29999" "room_for asn name port (w_peers w) (w_peer_seq w) (w_kernel w)"
      and other: "asn \<noteq> local_asn m" "usable E (as_str key) ep" using G by auto
    have c: "peer_name_ok name" "valid_pubkey (b64_decode E) key" "pair_ok ll" using assms(2) CreateRequest by simp_all
    have "serving E m (room_for asn name port) w" by (rule serving_mono[OF assms(3)]) (rule port(3))
    from totalD[OF total_create[OF assms(1) other(1) c other(2) port(1,2)] this]
    show ?thesis unfolding CreateRequest perform.simps using weak by blast
  next
    case (UpdateRequest asn name key uep ll mtu nonce t)
    have c: "valid_pubkey (b64_decode E) key" "pair_ok ll" using assms(2) UpdateRequest by simp_all
    have "serving E m (\<lambda>rows s k. peer_listed asn name (changeable E key uep) rows) w"
      by (rule serving_mono[OF assms(3)]) (simp add: UpdateRequest)
    from totalD[OF total_update[OF assms(1) c] this] show ?thesis unfolding UpdateRequest perform.simps using weak by blast
  next
    case (DeleteRequest asn name nonce t)
    have "serving E m (\<lambda>rows s k. peer_listed asn name (\<lambda>_. True) rows) w"
      by (rule serving_mono[OF assms(3)]) (simp add: DeleteRequest)
    from totalD[OF total_delete[OF assms(1)] this] show ?thesis unfolding DeleteRequest perform.simps .
  qed
qed

section \<open>Recovery\<close>

definition all_usable :: "env \<Rightarrow> peer_row list \<Rightarrow> bool" where
  "all_usable E rows = (\<forall>r\<in>set rows. desired_row r \<longrightarrow> usable E (c_pubkey r) (c_endpoint r))"

definition ids_in :: "peer list \<Rightarrow> peer_row list \<Rightarrow> bool" where
  "ids_in ps rows = ((\<lambda>p. sint (p_peer_id p)) ` set ps \<subseteq> c_peer_id ` set rows)"

definition recoverable :: "env \<Rightarrow> peer_manager \<Rightarrow> peer \<Rightarrow> bool" where
  "recoverable E m p = (peer_typed m (b64_decode E) p \<and>
     (desired_status (p_status p) \<longrightarrow> usable E (as_str (p_pubkey p)) (p_endpoint p)))"

lemma rows_to_peers:
  assumes "collect_results (row_to_peer decode) rows = Inr peers" "\<forall>r\<in>set rows. row_typed m decode r"
  shows "map c_peer_id rows = map (\<lambda>p. sint (p_peer_id p)) peers"
    "\<forall>p\<in>set peers. \<exists>r\<in>set rows. row_to_peer decode r = Inr p \<and> peer_typed m decode p"
proof -
  have l2: "list_all2 (\<lambda>r p. row_to_peer decode r = Inr p) rows peers" using assms(1) unfolding collect_results_Inr .
  have one: "c_peer_id r = sint (p_peer_id p) \<and> peer_typed m decode p"
    if "row_typed m decode r" "row_to_peer decode r = Inr p" for r :: "'a peer_cols_scheme" and p
    using row_typedE[OF that(1)] that(2) by (metis sum.inject(2))
  show "map c_peer_id rows = map (\<lambda>p. sint (p_peer_id p)) peers"
    "\<forall>p\<in>set peers. \<exists>r\<in>set rows. row_to_peer decode r = Inr p \<and> peer_typed m decode p"
    using l2 assms(2) by (induction rows peers rule: list_all2_induct) (auto dest: one)
qed

lemma total_list_all:
  assumes "working E m" "\<And>rows s k. X rows s k \<Longrightarrow> all_usable E rows"
  shows "succeeds (serving E m X) (list_peers E) (\<lambda>peers w. (\<forall>p\<in>set peers. recoverable E m p) \<and>
    distinct (map (\<lambda>p. sint (p_peer_id p)) peers) \<and> serving E m (\<lambda>rows _ _. ids_in peers rows) w)"
  unfolding list_peers_def
proof (rule triple_and_then[OF total_acquire(1)[OF assms(1)]], rule triple_and_then[OF total_select[OF assms(1)]], rule total_lift)
  fix rows w assume w: "serving E m (\<lambda>rs s k. X rs s k \<and> rows = order_rows (collation E) rs) w"
  then have X: "X (w_peers w) (w_peer_seq w) (w_kernel w)" and rows: "rows = order_rows (collation E) (w_peers w)"
    using servingD(5)[OF w] by auto
  then have typed: "\<forall>r\<in>set rows. row_typed m (b64_decode E) r" using servingD(2)[OF w] by (simp add: typed_def set_order_rows)
  then obtain peers where peers: "collect_results (row_to_peer (b64_decode E)) rows = Inr peers" using typed_rows_read by blast
  note R = rows_to_peers[OF peers typed]
  have "recoverable E m p" if p: "p \<in> set peers" for p
  proof -
    obtain r where r: "r \<in> set (w_peers w)" "row_to_peer (b64_decode E) r = Inr p" "peer_typed m (b64_decode E) p"
      using R(2) p unfolding rows set_order_rows by blast
    then show ?thesis using assms(2)[OF X] row_to_peer_fields(5,7,8)[OF r(2)]
      by (auto simp: recoverable_def all_usable_def desired_row_def str_to_status_desired)
  qed
  moreover have "distinct (map c_peer_id rows)"
    unfolding rows using db_invD(1)[OF servingD(1)[OF w]] by (intro distinct_order_rows) (simp add: peers_unique_def)
  then have "distinct (map (\<lambda>p. sint (p_peer_id p)) peers)" unfolding R(1) .
  moreover have "c_peer_id ` set rows = (\<lambda>p. sint (p_peer_id p)) ` set peers" using R(1) by (metis list.set_map)
  then have "ids_in peers (w_peers w)" by (simp add: ids_in_def rows)
  then have "serving E m (\<lambda>rows _ _. ids_in peers rows) w" by (intro serving_mono[OF w])
  ultimately show "\<exists>x. collect_results (row_to_peer (b64_decode E)) rows = Inr x \<and> (\<forall>p\<in>set x. recoverable E m p) \<and>
    distinct (map (\<lambda>p. sint (p_peer_id p)) x) \<and> serving E m (\<lambda>rows _ _. ids_in x rows) w" using peers by blast
qed

text \<open>The reads of the recovery, and the deletions of links.\<close>

lemma total_get_by_id:
  assumes "working E m"
  shows "succeeds (serving E m X) (get_peer_by_id E pid) (\<lambda>_. serving E m X)"
  unfolding get_peer_by_id_def
proof (rule triple_and_then[OF total_acquire(1)[OF assms]], rule triple_and_then[OF total_select[OF assms]], rule totalI)
  fix row w assume w: "serving E m (\<lambda>rs s k. X rs s k \<and> row = find (\<lambda>r. c_peer_id r = sint pid) rs) w"
  have here: "serving E m X w" by (rule serving_mono[OF w]) simp
  show "\<exists>x w'. (case row of None \<Rightarrow> ret None
      | Some r \<Rightarrow> and_then (lift_res (row_to_peer (b64_decode E) r)) (\<lambda>p. ret (Some p))) w = (Inr x, w') \<and> serving E m X w'"
  proof (cases row)
    case (Some r)
    then have "find (\<lambda>r. c_peer_id r = sint pid) (w_peers w) = Some r" using servingD(5)[OF w] by simp
    then obtain p where "row_to_peer (b64_decode E) r = Inr p" using typed_found[OF servingD(2)[OF w]] by blast
    then show ?thesis using here Some by (simp add: and_then_def)
  qed (use here in simp)
qed

lemma total_list_changes:
  assumes "working E m"
  shows "succeeds (serving E m X) (list_peer_changes E) (\<lambda>_. serving E m X)"
  unfolding list_peer_changes_def
proof (rule triple_and_then[OF total_acquire(1)[OF assms]], rule triple_and_then, rule total_execute[OF assms])
  fix w assume w: "serving E m X w"
  have "intact E m (\<lambda>rs s k. X rs s k \<and> (\<forall>e\<in>set (sort_key ev_event_id (w_events w)). row_typed m (b64_decode E) e)) w"
    using w servingD(2)[OF w] by (simp add: serving_def intact_def typed_def)
  then show "\<exists>n w2. sql_select (\<lambda>w. sort_key ev_event_id (w_events w)) w = (Inr n, w2)
      \<and> intact E m (\<lambda>rs s k. X rs s k \<and> (\<forall>e\<in>set n. row_typed m (b64_decode E) e)) w2 \<and> w_fs w2 = w_fs w \<and> w_tick w2 = w_tick w"
    unfolding sql_select_def by blast
next
  fix rows
  let ?f = "\<lambda>row. res_bind (row_to_peer (b64_decode E) row) (\<lambda>p.
         Inr \<lparr>ch_event_id = ev_event_id row, ch_operation = ev_operation row, ch_peer = p\<rparr>) :: peer_error + peer_change"
  show "succeeds (serving E m (\<lambda>rs s k. X rs s k \<and> (\<forall>e\<in>set rows. row_typed m (b64_decode E) e)))
      (lift_res (collect_results ?f rows)) (\<lambda>_. serving E m X)"
  proof (rule total_lift)
    fix w assume w: "serving E m (\<lambda>rs s k. X rs s k \<and> (\<forall>e\<in>set rows. row_typed m (b64_decode E) e)) w"
    then have "\<forall>e\<in>set rows. row_typed m (b64_decode E) e" using servingD(5)[OF w] by blast
    then have "\<exists>cs. collect_results ?f rows = Inr cs"
    proof (induction rows)
      case (Cons r rows)
      then obtain p where "row_to_peer (b64_decode E) r = Inr p" using row_typedE by (metis list.set_intros(1))
      with Cons show ?case by auto
    qed simp
    moreover have "serving E m X w" by (rule serving_mono[OF w]) simp
    ultimately show "\<exists>x. collect_results ?f rows = Inr x \<and> serving E m X w" by blast
  qed
qed

lemma managed_names_total: "\<exists>names'. managed_names names (map Inr links) = Inr names'"
  by (induction links arbitrary: names) (auto split: option.split)

lemma total_list_managed:
  assumes "working E m"
  shows "succeeds (serving E m X) (list_managed_interfaces E) (\<lambda>_. serving E m X)"
  unfolding list_managed_interfaces_def if_not_P[OF workingD(7)[OF assms]]
proof (rule triple_and_then[OF total_new_connection[OF assms]], rule totalI)
  fix w assume w: "serving E m X w"
  obtain names where "managed_names [] (map Inr (k_links (w_kernel w))) = Inr names" using managed_names_total by blast
  then show "\<exists>x w'. and_then (dump_links E) (\<lambda>links. lift_res (managed_names [] links)) w = (Inr x, w') \<and> serving E m X w'"
    using serving_tick[OF w]
    by (simp add: dump_links_def Let_def and_then_def await_quiet[OF workingD(1)[OF assms]] workingD(6)[OF assms])
qed

lemma total_cleanups:
  assumes "working E m"
  shows "succeeds (serving E m (\<lambda>rows _ _. Y rows)) (delete_unlisted E names iface) (\<lambda>_. serving E m (\<lambda>rows _ _. Y rows))"
    "succeeds (serving E m (\<lambda>rows _ _. Y rows)) (delete_changed E c) (\<lambda>_. serving E m (\<lambda>rows _ _. Y rows))"
    "succeeds (serving E m (\<lambda>rows _ _. Y rows)) (with_lock E l (delete_interface E iface)) (\<lambda>_. serving E m (\<lambda>rows _ _. Y rows))"
proof -
  note del = total_delete_interface[OF assms]
  show "succeeds (serving E m (\<lambda>rows _ _. Y rows)) (delete_unlisted E names iface) (\<lambda>_. serving E m (\<lambda>rows _ _. Y rows))"
    unfolding delete_unlisted_def by (cases "iface \<in> set names") (simp_all add: del total_ret)
  show "succeeds (serving E m (\<lambda>rows _ _. Y rows)) (with_lock E l (delete_interface E iface)) (\<lambda>_. serving E m (\<lambda>rows _ _. Y rows))"
    by (rule total_lock[OF workingD(1)[OF assms] del serving_lock_free])
  have "succeeds (serving E m (\<lambda>rows _ _. Y rows)) (if b then delete_interface E i else ret ()) (\<lambda>_. serving E m (\<lambda>rows _ _. Y rows))" for b i
    by (cases b) (simp_all add: del total_ret)
  from triple_and_then[OF total_get_by_id[OF assms] this]
  show "succeeds (serving E m (\<lambda>rows _ _. Y rows)) (delete_changed E c) (\<lambda>_. serving E m (\<lambda>rows _ _. Y rows))"
    unfolding delete_changed_def by (cases "ch_operation c = ''DELETE''") (simp_all add: total_ret)
qed

text \<open>The rows that recovery removes and marks are there when their turn comes.\<close>

lemma total_finish_deletes:
  assumes "working E m" "distinct (map (\<lambda>p. sint (p_peer_id p)) (gone @ staying))"
  shows "succeeds (serving E m (\<lambda>rows _ _. ids_in (gone @ staying) rows)) (for_io (finish_delete E) gone)
    (\<lambda>_. serving E m (\<lambda>rows _ _. ids_in staying rows))"
  using assms(2)
proof (induction gone)
  case Nil
  then show ?case by (simp add: triple_def)
next
  case (Cons p gone)
  let ?id = "\<lambda>p. sint (p_peer_id p)"
  let ?Z = "\<lambda>ids. ?id ` set (gone @ staying) \<subseteq> ids"
  have "succeeds (serving E m (\<lambda>rows _ _. ids_in ((p # gone) @ staying) rows)) (db_delete_peer E (p_peer_id p))
      (\<lambda>b w. b \<and> serving E m (\<lambda>rows _ _. ?Z (c_peer_id ` set rows)) w)"
  proof (rule total_db_delete[OF assms(1)])
    fix rows :: "peer_row list" assume "ids_in ((p # gone) @ staying) rows"
    moreover have "?id p \<notin> ?id ` set (gone @ staying)" using Cons.prems by (auto simp: image_Un)
    ultimately show "listed (p_peer_id p) rows \<and> ?Z (c_peer_id ` set rows - {?id p})"
      unfolding ids_in_def listed_def by (simp del: set_append) blast
  qed
  then have "succeeds (serving E m (\<lambda>rows _ _. ids_in ((p # gone) @ staying) rows)) (finish_delete E p)
      (\<lambda>_. serving E m (\<lambda>rows _ _. ids_in (gone @ staying) rows))"
    unfolding finish_delete_def ids_in_def[symmetric] by (rule triple_and_then) (rule total_found_or)
  moreover have "succeeds (serving E m (\<lambda>rows _ _. ids_in (gone @ staying) rows)) (for_io (finish_delete E) gone)
      (\<lambda>_. serving E m (\<lambda>rows _ _. ids_in staying rows))"
    using Cons by simp
  ultimately show ?case unfolding for_io.simps by (rule triple_and_then)
qed

lemma total_activate:
  assumes "working E m" "p \<in> set ps"
  shows "succeeds (serving E m (\<lambda>rows _ _. ids_in ps rows)) (activate E p) (\<lambda>_. serving E m (\<lambda>rows _ _. ids_in ps rows))"
  unfolding activate_def
proof (rule total_lock[OF workingD(1)[OF assms(1)] _ serving_lock_free])
  let ?Z = "\<lambda>ids. (\<lambda>p. sint (p_peer_id p)) ` set ps \<subseteq> ids"
  have "succeeds (serving E m (\<lambda>rows _ _. ids_in ps rows)) (set_status E (p_peer_id p) Active)
      (\<lambda>b w. b \<and> serving E m (\<lambda>rows _ _. ?Z (c_peer_id ` set rows)) w)"
    by (rule total_set_status[OF assms(1)]) (use assms(2) in \<open>auto simp: ids_in_def listed_def\<close>)
  then show "succeeds (serving E m (\<lambda>rows _ _. ids_in ps rows))
      (and_then (set_status E (p_peer_id p) Active) (\<lambda>found. found_or found (p_asn p) (p_peer_name p)))
      (\<lambda>_. serving E m (\<lambda>rows _ _. ids_in ps rows))"
    unfolding ids_in_def[symmetric] by (rule triple_and_then) (rule total_found_or)
qed

lemma total_recover:
  assumes "working E m" "\<And>rows s k. X rows s k \<Longrightarrow> all_usable E rows"
  shows "succeeds (serving E m X) (recover E m) (\<lambda>_. serving E m (\<lambda>_ _ _. True))"
  unfolding recover_def Let_def
proof (rule triple_and_then[OF total_list_all[OF assms]], assumption, rule total_assume, rule total_assume)
  fix peers
  assume peers: "\<forall>p\<in>set peers. recoverable E m p" and ids: "distinct (map (\<lambda>p. sint (p_peer_id p)) peers)"
  let ?P = "serving E m (\<lambda>rows _ _. ids_in peers rows)"
  let ?want = "filter (\<lambda>p. desired_status (p_status p)) peers" and ?gone = "filter (\<lambda>p. p_status p = Deleting) peers"
  have typed: "\<forall>p\<in>set peers. peer_typed m (b64_decode E) p" using peers by (simp add: recoverable_def)
  have applied: "succeeds ?P (for_io (apply_wireguard E m) ?want) (\<lambda>_. ?P)"
  proof (rule total_for_io, rule total_apply_wireguard[OF assms(1)])
    fix p assume "p \<in> set ?want"
    then have p: "peer_typed m (b64_decode E) p" "usable E (as_str (p_pubkey p)) (p_endpoint p)"
      using peers by (auto simp: recoverable_def)
    then show "p_iface_name p = wg_name (p_peer_id p)" "reachable E (p_endpoint p)" "key_from_base64 E (as_str (p_pubkey p)) \<noteq> None"
      by (auto simp: peer_typed_def wg_name_def usable_def)
  qed
  have "distinct (map (\<lambda>p. sint (p_peer_id p)) (?gone @ ?want))"
  proof -
    have inj: "inj_on (\<lambda>p. sint (p_peer_id p)) (set peers)" and d: "distinct peers" using ids by (simp_all add: distinct_map)
    have "set ?gone \<inter> set ?want = {}" by (auto simp: desired_status_def)
    then have "distinct (?gone @ ?want)" using d by simp
    then show ?thesis using inj unfolding distinct_map by (auto intro: inj_on_subset)
  qed
  note settle = total_finish_deletes[OF assms(1) this]
  have split: "?P w \<Longrightarrow> serving E m (\<lambda>rows _ _. ids_in (?gone @ ?want) rows) w" for w
    by (erule serving_mono) (auto simp: ids_in_def)
  have last: "succeeds (serving E m (\<lambda>rows _ _. ids_in ?want rows)) (for_io (activate E) ?want) (\<lambda>_. serving E m (\<lambda>_ _ _. True))"
    by (rule total_weaken[OF total_for_io[OF total_activate[OF assms(1)]]]) (assumption, assumption, erule serving_mono, rule TrueI)
  show "succeeds ?P (and_then (for_io (apply_wireguard E m) ?want) (\<lambda>_.
     and_then (sync_nft_ports_for E peers) (\<lambda>_.
     and_then (sync_bird_configs_for E m peers True) (\<lambda>_.
     and_then (for_io (\<lambda>p. with_lock E (operation_lock (p_asn p) (p_peer_name p)) (delete_interface E (p_iface_name p)))
                 (filter (\<lambda>p. p_status p = Deleting \<or> p_status p = Disabled) peers)) (\<lambda>_.
     and_then (list_managed_interfaces E) (\<lambda>names.
     and_then (for_io (delete_unlisted E (map p_iface_name ?want)) names) (\<lambda>_.
     and_then (list_peer_changes E) (\<lambda>changes.
     and_then (for_io (delete_changed E) changes) (\<lambda>_.
     and_then (for_io (finish_delete E) ?gone) (\<lambda>_.
     for_io (activate E) ?want))))))))))
    (\<lambda>_. serving E m (\<lambda>_ _ _. True))"
    by (rule triple_and_then[OF applied], rule triple_and_then[OF total_sync_nft_for[OF assms(1)]],
        rule triple_and_then[OF total_sync_bird_for[OF assms(1) typed]],
        rule triple_and_then[OF total_for_io[OF total_cleanups(3)[OF assms(1)]]],
        rule triple_and_then[OF total_list_managed[OF assms(1)]],
        rule triple_and_then[OF total_for_io[OF total_cleanups(1)[OF assms(1)]]],
        rule triple_and_then[OF total_list_changes[OF assms(1)]],
        rule triple_and_then[OF total_for_io[OF total_cleanups(2)[OF assms(1)]]],
        rule triple_and_then[OF total_weaken[OF settle] last]) (erule split, assumption)
qed

section \<open>A world that is ready\<close>

abbreviation works_env :: env where
  "works_env \<equiv> registry_with (\<lambda>_. NoFault)"

lemma works_env_simps [simp]:
  "kernel_apply works_env = sample_kernel" "fs_fault works_env n = NoFault" "nanos works_env = (\<lambda>n. n)"
  "bird_timeout works_env n = False" "key_from_base64 works_env s = Some [1]" "interface_name_ok works_env s"
  "nft_run works_env n batch = (NftExit True [] [], True)" "b64_decode works_env = (\<lambda>_. Inr [])"
  "bird_connect works_env n = bird_connect sample_env n"
  by (simp_all add: registry_with_def) (simp add: sample_env_def)

lemma find_mapped:
  "(\<And>x. P (f x) = P x) \<Longrightarrow> (find P (map f xs) = None) = (find P xs = None)"
  by (induction xs) auto

lemma sample_kernel_links:
  "has_link (sample_kernel (AddWireguardLink i) k) i"
  "(\<forall>idx. req \<noteq> DelLink idx) \<Longrightarrow> has_link k i \<Longrightarrow> has_link (sample_kernel req k) i"
  "wg_kernel k \<Longrightarrow> wg_kernel (sample_kernel req k)"
proof -
  have named: "has_name i (if b then l\<lparr>lk_attributes := lk_attributes l @ [IfAlias a]\<rparr> else l) = has_name i l" for b l a i
    by (simp add: has_name_def)
  have set_link: "has_link (sample_kernel (SetLink idx ls) k) i = has_link k i" for idx ls i
    using find_mapped[of "has_name i", OF named, of "\<lambda>l. lk_index l = idx" "\<lambda>_. ls_alias ls" "k_links k"]
    by (simp add: has_link_def del: not_None_eq)
  have dropped: "has_link (sample_kernel (DelLink idx) k) i \<Longrightarrow> has_link k i" for idx i
    by (auto simp: has_link_def find_None_iff)
  have device: "has_device (sample_kernel (ApplyDevice name u) k) i = has_device k i" for name u i
    using find_mapped[of "\<lambda>d. d_name d = i" "\<lambda>d. if d_name d = name then d\<lparr>d_listen_port := Some (du_listen_port u)\<rparr> else d" "k_devices k"]
    by (simp add: has_device_def del: not_None_eq)
  show "has_link (sample_kernel (AddWireguardLink i) k) i"
    by (simp add: has_link_def find_None_iff has_name_def)
      (rule exI[of _ "\<lparr>lk_index = next_index (k_links k), lk_attributes = [IfName i]\<rparr>"], simp)
  show "(\<forall>idx. req \<noteq> DelLink idx) \<Longrightarrow> has_link k i \<Longrightarrow> has_link (sample_kernel req k) i"
    using set_link by (cases req) (auto simp: has_link_def find_None_iff)
  have added: "has_link (sample_kernel (AddWireguardLink j) k) i \<Longrightarrow> has_link k i \<or> i = j"
    "has_device k i \<or> i = j \<Longrightarrow> has_device (sample_kernel (AddWireguardLink j) k) i" for i j
    by (auto simp: has_link_def has_device_def find_None_iff has_name_def)
  have same: "has_device (sample_kernel (SetLink idx ls) k) i = has_device k i" "has_device (sample_kernel (DelLink idx) k) i = has_device k i"
    "has_link (sample_kernel (ApplyDevice name u) k) i = has_link k i" for idx ls name u i
    by (simp_all add: has_device_def has_link_def)
  show "wg_kernel k \<Longrightarrow> wg_kernel (sample_kernel req k)"
    unfolding wg_kernel_def using added set_link dropped device same by (cases req) (simp_all, blast+)
qed

lemma works_env_works: "working works_env m"
proof -
  have "calm works_env" by (simp add: calm_def nft_honest_def)
  moreover have "fs_works works_env" by (simp add: fs_works_def)
  moreover have "bird_works works_env" by (simp add: bird_works_def) code_simp
  moreover have "kernel_works works_env" using sample_kernel_links by (simp add: kernel_works_def)
  ultimately show ?thesis by (simp add: working_def)
qed

abbreviation ready_manager :: peer_manager where
  "ready_manager \<equiv> sample_manager\<lparr>local_asn := 9\<rparr>"

lemma orderly_fresh: "orderly_dir E [] n []"
  using bird_layout_fresh by (auto simp: orderly_dir_def tidy_def names_free_def clock_names_def fs_get_def)

lemma ready_example:
  assumes "db_inv w" "typed (st_manager sample_state) (\<lambda>_. Inr []) w" "\<forall>r\<in>set (w_peers w). c_peer_id r \<le> w_peer_seq w"
    and "w_kernel w = w_kernel empty_world" "w_fs w = []"
  shows "serving works_env ready_manager (\<lambda>_ _ _. True) w"
proof -
  have same: "peer_typed ready_manager = peer_typed (st_manager sample_state)"
    by (intro ext) (simp add: peer_typed_def sample_state_def)
  have "ok works_env ready_manager w"
    using assms(2) unfolding typed_def row_typed_def same works_env_simps .
  moreover have "wg_kernel (w_kernel w)" by (simp add: assms(4) empty_world_def wg_kernel_def has_link_def)
  moreover have "now (orderly_dir works_env (bird_conf_dir ready_manager)) w"
    using orderly_fresh by (simp add: now_def assms(5) sample_manager_def)
  ultimately show ?thesis using assms(1,3) by (simp add: serving_def intact_def)
qed

section \<open>The service stays available\<close>

definition ready :: "env \<Rightarrow> peer_manager \<Rightarrow> world \<Rightarrow> bool" where
  "ready E m = serving E m (\<lambda>_ _ _. True)"

text \<open>Authorizing a request consumes its nonce and leaves the world serving.\<close>

lemma serving_permits: "serving E m X (w\<lparr>w_permits := n\<rparr>) = serving E m X w"
proof -
  have "intact E m X (w\<lparr>w_permits := n\<rparr>) = intact E m X w" by (rule intact_cong) (simp_all add: db_view_def)
  then show ?thesis by (simp add: serving_def now_def)
qed

lemma preserves_permit_serving:
  assumes "preserves (serving E m X) op"
  shows "preserves (serving E m X) (with_permit op)"
proof (rule preservesI)
  fix w assume w: "serving E m X w"
  then have "serving E m X (snd (op (w\<lparr>w_permits := w_permits w - 1\<rparr>)))"
    using assms unfolding preserves_def by (simp add: serving_permits)
  with w show "serving E m X (snd (with_permit op w))" by (simp add: with_permit_world serving_permits)
qed

lemma authorize_serving:
  assumes "quiet E"
  shows "preserves (serving E m X) (authorize E st asn c message)"
proof -
  note st = serving_stable[OF assms, of m X]
  have consume: "serving E m X (snd (sql_consume_nonce nonce asn' t t' w))" if w: "serving E m X w" for w nonce asn' t t'
  proof (rule serving_change[OF w])
    let ?w' = "snd (sql_consume_nonce nonce asn' t t' w)"
    have same: "w_peers ?w' = w_peers w" "w_peer_seq ?w' = w_peer_seq w" "w_kernel ?w' = w_kernel w"
      by (simp_all add: sql_consume_nonce_def)
    have "db_inv ?w'" by (rule sql_nonce_inv(2)[OF servingD(1)[OF w]])
    moreover have "ok E m ?w'" by (rule typed_other(2)[OF servingD(2)[OF w]])
    ultimately show "intact E m X ?w'" using servingD(3-5)[OF w] unfolding intact_def same by blast
  qed (simp_all add: sql_consume_nonce_def)
  show ?thesis
    unfolding authorize_def authorize_request_def consume_nonce_def
    by (intro frame_rules st preserves_permit_serving preserves_registry_check preserves_execute consume)
qed

fun success_status :: "api_request \<Rightarrow> nat" where
  "success_status (CreateApi r) = 201"
| "success_status (UpdateApi r) = 200"
| "success_status (DeleteApi r) = 200"

lemma respond_status: "signed_form E r = Inr sr \<Longrightarrow> fst (respond m sr p) = success_status r"
  by (cases r) (auto simp: res_bind_Inr)

text \<open>
  C11. The service is available. In an environment that works (nothing interferes, no call fails, the kernel, BIRD
  and nftables do as they are told), from a world that is ready, a request that is authorized and can be
  granted is answered with its success status, whichever operation it asks for, and leaves the world
  ready for the next one. A creation can be granted while its name is new, an id is left in the sequence
  and one port from 20000 through 29999 is used by no device and no row; an update, while the peer is
  listed and not being deleted; a deletion, while it is listed; a key must be one that WireGuard takes and
  an endpoint must resolve.
\<close>

theorem authorized_requests_succeed:
  assumes "working E (st_manager st)" "ready E (st_manager st) w" "keys_valid E r" "signed_form E r = Inr sr"
    and "grantable E (st_manager st) sr (w_peers w) (w_peer_seq w) (w_kernel w)"
    and "authorize E st (api_asn r) (api_challenge r) (signing_message sr) w = (Inr (), w1)"
  shows "\<exists>response w'. run_request E st r w = (Inr (success_status r, response), w') \<and> ready E (st_manager st) w'"
proof -
  let ?m = "st_manager st"
  have "serving E ?m (grantable E ?m sr) w"
    by (rule serving_mono[OF assms(2)[unfolded ready_def]]) (rule assms(5))
  then have "serving E ?m (grantable E ?m sr) w1"
    by (rule preservesD[OF authorize_serving[OF workingD(1)[OF assms(1)]] _ assms(6)])
  from total_perform[OF assms(1) signed_form_content[OF assms(3,4)] this]
  obtain p w' where run: "perform E ?m sr w1 = (Inr p, w')" and w': "ready E ?m w'" unfolding ready_def by blast
  have "run_request E st r w = (Inr (respond ?m sr p), w')"
    using run assms(4,6) by (simp add: run_request_shape and_then_def)
  then show ?thesis using respond_status[OF assms(4), of ?m p] w' by (metis prod.collapse)
qed

theorem authorized_requests_succeed_witness:
  "\<exists>response w'. run_request works_env \<lparr>st_manager = ready_manager, st_authorizer = sample_authorizer\<rparr>
     (CreateApi sample_create) nonce_world = (Inr (201, response), w')"
proof -
  let ?st = "\<lparr>st_manager = ready_manager, st_authorizer = sample_authorizer\<rparr>" and ?r = "CreateApi sample_create"
  let ?sr = "CreateRequest 7 ''fra1'' (p_pubkey sample_peer) None None None ''n'' 1200"
  have name: "parse_peer_name ''fra1'' = Inr ''fra1''"
    by (simp add: parse_peer_name_iff peer_name_trim peer_name_ok_def name_char_def
        is_ascii_lowercase_def is_ascii_digit_def byte_def)
  have form: "signed_form works_env ?r = Inr ?sr"
    by (simp add: sample_create_def name parse_endpoint_def parse_link_local_def)
  have ready: "ready works_env ready_manager nonce_world"
    unfolding ready_def by (rule ready_example)
      (simp_all add: nonce_world_def empty_world_def db_inv_def peers_unique_def events_ok_def typed_def)
  have keys: "keys_valid works_env ?r" using storable_sample by (simp add: sample_create_def storable_def)
  have "\<exists>port. 20000 \<le> unat port \<and> unat port \<le> 29999 \<and> room_for 7 ''fra1'' port [] 0 \<lparr>k_links = [], k_devices = []\<rparr>"
    by (rule exI[of _ 20007]) (simp add: room_for_def port_free_def)
  then have grant: "grantable works_env ready_manager ?sr (w_peers nonce_world) (w_peer_seq nonce_world) (w_kernel nonce_world)"
    by (auto simp: nonce_world_def empty_world_def usable_def reachable_def)
  obtain w1 where auth: "authorize works_env ?st (api_asn ?r) (api_challenge ?r) (signing_message ?sr) nonce_world = (Inr (), w1)"
    using sample_authorize[of "\<lambda>_. NoFault" "''sig''" "signing_message ?sr"] by (auto simp: authorize_def sample_create_def)
  show ?thesis
    using authorized_requests_succeed[of works_env ?st nonce_world ?r ?sr w1] works_env_works ready keys form grant auth
    by auto
qed

text \<open>
  C12. A restart succeeds: in an environment that works, from a world that is ready, \<open>recover\<close> returns \<open>Ok\<close> and
  leaves the world ready, whatever the statuses of the rows, the links of the kernel and the pending
  changes are, as long as the keys and the endpoints of the wanted peers can be used.
\<close>

theorem recovery_succeeds:
  assumes "working E m" "ready E m w" "all_usable E (w_peers w)"
  shows "\<exists>w'. recover E m w = (Inr (), w') \<and> ready E m w'"
proof -
  have "serving E m (\<lambda>rows _ _. all_usable E rows) w"
    by (rule serving_mono[OF assms(2)[unfolded ready_def]]) (rule assms(3))
  from totalD[OF total_recover[OF assms(1)] this] show ?thesis unfolding ready_def by simp
qed

theorem recovery_succeeds_witness:
  "\<exists>w'. recover works_env ready_manager (empty_world\<lparr>w_peers := [reserved_row sample_peer 9], w_peer_seq := 5\<rparr>) = (Inr (), w')"
proof -
  let ?w = "empty_world\<lparr>w_peers := [reserved_row sample_peer 9], w_peer_seq := 5\<rparr>"
  have "db_inv one_peer_world" using one_peer_sound by (simp add: sound_def)
  then have inv: "db_inv ?w" by (simp add: one_peer_world_def db_inv_def)
  have "typed (st_manager sample_state) (\<lambda>_. Inr []) ?w" using sample_typed by (simp add: typed_def)
  from ready_example[OF inv this] have "ready works_env ready_manager ?w"
    by (simp add: ready_def empty_world_def sample_peer_def)
  moreover have "c_endpoint (reserved_row sample_peer 9) = None"
    by (simp add: reserved_row_def peer_to_cols_def peer_cols.defs sample_peer_def)
  then have "all_usable works_env (w_peers ?w)" by (simp add: all_usable_def usable_def reachable_def)
  ultimately show ?thesis using recovery_succeeds[OF works_env_works] by blast
qed

end
