(* ===== verification/Routes.thy ===== *)
theory Routes
  imports Handle
begin

text \<open>
  The router of \<open>src/main.rs\<close> and the API document that \<open>src/handle.rs\<close> derives from the attributes of its
  handlers (\<open>utoipa::path\<close>, \<open>openapi(paths(...), components(...))\<close>): which handler serves which method and path,
  the bodies that it takes, and the statuses and bodies that it is documented to answer with. How the router
  matches a path is the library's, and so is the rendering of the document.
\<close>

datatype http_method = GET | POST | PATCH | DELETE

datatype handler =
    CreateChallenge
  | GetPeersHandler
  | CreatePeer
  | UpdatePeer
  | DeletePeer
  | OpenapiJson

text \<open>The calls of \<open>Router::route\<close>, in their order.\<close>

definition routes :: "(rstr \<times> (http_method \<times> handler) list) list" where
  "routes =
     [(''/api/challenges'', [(POST, CreateChallenge)]),
      (''/api/peers/{asn}'', [(GET, GetPeersHandler)]),
      (''/api/peers'', [(POST, CreatePeer), (PATCH, UpdatePeer), (DELETE, DeletePeer)]),
      (''/api-docs/openapi.json'', [(GET, OpenapiJson)])]"

text \<open>The types that derive \<open>ToSchema\<close>, and the types that their fields name.\<close>

datatype schema =
    ChallengeRequest
  | ChallengeResponse
  | CreatePeerReq
  | UpdatePeerReq
  | DeletePeerReq
  | ChallengeSchema
  | PeerResponse
  | WgConfig
  | BgpConfig
  | PeerInfo
  | ErrorResponse

fun field_schemas :: "schema \<Rightarrow> schema list" where
  "field_schemas CreatePeerReq = [ChallengeSchema]"
| "field_schemas UpdatePeerReq = [ChallengeSchema]"
| "field_schemas DeletePeerReq = [ChallengeSchema]"
| "field_schemas PeerResponse = [WgConfig, BgpConfig]"
| "field_schemas _ = []"

text \<open>
  The attributes of the handlers: method, path, the body of the request, and the documented responses; a
  body is one value of a type or a list of them.
\<close>

datatype body = One schema | VecOf schema

record operation_doc =
  doc_method :: http_method
  doc_path :: rstr
  doc_request :: "schema option"
  doc_responses :: "(nat \<times> body) list"

definition create_challenge_doc :: operation_doc where
  "create_challenge_doc =
     \<lparr>doc_method = POST, doc_path = ''/api/challenges'', doc_request = Some ChallengeRequest,
      doc_responses = [(201, One ChallengeResponse)]\<rparr>"

definition get_peers_doc :: operation_doc where
  "get_peers_doc =
     \<lparr>doc_method = GET, doc_path = ''/api/peers/{asn}'', doc_request = None,
      doc_responses = [(200, VecOf PeerInfo)]\<rparr>"

definition create_peer_doc :: operation_doc where
  "create_peer_doc =
     \<lparr>doc_method = POST, doc_path = ''/api/peers'', doc_request = Some CreatePeerReq,
      doc_responses = [(201, One PeerResponse), (403, One ErrorResponse), (400, One ErrorResponse)]\<rparr>"

definition update_peer_doc :: operation_doc where
  "update_peer_doc =
     \<lparr>doc_method = PATCH, doc_path = ''/api/peers'', doc_request = Some UpdatePeerReq,
      doc_responses = [(200, One PeerResponse), (404, One ErrorResponse), (403, One ErrorResponse)]\<rparr>"

definition delete_peer_doc :: operation_doc where
  "delete_peer_doc =
     \<lparr>doc_method = DELETE, doc_path = ''/api/peers'', doc_request = Some DeletePeerReq,
      doc_responses = [(200, One PeerResponse), (404, One ErrorResponse), (403, One ErrorResponse)]\<rparr>"

text \<open>The operations and the schemas that the document lists.\<close>

definition api_doc_paths :: "(handler \<times> operation_doc) list" where
  "api_doc_paths =
     [(CreateChallenge, create_challenge_doc), (CreatePeer, create_peer_doc), (UpdatePeer, update_peer_doc),
      (DeletePeer, delete_peer_doc), (GetPeersHandler, get_peers_doc)]"

definition api_doc_schemas :: "schema list" where
  "api_doc_schemas =
     [ChallengeRequest, ChallengeResponse, CreatePeerReq, UpdatePeerReq, DeletePeerReq, ChallengeSchema,
      PeerResponse, WgConfig, BgpConfig, PeerInfo, ErrorResponse]"

definition served :: "(http_method \<times> rstr \<times> handler) list" where
  "served = concat (map (\<lambda>(path, hs). map (\<lambda>(method, h). (method, path, h)) hs) routes)"

definition documented :: "(http_method \<times> rstr \<times> handler) list" where
  "documented = map (\<lambda>(h, d). (doc_method d, doc_path d, h)) api_doc_paths"

fun handler_of :: "api_request \<Rightarrow> handler" where
  "handler_of (CreateApi r) = CreatePeer"
| "handler_of (UpdateApi r) = UpdatePeer"
| "handler_of (DeleteApi r) = DeletePeer"

text \<open>The name of the type of a request's body.\<close>

fun body_schema :: "api_request \<Rightarrow> schema" where
  "body_schema (CreateApi r) = CreatePeerReq"
| "body_schema (UpdateApi r) = UpdatePeerReq"
| "body_schema (DeleteApi r) = DeletePeerReq"

text \<open>The schemas that an operation refers to, directly or in the fields of a body.\<close>

fun body_type :: "body \<Rightarrow> schema" where
  "body_type (One t) = t"
| "body_type (VecOf t) = t"

definition referenced :: "operation_doc \<Rightarrow> schema set" where
  "referenced d =
     (let direct = set_option (doc_request d) \<union> (\<lambda>(s, b). body_type b) ` set (doc_responses d)
      in direct \<union> (\<Union>t\<in>direct. set (field_schemas t)))"

definition documented_statuses :: "handler \<Rightarrow> nat list" where
  "documented_statuses h = (case map_of api_doc_paths h of None \<Rightarrow> [] | Some d \<Rightarrow> map fst (doc_responses d))"

lemmas doc_defs = routes_def api_doc_paths_def create_challenge_doc_def get_peers_doc_def create_peer_doc_def
  update_peer_doc_def delete_peer_doc_def api_doc_schemas_def

lemma request_success_status:
  assumes "run_request E st r w = (Inr (s, body), w')"
  shows "s = (case r of CreateApi _ \<Rightarrow> 201 | _ \<Rightarrow> 200)"
proof -
  obtain sr p where sr: "signed_form E r = Inr sr" "respond (st_manager st) sr p = (s, body)"
    using assms unfolding run_request_shape by (auto simp: and_then_Inr)
  then show ?thesis by (cases r) (auto simp: res_bind_Inr)
qed


end
