(* ===== verification/Spec2Isabelle.thy ===== *)
theory Spec2Isabelle
  imports Handle Lifecycle BirdSync Store Startup Recovery Isolation Locks Answers Availability Routes
begin

text \<open>
  A model of the \<open>dn42-autopeer\<close> service: an HTTP API through which the operator of a DN42 network
  creates, changes and deletes WireGuard and BGP peerings with the service's node. Each request is
  signed with a key of the DN42 registry; the service keeps the peers in PostgreSQL and brings the
  kernel's WireGuard links, BIRD's configuration files and an nftables set in line with them.

  \<^bold>\<open>The parts and their theories\<close> (paths are those of the repository):

  \<^item> \<open>Prelude\<close>: results (\<open>Result\<close> as a sum), lists, the collection \<open>frame_rules\<close>.
  \<^item> \<open>Text\<close>, \<open>Ipv6\<close>: Rust strings as lists of bytes, \<open>trim\<close>, integer and address formatting and
    parsing of the standard library, as the code uses them; the interface \<open>text_codec\<close>.
  \<^item> \<open>Errors\<close>: \<open>src/error.rs\<close> and the error half of \<open>src/observability.rs\<close>. \<open>Observe\<close>: its other half, the
    request ids, the logging middleware and the observed stages.
  \<^item> \<open>Peer\<close>: \<open>src/peer.rs\<close>, \<open>src/wg_pubkey.rs\<close>. \<open>Template\<close>: \<open>src/template.rs\<close>, \<open>templates/peer.conf\<close>.
  \<^item> \<open>World\<close>: the state, the environment and the monad (below). \<open>Sample\<close>: an environment and a peer
    for examples. \<open>Triples\<close>: assertions before and after an operation.
  \<^item> \<open>Persist\<close>: \<open>src/persist.rs\<close>, the tables with their constraints and trigger, every SQL statement as a
    function on them, and every operation of \<open>PeerStore\<close>; the interface \<open>nonce_ledger\<close>. \<open>Store\<close>: a
    specification of the tables and its refinement. \<open>Connect\<close>: the connection options and the schema.
  \<^item> \<open>Netlink\<close>: \<open>src/netlink.rs\<close>. \<open>Nft\<close>: the nftables half of \<open>src/manager.rs\<close>.
  \<^item> \<open>Files\<close>, \<open>Bird\<close>, \<open>BirdSync\<close>: the file system, the BIRD half of \<open>src/manager.rs\<close>, and what it achieves.
  \<^item> \<open>Challenge\<close>: \<open>src/challenge.rs\<close>, challenges, signing messages, signatures, the registry check.
  \<^item> \<open>Manager\<close>, \<open>Lifecycle\<close>: the operations of \<open>PeerManager\<close> with their compensations, recovery and the
    job of pending changes, and properties of their parts. \<open>Outcomes\<close>: from the rows alone, which files BIRD
    has to be served and which ports have to be open, and that a successful creation, update or
    deletion leaves both so. \<open>Recovery\<close>: the same of recovery and of the job of pending changes.
    \<open>Isolation\<close>: an operation on one peer, failed or not, leaves the rows of all others alone.
  \<^item> \<open>Handle\<close>: \<open>src/handle.rs\<close>, validation, authorization, the handlers and their responses.
  \<^item> \<open>Rows\<close>, \<open>Answers\<close>: the type of the rows that the service writes, that every task keeps to it, and the
    statuses with which each handler can fail. \<open>Routes\<close>: the router's table, and the API
    document with its operations, their bodies and its schemas.
  \<^item> \<open>BirdLive\<close>, \<open>Serving\<close>, \<open>Availability\<close>: total triples (\<open>total\<close>: the operation returns a value), of the
    synchronization of BIRD, of every other operation on the store and the kernel, and of the requests and
    the recovery: in an environment that works they succeed, and leave the world ready for the next.
  \<^item> \<open>Locks\<close>: the mutexes of \<open>src/manager.rs\<close>: the order in which every task takes them, and that tasks run
    together exclude each other, never deadlock and all finish.
  \<^item> \<open>Startup\<close>: \<open>src/main.rs\<close>, the configuration, the order of startup, the periodic reconciler, and the
    change listener as a transition relation.
  \<^item> This theory: the properties that span components.

  \<^bold>\<open>State, effects and faults.\<close> An \<open>async fn\<close> that returns \<open>Result\<close> is a function of type \<open>'a io\<close>: from a
  \<open>world\<close> to an error or a value, and the world it leaves. \<open>and_then\<close> is \<open>?\<close>, \<open>attempt\<close> is awaiting without
  \<open>?\<close>. The world holds the tables, the kernel with the log of requests it accepted, the files with the
  log of what BIRD was told to read, the batches that nftables accepted, and the locks that the task took
  and released (\<open>w_locks\<close>; \<open>with_lock\<close> is the scope of a guard, left on every way out). Everything the program does
  not define is a field of \<open>env\<close>: clocks, nonces, the crates for keys, signatures, URLs and netlink, DNS,
  the registry, BIRD's socket, the \<open>nft\<close> process. Each external call first passes an \<open>await\<close> point, where
  other tasks may change the world (\<open>interfere\<close>), and may fail, either with no effect or after its effect.

  \<^bold>\<open>How to read the theorems.\<close> \<open>quiet E\<close> says that no other task runs in between; a theorem with it speaks
  of one request at a time, under any faults. \<open>stable E I\<close> says that the others keep the assertion \<open>I\<close>.
  \<open>respects_nft_lock\<close> and \<open>respects_bird_lock\<close> say that the others leave nftables, or BIRD and its files, alone
  while this task holds their lock; the theorems of the two synchronizations hold under any such interference.
  Theorems about interleavings work on the database statements and on the traces of the locks. \<open>calm E\<close> is \<open>quiet E\<close> with real
  services and an honest \<open>nft\<close>. \<open>working E m\<close> is \<open>calm E\<close> with a kernel and a file system that do as they are told and a BIRD
  that accepts its configuration; \<open>ready E m\<close> says that the tables are sound and typed, that devices belong to
  links, and that the generations of BIRD's directory are older than the clock. \<open>honest_faults\<close>, \<open>nft_honest\<close>
  and \<open>signable\<close> are documented behaviour of the kernel, of \<open>nft\<close> and of the handlers' validation.

  \<^bold>\<open>Bounds.\<close> Path resolution follows at most 40 symbolic links, as Linux does. The port search goes
  through the 10000 offsets of the code. All other loops recurse on the list they traverse; the lines of
  BIRD's socket are a finite list, whose end is the end of the stream, and a conversation that takes
  longer than the code's timeout is the outcome \<open>bird_timeout\<close>.

  In \<open>Locks\<close>, each task runs the trace of its own run of the model, in its own environment; the schedules are
  arbitrary.

  \<^bold>\<open>Not modelled.\<close> How the router matches a path, CORS, the HTTP server and the signal handling of \<open>src/main.rs\<close>, the
  subscriber and the output format of the logs (the operations are modelled without their log events,
  \<open>Observe\<close> models what wraps them), tests, the properties and texts in the schemas of the OpenAPI document, the deployment files and the mock
  registry. That another task changes nftables or BIRD's files only under their lock is a hypothesis on
  the interference, as the kernel and the files have other users too. A panic of a library call, and a handler that is dropped
  when its client goes away, are outside the model.
\<close>

section \<open>Values and texts\<close>



text \<open>
  C28. A rendered peer file has the lines of the template and no more, whatever the peer's name,
  interface or addresses hold: a field cannot add a line of BIRD configuration.
\<close>

theorem rendered_lines_fixed:
  "count_list (render_peer_config E m p) LF = 21 + count_list (template_trailer E) LF"
  unfolding render_peer_config_def by (rule render_line_count)

text \<open>
  C29. Responses hide internals: an error of the kernel, BIRD, nftables or the database is answered
  with status 500 and the same body whatever its content, and logged as an error; every other error
  is answered with a client or registry status, its own code and a detail, and its log entry carries
  the code of the answer.
\<close>

theorem responses_hide_internals:
  "(if server_side e
    then into_response e = (500, \<lparr>resp_error = ''internal_error'', resp_detail = None\<rparr>)
      \<and> api_failure_level e = ERROR
    else fst (into_response e) \<noteq> 500 \<and> resp_error (snd (into_response e)) = info_code (log_info e)
      \<and> resp_detail (snd (into_response e)) \<noteq> None)"
  using server_side_response client_response
  by (auto simp: log_info_code api_failure_level_def emit_failure_level_def)

section \<open>The database's invariant\<close>

text \<open>
  C14. No request, background job or recovery breaks the tables: peer ids, listen ports and the pair
  of ASN and name stay unique, names fit their column, nonces stay unique and the change events keep
  ascending ids. This holds under any faults of any external call and any interference that keeps the
  invariant itself.
\<close>

theorem database_invariant_kept:
  assumes "stable E db_inv" "db_inv w"
  shows "db_inv (snd (run_request E st r w))
    \<and> db_inv (snd (handle_create_challenge E st asn w))
    \<and> db_inv (snd (recover E (st_manager st) w))
    \<and> db_inv (snd (sync_pending_peer_changes E (st_manager st) w))
    \<and> db_inv (snd (sync_nft_ports E w))"
proof -
  note rules = frame_rules manager_preserves[OF assms(1)] preserves_authorize_request[OF assms(1)]
    preserves_issue_challenge[OF assms(1)] assms(1)
  have perform: "preserves db_inv (perform E (st_manager st) sr)" for sr
    by (cases sr) (simp_all add: rules)
  have "preserves db_inv (run_request E st r)"
    unfolding run_request_shape authorize_def by (intro rules perform)
  moreover have "preserves db_inv (handle_create_challenge E st asn)"
    unfolding handle_create_challenge_def by (intro rules)
  moreover have "preserves db_inv (recover E (st_manager st))"
    "preserves db_inv (sync_pending_peer_changes E (st_manager st))"
    "preserves db_inv (sync_nft_ports E)"
    by (intro rules)+
  ultimately show ?thesis using assms(2) by (simp add: preserves_def)
qed

theorem database_invariant_kept_witness:
  "db_inv (snd (recover sample_env (st_manager sample_state) empty_world))"
proof -
  have "stable sample_env db_inv" by (simp add: stable_def)
  moreover have "db_inv empty_world"
    by (simp add: db_inv_def empty_world_def peers_unique_def events_ok_def)
  ultimately show ?thesis using database_invariant_kept by blast
qed

end
